(* ===== verification/Prelude.thy ===== *)
theory Prelude imports Main "HOL-Library.Word" begin

text \<open>
  The vocabulary shared by every theory of the development: byte strings, the
  suffix operation behind bounded buffers, association lists for Go maps whose
  iteration the code performs, and buffered channels.

  Go's \<open>[]byte\<close> and \<open>string\<close> are byte sequences, which is what the list type
  \<open>string\<close> of 8-bit characters is.  A Go panic (send on a closed channel, close
  of a closed channel) is the value \<open>None\<close> of an option, so that the absence
  of panics is something to be proved.
\<close>

type_synonym bytes = string

named_theorems chan_simps \<open>equations of the channel operations\<close>
named_theorems broker_simps \<open>equations and projections of the attach broker\<close>
named_theorems sess_simps \<open>equations of session operations\<close>
named_theorems mgr_simps \<open>equations of manager operations\<close>

section \<open>Suffixes\<close>

definition lastn :: "nat \<Rightarrow> 'a list \<Rightarrow> 'a list" where
  "lastn n xs = drop (length xs - n) xs"

lemma length_lastn [simp]: "length (lastn n xs) = min n (length xs)"
  by (simp add: lastn_def)

lemma lastn_all [simp]: "length xs \<le> n \<Longrightarrow> lastn n xs = xs"
  by (simp add: lastn_def)

lemma lastn_Nil [simp]: "lastn n [] = []"
  by (simp add: lastn_def)

lemma lastn_append_long: "n \<le> length ys \<Longrightarrow> lastn n (xs @ ys) = lastn n ys"
  by (simp add: lastn_def)

lemma lastn_append_short:
  "length ys \<le> n \<Longrightarrow> lastn n (xs @ ys) = lastn (n - length ys) xs @ ys"
  by (simp add: lastn_def)

lemma lastn_lastn: "lastn m (lastn n xs) = lastn (min m n) xs"
  by (cases "n \<le> length xs") (auto simp: lastn_def min_def)

lemma drop_lastn:
  "drop k (lastn n xs) = drop (length xs - n + k) xs"
  by (simp add: lastn_def add.commute)

lemma lastn_append_lastn: "lastn n (lastn n xs @ ys) = lastn n (xs @ ys)"
proof (cases "n \<le> length ys")
  case True
  then show ?thesis by (simp add: lastn_append_long)
next
  case False
  then have "length ys \<le> n" by simp
  then show ?thesis by (simp add: lastn_append_short lastn_lastn min_def)
qed

section \<open>Association lists\<close>

text \<open>
  A Go map that the code ranges over is an association list with distinct keys;
  \<open>al_del\<close> is \<open>delete(m, k)\<close>.
\<close>

definition al_del :: "'k \<Rightarrow> ('k \<times> 'v) list \<Rightarrow> ('k \<times> 'v) list" where
  "al_del k xs = filter (\<lambda>p. fst p \<noteq> k) xs"

lemma al_del_simps [simp]:
  "al_del k [] = []"
  "al_del k ((k', v) # xs) = (if k' = k then al_del k xs else (k', v) # al_del k xs)"
  by (simp_all add: al_del_def)

lemma set_al_del [simp]: "set (al_del k xs) = {p \<in> set xs. fst p \<noteq> k}"
  by (auto simp: al_del_def)

lemma map_of_al_del [simp]: "map_of (al_del k xs) = (map_of xs)(k := None)"
  by (induction xs) (auto simp: fun_eq_iff)

lemma distinct_al_del [simp]:
  "distinct (map fst xs) \<Longrightarrow> distinct (map fst (al_del k xs))"
  by (simp add: al_del_def distinct_map_filter)

lemma distinct_snd_al_del [simp]:
  "distinct (map snd xs) \<Longrightarrow> distinct (map snd (al_del k xs))"
  by (simp add: al_del_def distinct_map_filter)

section \<open>Counting in an updated list\<close>

lemma count_filter_update:
  "i < length xs \<Longrightarrow>
     length (filter P (xs[i := x])) + of_bool (P (xs ! i)) = length (filter P xs) + of_bool (P x)"
proof (induction xs arbitrary: i)
  case (Cons y ys)
  then show ?case by (cases i) auto
qed simp

section \<open>Buffered channels\<close>

text \<open>
  A channel is its queue, its capacity and whether it has been closed.
  \<open>chan_try_send\<close> is \<open>select { case ch <- x: default: }\<close>: the flag tells whether
  the value was queued.  Receivers run in other goroutines; a receive is a step
  of its own (\<open>chan_recv\<close>).
\<close>

record 'a chan =
  chQueue :: "'a list"
  chCap :: nat
  chClosed :: bool

definition new_chan :: "nat \<Rightarrow> 'a chan" where
  "new_chan n = \<lparr>chQueue = [], chCap = n, chClosed = False\<rparr>"

definition chan_try_send :: "'a \<Rightarrow> 'a chan \<Rightarrow> (bool \<times> 'a chan) option" where
  "chan_try_send x c =
     (if chClosed c then None
      else if length (chQueue c) < chCap c then Some (True, c\<lparr>chQueue := chQueue c @ [x]\<rparr>)
      else Some (False, c))"

definition chan_close :: "'a chan \<Rightarrow> 'a chan option" where
  "chan_close c = (if chClosed c then None else Some (c\<lparr>chClosed := True\<rparr>))"

definition chan_recv :: "'a chan \<Rightarrow> 'a chan" where
  "chan_recv c = c\<lparr>chQueue := tl (chQueue c)\<rparr>"

lemma new_chan_sel [chan_simps, simp]:
  "chQueue (new_chan n) = []" "chCap (new_chan n) = n" "\<not> chClosed (new_chan n)"
  by (simp_all add: new_chan_def)

lemma chan_recv_sel [chan_simps, simp]:
  "chQueue (chan_recv c) = tl (chQueue c)" "chCap (chan_recv c) = chCap c"
  "chClosed (chan_recv c) = chClosed c"
  by (simp_all add: chan_recv_def)

end
