(* ===== verification/Go_Errors.thy ===== *)
theory Go_Errors imports Prelude begin

text \<open>
  The error values of the library.  A Go \<open>error\<close> that may be nil is an
  \<open>go_error option\<close>.  The sentinels are the ones of \<open>types.go\<close>; an error made
  by \<open>errors.New\<close> is \<open>ErrorsNew\<close> of its text, \<open>fmt.Errorf("p: %w", err)\<close> is
  \<open>Wrapped\<close> of the prefix and the wrapped error.  \<open>*JsonRpcError\<close>,
  \<open>*exec.ExitError\<close> and \<open>*ExitError\<close> are carried as values, so that
  \<open>errors.As\<close> is the walk along the wrap chain that Go performs.

  \<open>os.ProcessState\<close> is what its accessors report on unix: exited with a code,
  or terminated by a signal (then \<open>ExitCode()\<close> is -1).
\<close>

datatype process_state = Exited int | Signaled int

fun psExitCode :: "process_state \<Rightarrow> int" where
  "psExitCode (Exited c) = c"
| "psExitCode (Signaled s) = -1"

datatype jsonrpc_error =
  JsonRpcError (rpcCode: "64 word") (rpcMessage: string) (rpcData: bytes)

datatype go_error =
    ErrNoInputChannel
  | ErrTurnInFlight
  | ErrSessionNotRunning
  | ErrManagerStopped
  | ErrAttachDisabled
  | ErrSessionNotJsonRpcCapable
  | ErrClosedPipe
  | ErrContext
  | ErrorsNew string
  | Wrapped string go_error
  | AsJsonRpcError jsonrpc_error
  | AsExecExitError process_state
  | AsExitError exit_error
and exit_error =
  ExitError (xeCode: int) (xeSignal: int) (xeKilled: bool)
    (xeProcessState: "process_state option") (xeCause: string)
    (xeWaitErr: "go_error option")

text \<open>\<open>errors.As(err, &ee)\<close> with \<open>ee *exec.ExitError\<close>: the first one on the wrap chain.\<close>

fun as_exec_exit :: "go_error \<Rightarrow> process_state option"
  and as_exec_exit_x :: "exit_error \<Rightarrow> process_state option" where
  "as_exec_exit (AsExecExitError ps) = Some ps"
| "as_exec_exit (Wrapped p e) = as_exec_exit e"
| "as_exec_exit (AsExitError xe) = as_exec_exit_x xe"
| "as_exec_exit e = None"
| "as_exec_exit_x (ExitError c s k ps cause None) = None"
| "as_exec_exit_x (ExitError c s k ps cause (Some e)) = as_exec_exit e"

definition as_exec_exit_opt :: "go_error option \<Rightarrow> process_state option" where
  "as_exec_exit_opt e = (case e of None \<Rightarrow> None | Some e' \<Rightarrow> as_exec_exit e')"

lemma as_exec_exit_opt_simps [simp]:
  "as_exec_exit_opt None = None"
  "as_exec_exit_opt (Some e) = as_exec_exit e"
  by (simp_all add: as_exec_exit_opt_def)

end
