(* ===== verification/Attach.thy ===== *)
theory Attach imports Go_Errors begin

text \<open>
  The attach broker of \<open>attach.go\<close>: a bounded replay ring over the bytes written
  so far, and one buffered channel per live subscriber.  Every operation of the
  broker runs under \<open>b.mu\<close>, so it is one atomic state transformer here.

  The subscriber map holds references: \<open>subs\<close> maps a subscriber id to the index
  of its channel in \<open>chans\<close>, the store of every channel the broker has ever
  made, since a receiver keeps its channel after the broker forgot it.
  \<open>None\<close> is a panic (send on or close of a closed channel).
\<close>

section \<open>State and operations\<close>

definition defaultRingBytes :: int where "defaultRingBytes = 64 * 1024"
definition defaultSubscriberDepth :: int where "defaultSubscriberDepth = 64"

record broker =
  ringCap :: int
  chanCap :: int
  dropCnt :: int
  totalWritten :: int
  ring :: bytes
  subs :: "(nat \<times> nat) list"
  subNext :: nat
  closed :: bool
  chans :: "bytes chan list"

definition newAttachBroker :: "int \<Rightarrow> int \<Rightarrow> broker" where
  "newAttachBroker ringBytes subscriberDepth =
     (let ringBytes = (if ringBytes \<le> 0 then defaultRingBytes else ringBytes);
          subscriberDepth = (if subscriberDepth \<le> 0 then defaultSubscriberDepth else subscriberDepth)
      in \<lparr>ringCap = ringBytes, chanCap = subscriberDepth, dropCnt = 0, totalWritten = 0,
          ring = [], subs = [], subNext = 0, closed = False, chans = []\<rparr>)"

definition appendRing :: "bytes \<Rightarrow> broker \<Rightarrow> broker" where
  "appendRing p b =
     (if int (length p) \<ge> ringCap b
      then b\<lparr>ring := drop (nat (int (length p) - ringCap b)) p\<rparr>
      else let spare = ringCap b - int (length (ring b));
               r = (if int (length p) > spare
                    then drop (nat (int (length p) - spare)) (ring b) else ring b)
           in b\<lparr>ring := r @ p\<rparr>)"

text \<open>
  The publishing loop of \<open>Write\<close>: a non-blocking send to every subscriber, the
  length of the chunk added to \<open>dropCnt\<close> for each that is full.
\<close>

fun publish :: "(nat \<times> nat) list \<Rightarrow> bytes \<Rightarrow> broker \<Rightarrow> broker option" where
  "publish [] p b = Some b"
| "publish ((i, r) # ss) p b =
     (case chan_try_send p (chans b ! r) of
        None \<Rightarrow> None
      | Some (True, c) \<Rightarrow> publish ss p (b\<lparr>chans := (chans b)[r := c]\<rparr>)
      | Some (False, c) \<Rightarrow> publish ss p (b\<lparr>dropCnt := dropCnt b + int (length p)\<rparr>))"

definition brokerWrite :: "bytes \<Rightarrow> broker \<Rightarrow> ((int \<times> go_error option) \<times> broker) option" where
  "brokerWrite p b =
     (if length p = 0 then Some ((0, None), b)
      else if closed b then Some ((0, Some ErrClosedPipe), b)
      else
        let b1 = appendRing p b;
            b2 = b1\<lparr>totalWritten := totalWritten b1 + int (length p)\<rparr>
        in map_option (\<lambda>b3. ((int (length p), None), b3)) (publish (subs b2) p b2))"

definition computeReplay :: "bytes \<Rightarrow> int \<Rightarrow> int \<Rightarrow> bytes" where
  "computeReplay rg written sinceSeq =
     (if sinceSeq \<le> 0 \<or> length rg = 0 then rg
      else if sinceSeq \<ge> written then []
      else let ringStartSeq = written - int (length rg)
           in if sinceSeq < ringStartSeq then rg
              else drop (nat (sinceSeq - ringStartSeq)) rg)"

text \<open>
  What \<open>subscribeSince\<close> returns: the replay, the channel, and the cancel function,
  which is the subscriber id it unregisters together with its \<open>sync.Once\<close> flag
  (None for the no-op cancel of a subscription made after close).
\<close>

datatype cancel_fn = CancelNop | CancelSub nat bool

definition subscribeSince :: "int \<Rightarrow> int \<Rightarrow> broker \<Rightarrow> (bytes \<times> nat \<times> cancel_fn) \<times> broker" where
  "subscribeSince depth sinceSeq b =
     (let depth = (if depth \<le> 0 then chanCap b else depth);
          replay = computeReplay (ring b) (totalWritten b) sinceSeq;
          r = length (chans b);
          out = new_chan (nat depth)
      in if closed b
         then ((replay, r, CancelNop), b\<lparr>chans := chans b @ [out\<lparr>chClosed := True\<rparr>]\<rparr>)
         else ((replay, r, CancelSub (subNext b) False),
               b\<lparr>chans := chans b @ [out], subs := (subNext b, r) # subs b, subNext := subNext b + 1\<rparr>))"

definition subscribe :: "int \<Rightarrow> broker \<Rightarrow> (bytes \<times> nat \<times> cancel_fn) \<times> broker" where
  "subscribe depth b = subscribeSince depth 0 b"

definition closeChan :: "nat \<Rightarrow> broker \<Rightarrow> broker option" where
  "closeChan r b = map_option (\<lambda>c. b\<lparr>chans := (chans b)[r := c]\<rparr>) (chan_close (chans b ! r))"

fun runCancel :: "cancel_fn \<Rightarrow> broker \<Rightarrow> (cancel_fn \<times> broker) option" where
  "runCancel CancelNop b = Some (CancelNop, b)"
| "runCancel (CancelSub i done) b =
     (if done then Some (CancelSub i done, b)
      else case map_of (subs b) i of
             None \<Rightarrow> Some (CancelSub i True, b)
           | Some r \<Rightarrow>
               map_option (\<lambda>b'. (CancelSub i True, b'))
                 (closeChan r (b\<lparr>subs := al_del i (subs b)\<rparr>)))"

fun closeAll :: "(nat \<times> nat) list \<Rightarrow> broker \<Rightarrow> broker option" where
  "closeAll [] b = Some b"
| "closeAll ((i, r) # ss) b =
     (case closeChan r b of None \<Rightarrow> None
      | Some b' \<Rightarrow> closeAll ss (b'\<lparr>subs := al_del i (subs b')\<rparr>))"

definition closeBroker :: "broker \<Rightarrow> broker option" where
  "closeBroker b = (if closed b then Some b else closeAll (subs b) (b\<lparr>closed := True\<rparr>))"

text \<open>
  \<open>copyStream\<close> writes the replay and then runs its select loop; the list says what
  each select delivers (a chunk, the closed channel, the cancelled context).  The
  writer is a state transformer that may report an error.  The result is None
  while the loop is still waiting.
\<close>

datatype sel = SelChunk bytes | SelClosed | SelCtxDone

fun copyLoop :: "('w \<Rightarrow> bytes \<Rightarrow> 'w \<times> go_error option) \<Rightarrow> 'w \<Rightarrow> sel list \<Rightarrow> 'w \<times> go_error option option" where
  "copyLoop wr w [] = (w, None)"
| "copyLoop wr w (SelClosed # es) = (w, Some None)"
| "copyLoop wr w (SelCtxDone # es) = (w, Some (Some ErrContext))"
| "copyLoop wr w (SelChunk c # es) =
     (case wr w c of (w', Some e) \<Rightarrow> (w', Some (Some e)) | (w', None) \<Rightarrow> copyLoop wr w' es)"

definition copyStream :: "('w \<Rightarrow> bytes \<Rightarrow> 'w \<times> go_error option) \<Rightarrow> 'w \<Rightarrow> bytes \<Rightarrow> sel list \<Rightarrow> 'w \<times> go_error option option" where
  "copyStream wr w replay es =
     (if length replay > 0 then
        (case wr w replay of (w', Some e) \<Rightarrow> (w', Some (Some e)) | (w', None) \<Rightarrow> copyLoop wr w' es)
      else copyLoop wr w es)"

section \<open>Invariant\<close>

text \<open>
  A channel is live when a subscriber id refers to it; every other channel the
  broker made is closed.  \<open>broker_wf\<close> says this together with the bounds of the
  ring and the freshness of ids.
\<close>

definition live_chans :: "broker \<Rightarrow> nat set" where
  "live_chans b = snd ` set (subs b)"

definition broker_wf :: "broker \<Rightarrow> bool" where
  "broker_wf b \<longleftrightarrow>
     0 < ringCap b \<and> 0 < chanCap b \<and>
     int (length (ring b)) \<le> ringCap b \<and> int (length (ring b)) \<le> totalWritten b \<and>
     0 \<le> dropCnt b \<and>
     distinct (map fst (subs b)) \<and> distinct (map snd (subs b)) \<and>
     (\<forall>p \<in> set (subs b). fst p < subNext b \<and> snd p < length (chans b)) \<and>
     (\<forall>r < length (chans b). chClosed (chans b ! r) \<longleftrightarrow> r \<notin> live_chans b) \<and>
     (closed b \<longrightarrow> subs b = [])"

lemma broker_wfD:
  assumes "broker_wf b"
  shows "0 < ringCap b" "0 < chanCap b" "int (length (ring b)) \<le> ringCap b"
    "int (length (ring b)) \<le> totalWritten b" "0 \<le> dropCnt b"
    "distinct (map fst (subs b))" "distinct (map snd (subs b))"
    "p \<in> set (subs b) \<Longrightarrow> fst p < subNext b"
    "p \<in> set (subs b) \<Longrightarrow> snd p < length (chans b)"
    "r < length (chans b) \<Longrightarrow> chClosed (chans b ! r) \<longleftrightarrow> r \<notin> live_chans b"
    "closed b \<Longrightarrow> subs b = []"
  using assms by (auto simp: broker_wf_def)

lemma live_chans_range: "broker_wf b \<Longrightarrow> r \<in> live_chans b \<Longrightarrow> r < length (chans b)"
  by (auto simp: live_chans_def dest: broker_wfD)

lemma live_not_closed:
  "broker_wf b \<Longrightarrow> p \<in> set (subs b) \<Longrightarrow> \<not> chClosed (chans b ! snd p)"
  using broker_wfD(10)[of b "snd p"] by (auto simp: live_chans_def dest: broker_wfD(9))

lemma newAttachBroker_wf: "broker_wf (newAttachBroker rb sd)"
  by (simp add: newAttachBroker_def broker_wf_def Let_def live_chans_def
      defaultRingBytes_def defaultSubscriberDepth_def)

section \<open>Closed forms of the loops\<close>

definition chan_full :: "'a chan \<Rightarrow> bool" where
  "chan_full c \<longleftrightarrow> chCap c \<le> length (chQueue c)"

definition offer :: "'a \<Rightarrow> 'a chan \<Rightarrow> 'a chan" where
  "offer p c = (if chan_full c then c else c\<lparr>chQueue := chQueue c @ [p]\<rparr>)"

definition upd_chans :: "nat set \<Rightarrow> ('a \<Rightarrow> 'a) \<Rightarrow> 'a list \<Rightarrow> 'a list" where
  "upd_chans R f cs = map (\<lambda>r. if r \<in> R then f (cs ! r) else cs ! r) [0..<length cs]"

lemma length_upd_chans [simp]: "length (upd_chans R f cs) = length cs"
  by (simp add: upd_chans_def)

lemma nth_upd_chans [simp]:
  "r < length cs \<Longrightarrow> upd_chans R f cs ! r = (if r \<in> R then f (cs ! r) else cs ! r)"
  by (simp add: upd_chans_def)

lemma upd_chans_empty [simp]: "upd_chans {} f cs = cs"
  by (simp add: upd_chans_def map_nth)

lemma upd_chans_insert:
  "r \<notin> R \<Longrightarrow> r < length cs \<Longrightarrow> upd_chans R f (cs[r := f (cs ! r)]) = upd_chans (insert r R) f cs"
  by (rule nth_equalityI) (auto simp: nth_list_update)

lemma upd_chans_insert_same:
  "r < length cs \<Longrightarrow> f (cs ! r) = cs ! r \<Longrightarrow> upd_chans R f cs = upd_chans (insert r R) f cs"
  by (rule nth_equalityI) auto

lemma offer_sel [simp]:
  "chClosed (offer p c) = chClosed c" "chCap (offer p c) = chCap c"
  by (simp_all add: offer_def)

lemma chan_try_send_open:
  "\<not> chClosed c \<Longrightarrow> chan_try_send p c = Some (\<not> chan_full c, offer p c)"
  by (auto simp: chan_try_send_def chan_full_def offer_def)

lemma publish_closed_form:
  assumes "distinct (map snd ss)"
    and "\<And>q. q \<in> set ss \<Longrightarrow> snd q < length (chans b) \<and> \<not> chClosed (chans b ! snd q)"
  shows "publish ss p b = Some (b\<lparr>chans := upd_chans (snd ` set ss) (offer p) (chans b),
     dropCnt := dropCnt b + int (length p) * int (length (filter (\<lambda>q. chan_full (chans b ! snd q)) ss))\<rparr>)"
  using assms
proof (induction ss arbitrary: b)
  case Nil
  then show ?case by simp
next
  case (Cons q ss)
  obtain i r where q: "q = (i, r)" by (cases q)
  have r: "r < length (chans b)" "\<not> chClosed (chans b ! r)" "r \<notin> snd ` set ss"
    using Cons.prems(1) Cons.prems(2)[of q] by (auto simp: q)
  show ?case
  proof (cases "chan_full (chans b ! r)")
    case True
    define b' where "b' = b\<lparr>dropCnt := dropCnt b + int (length p)\<rparr>"
    have "publish ss p b' = Some (b'\<lparr>chans := upd_chans (snd ` set ss) (offer p) (chans b'),
       dropCnt := dropCnt b' + int (length p) * int (length (filter (\<lambda>q. chan_full (chans b' ! snd q)) ss))\<rparr>)"
      using Cons.prems by (intro Cons.IH) (auto simp: b'_def)
    moreover have "offer p (chans b ! r) = chans b ! r"
      using True by (simp add: offer_def)
    ultimately show ?thesis
      using True r upd_chans_insert_same[of r "chans b" "offer p" "snd ` set ss"]
      by (simp add: q chan_try_send_open b'_def algebra_simps)
  next
    case False
    define b' where "b' = b\<lparr>chans := (chans b)[r := offer p (chans b ! r)]\<rparr>"
    have same: "q' \<in> set ss \<Longrightarrow> chans b' ! snd q' = chans b ! snd q'" for q'
      using r by (auto simp: b'_def nth_list_update image_iff)
    have "publish ss p b' = Some (b'\<lparr>chans := upd_chans (snd ` set ss) (offer p) (chans b'),
       dropCnt := dropCnt b' + int (length p) * int (length (filter (\<lambda>q. chan_full (chans b' ! snd q)) ss))\<rparr>)"
      using Cons.prems same by (intro Cons.IH) (auto simp: b'_def)
    moreover have "filter (\<lambda>q. chan_full (chans b' ! snd q)) ss = filter (\<lambda>q. chan_full (chans b ! snd q)) ss"
      using same by (auto intro: filter_cong)
    ultimately show ?thesis
      using False r upd_chans_insert[of r "snd ` set ss" "chans b" "offer p"]
      by (simp add: q chan_try_send_open b'_def)
  qed
qed

definition mark_closed :: "'a chan \<Rightarrow> 'a chan" where
  "mark_closed c = c\<lparr>chClosed := True\<rparr>"

lemma mark_closed_sel [simp]:
  "chClosed (mark_closed c)" "chQueue (mark_closed c) = chQueue c" "chCap (mark_closed c) = chCap c"
  by (simp_all add: mark_closed_def)

lemma closeChan_open:
  "\<not> chClosed (chans b ! r) \<Longrightarrow>
   closeChan r b = Some (b\<lparr>chans := (chans b)[r := mark_closed (chans b ! r)]\<rparr>)"
  by (simp add: closeChan_def chan_close_def mark_closed_def)

lemma al_del_filter: "al_del k (filter P xs) = filter (\<lambda>p. P p \<and> fst p \<noteq> k) xs"
  by (simp add: al_del_def conj_commute)

lemma closeAll_closed_form:
  assumes "distinct (map snd ss)"
    and "\<And>q. q \<in> set ss \<Longrightarrow> snd q < length (chans b) \<and> \<not> chClosed (chans b ! snd q)"
  shows "closeAll ss b = Some (b\<lparr>chans := upd_chans (snd ` set ss) mark_closed (chans b),
     subs := filter (\<lambda>q. fst q \<notin> fst ` set ss) (subs b)\<rparr>)"
  using assms
proof (induction ss arbitrary: b)
  case Nil
  then show ?case by simp
next
  case (Cons q ss)
  obtain i r where q: "q = (i, r)" by (cases q)
  have r: "r < length (chans b)" "\<not> chClosed (chans b ! r)" "r \<notin> snd ` set ss"
    using Cons.prems(1) Cons.prems(2)[of q] by (auto simp: q)
  define b' where "b' = b\<lparr>chans := (chans b)[r := mark_closed (chans b ! r)], subs := al_del i (subs b)\<rparr>"
  have "closeAll ss b' = Some (b'\<lparr>chans := upd_chans (snd ` set ss) mark_closed (chans b'),
     subs := filter (\<lambda>q. fst q \<notin> fst ` set ss) (subs b')\<rparr>)"
    using Cons.prems r by (intro Cons.IH) (auto simp: b'_def nth_list_update image_iff)
  moreover have "filter (\<lambda>q. fst q \<notin> fst ` set ss) (al_del i (subs b)) =
      filter (\<lambda>q. fst q \<notin> insert i (fst ` set ss)) (subs b)"
    by (auto simp: al_del_def intro: filter_cong)
  ultimately show ?case
    using r upd_chans_insert[of r "snd ` set ss" "chans b" mark_closed]
    by (simp add: q closeChan_open b'_def)
qed

section \<open>What each operation does\<close>

lemma appendRing_lastn:
  assumes "broker_wf b"
  shows "appendRing p b = b\<lparr>ring := lastn (nat (ringCap b)) (ring b @ p)\<rparr>"
proof -
  note wf = broker_wfD(1,3)[OF assms]
  show ?thesis
  proof (cases "int (length p) \<ge> ringCap b")
    case True
    then show ?thesis
      using wf by (simp add: appendRing_def lastn_def nat_diff_distrib')
  next
    case False
    have "drop (length (ring b) + length p - nat (ringCap b)) (ring b) =
      (if int (length p) > ringCap b - int (length (ring b))
       then drop (nat (int (length p) - (ringCap b - int (length (ring b))))) (ring b) else ring b)"
      using wf by (auto simp: nat_diff_distrib nat_add_distrib algebra_simps intro!: arg_cong2[where f = drop])
    moreover have "length (ring b) + length p - nat (ringCap b) - length (ring b) = 0"
      using False by simp
    ultimately show ?thesis
      using False by (simp add: appendRing_def lastn_def Let_def)
  qed
qed

definition after_write :: "bytes \<Rightarrow> broker \<Rightarrow> broker" where
  "after_write p b =
     b\<lparr>ring := lastn (nat (ringCap b)) (ring b @ p), totalWritten := totalWritten b + int (length p),
       chans := upd_chans (live_chans b) (offer p) (chans b),
       dropCnt := dropCnt b + int (length p) *
         int (length (filter (\<lambda>q. chan_full (chans b ! snd q)) (subs b)))\<rparr>"

lemma brokerWrite_empty [broker_simps]: "brokerWrite [] b = Some ((0, None), b)"
  by (simp add: brokerWrite_def)

lemma brokerWrite_closed [broker_simps]:
  "closed b \<Longrightarrow> p \<noteq> [] \<Longrightarrow> brokerWrite p b = Some ((0, Some ErrClosedPipe), b)"
  by (simp add: brokerWrite_def)

lemma brokerWrite_open:
  assumes "broker_wf b" "\<not> closed b" "p \<noteq> []"
  shows "brokerWrite p b = Some ((int (length p), None), after_write p b)"
proof -
  let ?b = "b\<lparr>ring := lastn (nat (ringCap b)) (ring b @ p), totalWritten := totalWritten b + int (length p)\<rparr>"
  have "publish (subs ?b) p ?b = Some (?b\<lparr>chans := upd_chans (snd ` set (subs ?b)) (offer p) (chans ?b),
     dropCnt := dropCnt ?b + int (length p) * int (length (filter (\<lambda>q. chan_full (chans ?b ! snd q)) (subs ?b)))\<rparr>)"
    using broker_wfD(7)[OF assms(1)] live_not_closed[OF assms(1)] broker_wfD(9)[OF assms(1)]
    by (intro publish_closed_form) auto
  then show ?thesis
    using assms by (simp add: brokerWrite_def appendRing_lastn Let_def after_write_def live_chans_def)
qed

lemma brokerWrite_cases:
  assumes "broker_wf b"
  shows "brokerWrite p b = Some (if p = [] then ((0, None), b)
     else if closed b then ((0, Some ErrClosedPipe), b)
     else ((int (length p), None), after_write p b))"
  using assms by (auto simp: brokerWrite_open broker_simps)

definition accepted_bytes :: "bytes \<Rightarrow> broker \<Rightarrow> bytes" where
  "accepted_bytes p b = (if closed b then [] else p)"

lemma live_upd [simp]:
  "live_chans (b\<lparr>ring := x\<rparr>) = live_chans b" "live_chans (b\<lparr>totalWritten := t\<rparr>) = live_chans b"
  "live_chans (b\<lparr>chans := cs\<rparr>) = live_chans b" "live_chans (b\<lparr>dropCnt := d\<rparr>) = live_chans b"
  "live_chans (b\<lparr>closed := c\<rparr>) = live_chans b"
  by (simp_all add: live_chans_def)

lemma after_write_sel [simp]:
  "ringCap (after_write p b) = ringCap b" "chanCap (after_write p b) = chanCap b"
  "subs (after_write p b) = subs b" "subNext (after_write p b) = subNext b"
  "closed (after_write p b) = closed b" "live_chans (after_write p b) = live_chans b"
  "ring (after_write p b) = lastn (nat (ringCap b)) (ring b @ p)"
  "totalWritten (after_write p b) = totalWritten b + int (length p)"
  "chans (after_write p b) = upd_chans (live_chans b) (offer p) (chans b)"
  by (simp_all add: after_write_def)

lemma after_write_wf: "broker_wf b \<Longrightarrow> broker_wf (after_write p b)"
  unfolding broker_wf_def by (auto simp: after_write_def min_def)

text \<open>Subscribing.\<close>

definition add_sub :: "nat \<Rightarrow> broker \<Rightarrow> broker" where
  "add_sub cap b = b\<lparr>chans := chans b @ [new_chan cap],
     subs := (subNext b, length (chans b)) # subs b, subNext := Suc (subNext b)\<rparr>"

lemma add_sub_wf:
  assumes "broker_wf b" "\<not> closed b"
  shows "broker_wf (add_sub cap b)"
proof -
  have r: "snd q < length (chans b)" "fst q < subNext b" if "q \<in> set (subs b)" for q
    using broker_wfD(8,9)[OF assms(1) that] by simp_all
  have new: "length (chans b) \<notin> snd ` set (subs b)" "subNext b \<notin> fst ` set (subs b)"
    using r by (metis imageE less_irrefl)+
  have live: "live_chans (add_sub cap b) = insert (length (chans b)) (live_chans b)"
    by (simp add: live_chans_def add_sub_def)
  have chans: "chClosed (chans (add_sub cap b) ! k) \<longleftrightarrow> k \<notin> live_chans (add_sub cap b)"
    if "k < length (chans (add_sub cap b))" for k
    using that broker_wfD(10)[OF assms(1), of k] unfolding live
    by (auto simp: add_sub_def nth_append)
  have "fst q < subNext (add_sub cap b) \<and> snd q < length (chans (add_sub cap b))"
    if "q \<in> set (subs (add_sub cap b))" for q
    using that r[of q] by (auto simp: add_sub_def less_SucI)
  moreover have "distinct (map fst (subs (add_sub cap b)))" "distinct (map snd (subs (add_sub cap b)))"
    using new broker_wfD(6,7)[OF assms(1)] by (simp_all add: add_sub_def)
  ultimately show ?thesis
    using assms chans broker_wfD(1-5)[OF assms(1)] by (simp add: broker_wf_def add_sub_def)
qed

lemma subscribeSince_open:
  "\<not> closed b \<Longrightarrow> subscribeSince depth n b =
     ((computeReplay (ring b) (totalWritten b) n, length (chans b), CancelSub (subNext b) False),
      add_sub (nat (if depth \<le> 0 then chanCap b else depth)) b)"
  by (simp add: subscribeSince_def add_sub_def Let_def)

lemma subscribeSince_closed:
  "closed b \<Longrightarrow> subscribeSince depth n b =
     ((computeReplay (ring b) (totalWritten b) n, length (chans b), CancelNop),
      b\<lparr>chans := chans b @ [mark_closed (new_chan (nat (if depth \<le> 0 then chanCap b else depth)))]\<rparr>)"
  by (simp add: subscribeSince_def mark_closed_def Let_def)

lemma subscribeSince_wf:
  assumes "broker_wf b"
  shows "broker_wf (snd (subscribeSince depth n b))"
proof (cases "closed b")
  case True
  then show ?thesis
    using assms by (auto simp: subscribeSince_closed broker_wf_def nth_append live_chans_def)
next
  case False
  with assms show ?thesis by (simp add: subscribeSince_open add_sub_wf)
qed

lemma subscribeSince_sel:
  assumes "subscribeSince depth n b = ((replay, r, cf), b')"
  shows "replay = computeReplay (ring b) (totalWritten b) n" "r = length (chans b)"
    "ring b' = ring b" "totalWritten b' = totalWritten b" "closed b' = closed b"
    "dropCnt b' = dropCnt b" "ringCap b' = ringCap b"
    "r < length (chans b')" "chQueue (chans b' ! r) = []"
    "\<not> closed b \<Longrightarrow> cf = CancelSub (subNext b) False \<and> (subNext b, r) \<in> set (subs b')"
    "closed b \<Longrightarrow> cf = CancelNop \<and> chClosed (chans b' ! r)"
  using assms by (auto simp: subscribeSince_def Let_def split: if_splits)

text \<open>Cancelling.\<close>

definition after_cancel :: "nat \<Rightarrow> broker \<Rightarrow> broker" where
  "after_cancel i b = (case map_of (subs b) i of
       None \<Rightarrow> b
     | Some r \<Rightarrow> b\<lparr>subs := al_del i (subs b), chans := (chans b)[r := mark_closed (chans b ! r)]\<rparr>)"

lemma runCancel_wf_form:
  assumes "broker_wf b"
  shows "runCancel (CancelSub i False) b = Some (CancelSub i True, after_cancel i b)"
proof (cases "map_of (subs b) i")
  case None
  then show ?thesis by (simp add: after_cancel_def)
next
  case (Some r)
  then have "(i, r) \<in> set (subs b)" by (rule map_of_SomeD)
  then have "\<not> chClosed (chans b ! r)" using live_not_closed[OF assms] by fastforce
  with Some show ?thesis by (simp add: after_cancel_def closeChan_open)
qed

lemma after_cancel_wf:
  assumes "broker_wf b"
  shows "broker_wf (after_cancel i b)"
proof (cases "map_of (subs b) i")
  case None
  with assms show ?thesis by (simp add: after_cancel_def)
next
  case (Some r)
  then have ir: "(i, r) \<in> set (subs b)" by (rule map_of_SomeD)
  have dist: "distinct (map fst (subs b))" "distinct (map snd (subs b))"
    using assms by (auto dest: broker_wfD)
  have live: "snd ` {q \<in> set (subs b). fst q \<noteq> i} = live_chans b - {r}"
  proof -
    have "fst q = i \<longleftrightarrow> snd q = r" if "q \<in> set (subs b)" for q
      using that ir dist by (metis eq_key_imp_eq_value inj_onD distinct_map prod.collapse snd_conv fst_conv)
    then show ?thesis using ir by (force simp: live_chans_def)
  qed
  have "r < length (chans b)" using broker_wfD(9)[OF assms ir] by simp
  then show ?thesis
    using assms Some live unfolding broker_wf_def
    by (auto simp: after_cancel_def live_chans_def nth_list_update)
qed

text \<open>Closing.\<close>

definition after_close :: "broker \<Rightarrow> broker" where
  "after_close b = (if closed b then b else b\<lparr>closed := True,
     chans := upd_chans (live_chans b) mark_closed (chans b), subs := []\<rparr>)"

lemma closeBroker_wf_form:
  assumes "broker_wf b"
  shows "closeBroker b = Some (after_close b)"
proof (cases "closed b")
  case True
  then show ?thesis by (simp add: closeBroker_def after_close_def)
next
  case False
  let ?b = "b\<lparr>closed := True\<rparr>"
  have "closeAll (subs b) ?b = Some (?b\<lparr>chans := upd_chans (snd ` set (subs b)) mark_closed (chans ?b),
     subs := filter (\<lambda>q. fst q \<notin> fst ` set (subs b)) (subs ?b)\<rparr>)"
    using broker_wfD(7)[OF assms] live_not_closed[OF assms] broker_wfD(9)[OF assms]
    by (intro closeAll_closed_form) auto
  moreover have "filter (\<lambda>q. fst q \<notin> fst ` set (subs b)) (subs b) = []"
    by (auto simp: filter_empty_conv)
  ultimately show ?thesis
    using False by (simp add: closeBroker_def after_close_def live_chans_def)
qed

lemma after_close_wf: "broker_wf b \<Longrightarrow> broker_wf (after_close b)"
  unfolding broker_wf_def by (auto simp: after_close_def live_chans_def)

lemma after_close_sel [simp]:
  "closed (after_close b)" "ring (after_close b) = ring b" "totalWritten (after_close b) = totalWritten b"
  "ringCap (after_close b) = ringCap b" "dropCnt (after_close b) = dropCnt b"
  "length (chans (after_close b)) = length (chans b)"
  by (simp_all add: after_close_def)

end
