(* ===== verification/Attach_Spec.thy ===== *)
theory Attach_Spec imports Attach begin

text \<open>
  What the attach broker promises, over arbitrary sequences of operations: the
  abstract contract is a log of every byte accepted so far, of which the broker
  holds a bounded suffix.  The interface \<open>replay_log\<close> states the contract a
  reconnecting client needs, the client's lemmas are proved inside it, and the
  broker is an instance.
\<close>

section \<open>Runs of operations\<close>

text \<open>
  One step per critical section: a write by the session, a subscription, a
  cancel, the close by the manager, and a receive by the goroutine that copies
  the stream (channel reference given).
\<close>

datatype bop = OpWrite bytes | OpSubscribe int int | OpCancel nat | OpClose | OpRecv nat

definition recvStep :: "nat \<Rightarrow> broker \<Rightarrow> broker" where
  "recvStep r b = (if r < length (chans b) then b\<lparr>chans := (chans b)[r := chan_recv (chans b ! r)]\<rparr> else b)"

fun bop_step :: "bop \<Rightarrow> broker \<Rightarrow> broker option" where
  "bop_step (OpWrite p) b = map_option snd (brokerWrite p b)"
| "bop_step (OpSubscribe depth n) b = Some (snd (subscribeSince depth n b))"
| "bop_step (OpCancel i) b = map_option snd (runCancel (CancelSub i False) b)"
| "bop_step OpClose b = closeBroker b"
| "bop_step (OpRecv r) b = Some (recvStep r b)"

fun bop_run :: "bop list \<Rightarrow> broker \<Rightarrow> broker option" where
  "bop_run [] b = Some b"
| "bop_run (x # xs) b = (case bop_step x b of None \<Rightarrow> None | Some b' \<Rightarrow> bop_run xs b')"

text \<open>The bytes the broker accepts in a run, and the chunks taken off channel \<open>r\<close>.\<close>

fun accepted1 :: "bop \<Rightarrow> broker \<Rightarrow> bytes" where
  "accepted1 (OpWrite p) b = accepted_bytes p b"
| "accepted1 x b = []"

fun accepted :: "bop list \<Rightarrow> broker \<Rightarrow> bytes" where
  "accepted [] b = []"
| "accepted (x # xs) b =
     accepted1 x b @ (case bop_step x b of None \<Rightarrow> [] | Some b' \<Rightarrow> accepted xs b')"

fun received1 :: "nat \<Rightarrow> bop \<Rightarrow> broker \<Rightarrow> bytes" where
  "received1 r (OpRecv q) b =
     (if q = r \<and> r < length (chans b)
      then (case chQueue (chans b ! r) of [] \<Rightarrow> [] | c # _ \<Rightarrow> c) else [])"
| "received1 r x b = []"

fun received :: "nat \<Rightarrow> bop list \<Rightarrow> broker \<Rightarrow> bytes" where
  "received r [] b = []"
| "received r (x # xs) b =
     received1 r x b @ (case bop_step x b of None \<Rightarrow> [] | Some b' \<Rightarrow> received r xs b')"

definition after_op :: "bop \<Rightarrow> broker \<Rightarrow> broker" where
  "after_op x b = (case x of
      OpWrite p \<Rightarrow> (if p = [] \<or> closed b then b else after_write p b)
    | OpSubscribe depth n \<Rightarrow> snd (subscribeSince depth n b)
    | OpCancel i \<Rightarrow> after_cancel i b
    | OpClose \<Rightarrow> after_close b
    | OpRecv r \<Rightarrow> recvStep r b)"

lemma bop_step_wf: "broker_wf b \<Longrightarrow> bop_step x b = Some (after_op x b)"
  by (cases x) (auto simp: after_op_def brokerWrite_cases runCancel_wf_form closeBroker_wf_form
      simp del: runCancel.simps)

lemma recvStep_wf: "broker_wf b \<Longrightarrow> broker_wf (recvStep r b)"
  unfolding broker_wf_def by (auto simp: recvStep_def nth_list_update)

lemma after_op_wf: "broker_wf b \<Longrightarrow> broker_wf (after_op x b)"
  by (cases x) (auto simp: after_op_def after_write_wf subscribeSince_wf after_cancel_wf
      after_close_wf recvStep_wf)

lemma bop_run_wf:
  "broker_wf b \<Longrightarrow> \<exists>b'. bop_run xs b = Some b' \<and> broker_wf b'"
proof (induction xs arbitrary: b)
  case (Cons x xs)
  then show ?case by (simp add: bop_step_wf after_op_wf)
qed simp

lemma bop_run_Cons:
  "broker_wf b \<Longrightarrow> bop_run (x # xs) b = bop_run xs (after_op x b)"
  "broker_wf b \<Longrightarrow> accepted (x # xs) b = accepted1 x b @ accepted xs (after_op x b)"
  "broker_wf b \<Longrightarrow> received r (x # xs) b = received1 r x b @ received r xs (after_op x b)"
  by (simp_all add: bop_step_wf)

section \<open>The log the broker holds\<close>

definition holds_log :: "broker \<Rightarrow> bytes \<Rightarrow> bool" where
  "holds_log b h \<longleftrightarrow> ring b = lastn (nat (ringCap b)) h \<and> totalWritten b = int (length h)"

lemma newAttachBroker_log: "holds_log (newAttachBroker rb sd) []"
  by (simp add: holds_log_def newAttachBroker_def Let_def)

lemma after_write_log: "holds_log b h \<Longrightarrow> holds_log (after_write p b) (h @ p)"
  by (simp add: holds_log_def lastn_append_lastn)

lemma after_op_frame:
  "ringCap (after_op x b) = ringCap b"
  by (cases x) (auto simp: after_op_def subscribeSince_def after_cancel_def recvStep_def Let_def
      split: option.splits)

lemma after_op_log:
  assumes "holds_log b h"
  shows "holds_log (after_op x b) (h @ accepted1 x b)"
proof (cases x)
  case (OpWrite p)
  then show ?thesis
    using assms by (auto simp: after_op_def accepted_bytes_def after_write_log)
next
  case (OpSubscribe d n)
  then show ?thesis
    using assms by (simp add: after_op_def holds_log_def subscribeSince_def Let_def)
next
  case (OpCancel i)
  then show ?thesis
    using assms by (simp add: after_op_def holds_log_def after_cancel_def split: option.splits)
next
  case OpClose
  then show ?thesis using assms by (simp add: after_op_def holds_log_def)
next
  case (OpRecv r)
  then show ?thesis using assms by (simp add: after_op_def holds_log_def recvStep_def)
qed

lemma bop_run_log:
  assumes "broker_wf b" "holds_log b h" "bop_run xs b = Some b'"
  shows "holds_log b' (h @ accepted xs b)"
  using assms
proof (induction xs arbitrary: b h)
  case Nil
  then show ?case by simp
next
  case (Cons x xs)
  have "holds_log b' ((h @ accepted1 x b) @ accepted xs (after_op x b))"
    using Cons.prems by (intro Cons.IH) (auto simp: bop_step_wf after_op_wf after_op_log)
  then show ?case using Cons.prems(1) by (simp add: bop_step_wf)
qed

lemma bop_run_frame:
  "broker_wf b \<Longrightarrow> bop_run xs b = Some b' \<Longrightarrow> ringCap b' = ringCap b"
proof (induction xs arbitrary: b)
  case (Cons x xs)
  then show ?case using after_op_wf[of b x] by (simp add: bop_step_wf after_op_frame)
qed simp

section \<open>The replay\<close>

lemma computeReplay_log:
  assumes "holds_log b h" "0 < ringCap b"
  shows "computeReplay (ring b) (totalWritten b) n =
    (if n \<le> 0 then lastn (nat (ringCap b)) h
     else drop (max (nat n) (length h - nat (ringCap b))) h)"
proof -
  let ?c = "nat (ringCap b)"
  have ring: "ring b = drop (length h - ?c) h" and len: "totalWritten b = int (length h)"
    using assms(1) by (simp_all add: holds_log_def lastn_def)
  show ?thesis
  proof (cases "n \<le> 0 \<or> h = []")
    case True
    then show ?thesis using assms by (auto simp: computeReplay_def holds_log_def lastn_def)
  next
    case False
    have "length (ring b) = min ?c (length h)" by (simp add: ring)
    with False show ?thesis
      using assms(2)
      by (auto simp: computeReplay_def Let_def len ring min_def max_def nat_diff_distrib
          intro!: arg_cong2[where f = drop])
  qed
qed

text \<open>
  The interface of a bounded replay log as a client that reconnects sees it:
  appending, the position-based replay, how much is retained, and the relation
  to the full history.
\<close>

locale replay_log =
  fixes append :: "bytes \<Rightarrow> 'b \<Rightarrow> 'b"
    and replay_from :: "'b \<Rightarrow> int \<Rightarrow> bytes"
    and capacity :: "'b \<Rightarrow> nat"
    and valid :: "'b \<Rightarrow> bool"
    and holds :: "'b \<Rightarrow> bytes \<Rightarrow> bool"
  assumes append_valid: "valid b \<Longrightarrow> valid (append p b)"
    and append_holds: "valid b \<Longrightarrow> holds b h \<Longrightarrow> holds (append p b) (h @ p)"
    and append_capacity: "valid b \<Longrightarrow> capacity (append p b) = capacity b"
    and replay_suffix: "valid b \<Longrightarrow> holds b h \<Longrightarrow> 0 < n \<Longrightarrow>
          replay_from b (int n) = drop (max n (length h - capacity b)) h"
begin

lemma resume_exact:
  assumes "valid b" "holds b h" "0 < n" "length h - n \<le> capacity b"
  shows "take n h @ replay_from b (int n) = h"
proof -
  have "max n (length h - capacity b) = n"
    using assms(4) by (intro max_absorb1) linarith
  then show ?thesis using assms by (simp add: replay_suffix)
qed

lemma resume_evicted:
  assumes "valid b" "holds b h" "0 < n" "n + capacity b < length h"
  shows "replay_from b (int n) = lastn (capacity b) h"
proof -
  have "max n (length h - capacity b) = length h - capacity b"
    using assms(4) by (simp add: max_def)
  then show ?thesis using assms by (simp add: replay_suffix lastn_def)
qed

lemma appends:
  assumes "valid b" "holds b h"
  shows "valid (fold append ps b) \<and> holds (fold append ps b) (h @ concat ps) \<and>
    capacity (fold append ps b) = capacity b"
  using assms
proof (induction ps arbitrary: b h)
  case (Cons p ps)
  then show ?case
    using Cons.IH[of "append p b" "h @ p"]
    by (simp add: append_valid append_holds append_capacity)
qed simp

lemma reconnect:
  assumes "valid b" "holds b h" "0 < n" "n \<le> length h" "length (h @ concat ps) - n \<le> capacity b"
  shows "take n h @ replay_from (fold append ps b) (int n) = h @ concat ps"
  using resume_exact[of "fold append ps b" "h @ concat ps" n] appends[OF assms(1,2), of ps] assms
  by simp

end

definition append_open :: "bytes \<Rightarrow> broker \<Rightarrow> broker" where
  "append_open p b = (case brokerWrite p b of None \<Rightarrow> b | Some (_, b') \<Rightarrow> b')"

lemma append_open_wf:
  "broker_wf b \<Longrightarrow> \<not> closed b \<Longrightarrow> append_open p b = (if p = [] then b else after_write p b)"
  by (simp add: append_open_def brokerWrite_cases)

interpretation attach: replay_log append_open
  "\<lambda>b n. fst (fst (subscribeSince 0 n b))" "\<lambda>b. nat (ringCap b)"
  "\<lambda>b. broker_wf b \<and> \<not> closed b" holds_log
  by unfold_locales
     (auto simp: append_open_wf after_write_wf after_write_log subscribeSince_open
        computeReplay_log dest: broker_wfD(1))

section \<open>The stream of one subscriber\<close>

text \<open>
  As long as nothing is dropped anywhere and the subscription is not cancelled,
  what was taken off the channel plus what is queued is what was queued before
  plus every byte accepted since.
\<close>

definition subscribed :: "nat \<Rightarrow> nat \<Rightarrow> broker \<Rightarrow> bool" where
  "subscribed i r b \<longleftrightarrow> r < length (chans b) \<and> (closed b \<or> (i, r) \<in> set (subs b))"

definition queued :: "nat \<Rightarrow> broker \<Rightarrow> bytes" where
  "queued r b = concat (chQueue (chans b ! r))"

lemma dropCnt_after_op: "broker_wf b \<Longrightarrow> dropCnt b \<le> dropCnt (after_op x b)"
  by (cases x) (auto simp: after_op_def after_write_def subscribeSince_def after_cancel_def
      recvStep_def Let_def split: option.splits)

lemma dropCnt_run:
  "broker_wf b \<Longrightarrow> bop_run xs b = Some b' \<Longrightarrow> dropCnt b \<le> dropCnt b'"
proof (induction xs arbitrary: b)
  case (Cons x xs)
  then show ?case
    using after_op_wf[of b x] dropCnt_after_op[of b x] by (fastforce simp: bop_step_wf)
qed simp

lemma no_drop_not_full:
  assumes "dropCnt (after_write p b) = dropCnt b" "p \<noteq> []" "(i, r) \<in> set (subs b)"
  shows "\<not> chan_full (chans b ! r)"
proof
  assume "chan_full (chans b ! r)"
  with assms(3) have "filter (\<lambda>q. chan_full (chans b ! snd q)) (subs b) \<noteq> []"
    by (force simp: filter_empty_conv)
  with assms(1,2) show False by (simp add: after_write_def)
qed

lemma stream_step:
  assumes "broker_wf b" "subscribed i r b" "x \<noteq> OpCancel i" "dropCnt (after_op x b) = dropCnt b"
  shows "subscribed i r (after_op x b) \<and>
    received1 r x b @ queued r (after_op x b) = queued r b @ accepted1 x b"
proof (cases x)
  case (OpWrite p)
  show ?thesis
  proof (cases "p = [] \<or> closed b")
    case True
    then show ?thesis
      using assms OpWrite by (auto simp: after_op_def accepted_bytes_def)
  next
    case False
    with assms(2) have ir: "(i, r) \<in> set (subs b)" "r < length (chans b)"
      by (auto simp: subscribed_def)
    then have live: "r \<in> live_chans b" by (force simp: live_chans_def)
    have "\<not> chan_full (chans b ! r)"
      using assms(4) False OpWrite ir no_drop_not_full by (simp add: after_op_def)
    then show ?thesis
      using False OpWrite ir live
      by (simp add: after_op_def accepted_bytes_def subscribed_def queued_def offer_def)
  qed
next
  case (OpSubscribe d n)
  then show ?thesis
    using assms(2) by (auto simp: after_op_def subscribeSince_def subscribed_def queued_def Let_def nth_append)
next
  case (OpCancel j)
  show ?thesis
  proof (cases "map_of (subs b) j")
    case None
    then show ?thesis using assms(2) OpCancel by (simp add: after_op_def after_cancel_def)
  next
    case (Some r')
    then show ?thesis
      using assms(2,3) OpCancel
      by (cases "r = r'") (auto simp: after_op_def after_cancel_def subscribed_def queued_def)
  qed
next
  case OpClose
  then show ?thesis
    using assms(2) by (auto simp: after_op_def after_close_def subscribed_def queued_def)
next
  case (OpRecv q)
  then show ?thesis
    using assms(2)
    by (cases "chQueue (chans b ! r)")
       (auto simp: after_op_def recvStep_def subscribed_def queued_def nth_list_update)
qed

lemma stream_run:
  assumes "broker_wf b" "subscribed i r b" "OpCancel i \<notin> set xs"
    "bop_run xs b = Some b'" "dropCnt b' = dropCnt b"
  shows "received r xs b @ queued r b' = queued r b @ accepted xs b"
  using assms
proof (induction xs arbitrary: b)
  case Nil
  then show ?case by simp
next
  case (Cons x xs)
  let ?b = "after_op x b"
  have wf: "broker_wf ?b" and run: "bop_run xs ?b = Some b'"
    using Cons.prems by (auto simp: bop_step_wf after_op_wf)
  have drops: "dropCnt ?b = dropCnt b" "dropCnt b' = dropCnt ?b"
    using dropCnt_after_op[OF Cons.prems(1), of x] dropCnt_run[OF wf run] Cons.prems(5) by auto
  have step: "subscribed i r ?b" "received1 r x b @ queued r ?b = queued r b @ accepted1 x b"
    using stream_step[OF Cons.prems(1,2) _ drops(1)] Cons.prems(3) by auto
  have "received r xs ?b @ queued r b' = queued r ?b @ accepted xs ?b"
    using Cons.IH[OF wf step(1) _ run drops(2)] Cons.prems(3) by simp
  then show ?case
    using step(2) Cons.prems(1) by (metis append.assoc bop_run_Cons(2,3))
qed

lemma subscribe_stream:
  assumes "broker_wf b" "\<not> closed b" "subscribeSince depth n b = ((replay, r, CancelSub i False), b1)"
  shows "broker_wf b1" "subscribed i r b1" "queued r b1 = []" "dropCnt b1 = dropCnt b"
    "accepted xs b1 = accepted xs b1"
  using assms add_sub_wf[OF assms(1,2)]
  by (auto simp: subscribeSince_open subscribed_def queued_def add_sub_def)

section \<open>Properties of the attach broker\<close>

text \<open>C1.
  Whatever sequence of writes, subscriptions, cancellations, receives and closes
  the goroutines of a session perform on a fresh broker, the broker never panics
  (no send on a closed channel, no channel closed twice) and its invariant holds
  afterwards: the ring stays within its capacity, subscriber ids are distinct,
  and a channel is open exactly while it is registered.\<close>

theorem attach_broker_never_panics:
  "\<exists>b. bop_run ops (newAttachBroker ringBytes depth) = Some b \<and> broker_wf b"
  by (rule bop_run_wf) (rule newAttachBroker_wf)

text \<open>C2.
  The ring is the drop-oldest suffix of everything accepted: after any run the
  ring holds exactly the last \<open>ringCap\<close> bytes of the bytes accepted so far, and
  \<open>totalWritten\<close> is their number, so positions stay valid across evictions.\<close>

theorem attach_ring_is_log_suffix:
  "\<exists>b. bop_run ops (newAttachBroker ringBytes depth) = Some b \<and>
     ring b = lastn (nat (ringCap (newAttachBroker ringBytes depth)))
       (accepted ops (newAttachBroker ringBytes depth)) \<and>
     totalWritten b = int (length (accepted ops (newAttachBroker ringBytes depth)))"
proof -
  let ?b0 = "newAttachBroker ringBytes depth"
  obtain b where b: "bop_run ops ?b0 = Some b"
    using bop_run_wf[OF newAttachBroker_wf] by blast
  have "holds_log b (accepted ops ?b0)"
    using bop_run_log[OF newAttachBroker_wf newAttachBroker_log b] by simp
  with b show ?thesis
    using bop_run_frame[OF newAttachBroker_wf b] by (auto simp: holds_log_def)
qed

text \<open>C3.
  A reconnecting client loses and repeats nothing: if it has seen the first \<open>n\<close>
  bytes of the history, no more than \<open>ringCap\<close> bytes were produced since, and it
  subscribes with \<open>SinceSeq = n\<close>, then what it had, the replay, what it receives
  and what is still queued for it are together exactly the history followed by
  every byte accepted after it subscribed, for any interleaving of other
  operations (other subscribers, cancels, the broker's close), as long as the
  drop counter did not move.\<close>

theorem attach_resume_no_gap_no_dup:
  assumes "broker_wf b" "\<not> closed b" "holds_log b h"
    and "0 < n" "length h - n \<le> nat (ringCap b)"
    and sub: "subscribeSince depth (int n) b = ((replay, r, CancelSub i False), b1)"
    and run: "bop_run ops b1 = Some b2" and "OpCancel i \<notin> set ops" and "dropCnt b2 = dropCnt b"
  shows "take n h @ replay @ received r ops b1 @ queued r b2 = h @ accepted ops b1"
proof -
  note s = subscribe_stream[OF assms(1,2) sub]
  have "fst (fst (subscribeSince 0 (int n) b)) = replay"
    using sub assms(2) by (simp add: subscribeSince_open)
  then have "take n h @ replay = h"
    using attach.resume_exact[of b h n] assms(1-5) by simp
  moreover have "received r ops b1 @ queued r b2 = accepted ops b1"
    using stream_run[OF s(1,2) assms(8) run] s(3,4) assms(9) by simp
  ultimately show ?thesis by (metis append.assoc)
qed

theorem attach_resume_no_gap_no_dup_witness:
  "\<exists>b b1 b2 ops. subscribeSince 0 2 b = ((''cd'', 0, CancelSub 0 False), b1) \<and>
     bop_run ops b1 = Some b2 \<and> accepted ops b1 = ''efgh'' \<and>
     take 2 ''abcd'' @ ''cd'' @ received 0 ops b1 @ queued 0 b2 = ''abcd'' @ accepted ops b1"
proof -
  define b where "b = \<lparr>ringCap = 4, chanCap = 2, dropCnt = 0, totalWritten = 4, ring = ''abcd'', subs = [],
       subNext = 0, closed = False, chans = []\<rparr>"
  define ops where "ops = [OpWrite ''ef'', OpSubscribe 1 0, OpRecv 0, OpWrite ''gh'', OpClose, OpWrite ''zz'']"
  define b1 where "b1 = add_sub 2 b"
  have sub: "subscribeSince 0 (int 2) b = ((''cd'', 0, CancelSub 0 False), b1)"
    by (simp add: b_def b1_def subscribeSince_open computeReplay_def)
  have "map_option (\<lambda>b2. (queued 0 b2, dropCnt b2)) (bop_run ops b1) = Some (''gh'', dropCnt b)"
    unfolding b1_def b_def ops_def by code_simp
  then obtain b2 where run: "bop_run ops b1 = Some b2"
    and q: "queued 0 b2 = ''gh''" "dropCnt b2 = dropCnt b"
    by auto
  have ev: "accepted ops b1 = ''efgh''"
    unfolding b1_def b_def ops_def by code_simp
  have wf: "broker_wf b" "\<not> closed b" "holds_log b ''abcd''"
    by (simp_all add: b_def broker_wf_def live_chans_def holds_log_def lastn_def)
  have "take 2 ''abcd'' @ ''cd'' @ received 0 ops b1 @ queued 0 b2 = ''abcd'' @ accepted ops b1"
    by (rule attach_resume_no_gap_no_dup[OF wf _ _ sub run _ q(2)]) (simp_all add: b_def ops_def)
  then show ?thesis
    using sub run ev by (intro exI[of _ b] exI[of _ b1] exI[of _ b2] exI[of _ ops]) simp
qed

text \<open>C4.
  A slow subscriber never blocks or disturbs anyone: a write to an open broker
  always succeeds with the full length; each registered channel with room gets
  the chunk appended, a full one is left as it is, no other channel changes, and
  \<open>dropCnt\<close> grows by the chunk's length once per full channel.\<close>

theorem attach_write_isolates_slow_subscribers:
  assumes "broker_wf b" "\<not> closed b" "p \<noteq> []"
  shows "\<exists>b'. brokerWrite p b = Some ((int (length p), None), b') \<and>
     subs b' = subs b \<and> length (chans b') = length (chans b) \<and>
     (\<forall>r. r < length (chans b) \<longrightarrow>
        chQueue (chans b' ! r) =
          chQueue (chans b ! r) @ (if r \<in> live_chans b \<and> \<not> chan_full (chans b ! r) then [p] else [])) \<and>
     dropCnt b' = dropCnt b + int (length p) * int (card {r \<in> live_chans b. chan_full (chans b ! r)})"
proof -
  have "length (filter (\<lambda>q. chan_full (chans b ! snd q)) (subs b)) =
      card (snd ` set (filter (\<lambda>q. chan_full (chans b ! snd q)) (subs b)))"
    using broker_wfD(7)[OF assms(1)]
    by (metis distinct_card distinct_map_filter length_map list.set_map)
  also have "snd ` set (filter (\<lambda>q. chan_full (chans b ! snd q)) (subs b)) =
      {r \<in> live_chans b. chan_full (chans b ! r)}"
    by (auto simp: live_chans_def)
  finally show ?thesis
    using brokerWrite_open[OF assms]
    by (intro exI[of _ "after_write p b"]) (auto simp: offer_def after_write_def)
qed

theorem attach_write_isolates_slow_subscribers_witness:
  "\<exists>b'. brokerWrite ''ab'' (newAttachBroker 4 1) = Some ((2, None), b') \<and> subs b' = []"
  using attach_write_isolates_slow_subscribers[OF newAttachBroker_wf, of 4 1 "''ab''"]
  by (auto simp: newAttachBroker_def)

text \<open>C5.
  Closing is final and clean: after close every channel the broker ever made is
  closed with its queue intact (subscribers drain and see EOF), a further close
  changes nothing, a further write returns \<open>io.ErrClosedPipe\<close> and changes
  nothing, and a late subscriber gets the replay and an already closed channel.\<close>

theorem attach_close_drains:
  assumes "broker_wf b"
  shows "\<exists>b'. closeBroker b = Some b' \<and> closeBroker b' = Some b' \<and>
     ring b' = ring b \<and> length (chans b') = length (chans b) \<and>
     (\<forall>r < length (chans b). chClosed (chans b' ! r) \<and> chQueue (chans b' ! r) = chQueue (chans b ! r)) \<and>
     (\<forall>p. p \<noteq> [] \<longrightarrow> brokerWrite p b' = Some ((0, Some ErrClosedPipe), b')) \<and>
     (\<forall>depth n. \<exists>r b''. subscribeSince depth n b' =
        ((computeReplay (ring b) (totalWritten b) n, r, CancelNop), b'') \<and>
        chClosed (chans b'' ! r) \<and> chQueue (chans b'' ! r) = [])"
proof -
  let ?b = "after_close b"
  have closed_all: "chClosed (chans ?b ! r) \<and> chQueue (chans ?b ! r) = chQueue (chans b ! r)"
    if "r < length (chans b)" for r
    using that broker_wfD(10,11)[OF assms] by (auto simp: after_close_def live_chans_def)
  have sub: "\<exists>r b''. subscribeSince depth n ?b =
        ((computeReplay (ring b) (totalWritten b) n, r, CancelNop), b'') \<and>
        chClosed (chans b'' ! r) \<and> chQueue (chans b'' ! r) = []" for depth n
    using closed_all by (simp add: subscribeSince_closed nth_append)
  show ?thesis
    using closed_all sub closeBroker_wf_form[OF assms] closeBroker_wf_form[OF after_close_wf[OF assms]]
    by (intro exI[of _ ?b]) (simp add: brokerWrite_closed after_close_def)
qed

theorem attach_close_drains_witness:
  "\<exists>b'. closeBroker (snd (subscribe 1 (newAttachBroker 4 1))) = Some b' \<and> length (chans b') = 1"
proof -
  have "broker_wf (snd (subscribe 1 (newAttachBroker 4 1)))"
    unfolding subscribe_def by (intro subscribeSince_wf newAttachBroker_wf)
  from attach_close_drains[OF this] show ?thesis
    by (auto simp: subscribe_def subscribeSince_def newAttachBroker_def Let_def)
qed

end
