(* ===== verification/Go_Strings.thy ===== *)
theory Go_Strings imports Prelude begin

text \<open>
  The parts of Go's \<open>strings\<close>, \<open>strconv\<close> and \<open>unicode/utf8\<close> packages that the
  library uses, on byte strings: decimal printing (\<open>%d\<close>), prefix and suffix
  tests, \<open>strings.Index\<close>, \<open>strings.ReplaceAll\<close>, \<open>strings.TrimRight\<close>,
  \<open>strings.Fields\<close>, \<open>strings.Map\<close> and the rune decoder behind the last two.
\<close>

section \<open>Decimal printing\<close>

definition digit_char :: "nat \<Rightarrow> char" where
  "digit_char d = char_of (48 + d mod 10)"

fun dec_nat :: "nat \<Rightarrow> string" where
  "dec_nat n = (if n < 10 then [digit_char n] else dec_nat (n div 10) @ [digit_char (n mod 10)])"

declare dec_nat.simps [simp del]

definition dec_int :: "int \<Rightarrow> string" where
  "dec_int i = (if i < 0 then CHR ''-'' # dec_nat (nat (- i)) else dec_nat (nat i))"

lemma dec_nat_less: "n < 10 \<Longrightarrow> dec_nat n = [digit_char n]"
  by (subst dec_nat.simps) simp

lemma dec_nat_ge: "10 \<le> n \<Longrightarrow> dec_nat n = dec_nat (n div 10) @ [digit_char (n mod 10)]"
  by (subst dec_nat.simps) simp

lemma dec_nat_not_Nil [simp]: "dec_nat n \<noteq> []"
  by (subst dec_nat.simps) simp

lemma length_dec_nat: "n < 10 ^ k \<Longrightarrow> 0 < k \<Longrightarrow> length (dec_nat n) \<le> k"
proof (induction k arbitrary: n)
  case (Suc k)
  show ?case
  proof (cases "n < 10")
    case True
    then show ?thesis by (simp add: dec_nat_less)
  next
    case False
    with Suc.prems have "n div 10 < 10 ^ k" "0 < k"
      by (auto simp: less_mult_imp_div_less mult.commute intro: Nat.gr0I)
    with Suc.IH have "length (dec_nat (n div 10)) \<le> k" by blast
    with False show ?thesis by (simp add: dec_nat_ge)
  qed
qed simp

section \<open>Prefixes, suffixes, searching\<close>

fun has_prefix :: "string \<Rightarrow> string \<Rightarrow> bool" where
  "has_prefix s [] = True"
| "has_prefix [] (c # cs) = False"
| "has_prefix (x # xs) (c # cs) = (x = c \<and> has_prefix xs cs)"

lemma has_prefix_iff: "has_prefix s p \<longleftrightarrow> (\<exists>t. s = p @ t)"
  by (induction s p rule: has_prefix.induct) auto

definition has_suffix :: "string \<Rightarrow> string \<Rightarrow> bool" where
  "has_suffix s p = has_prefix (rev s) (rev p)"

lemma has_suffix_iff: "has_suffix s p \<longleftrightarrow> (\<exists>t. s = t @ p)"
proof -
  have "(\<exists>t. rev s = rev p @ t) \<longleftrightarrow> (\<exists>t. s = t @ p)"
    by (metis rev_append rev_rev_ident)
  then show ?thesis by (simp add: has_suffix_def has_prefix_iff)
qed

definition trim_prefix :: "string \<Rightarrow> string \<Rightarrow> string" where
  "trim_prefix s p = (if has_prefix s p then drop (length p) s else s)"

text \<open>\<open>strings.Index(s, sub)\<close>: the first position, None for -1.\<close>

fun str_index :: "string \<Rightarrow> string \<Rightarrow> nat option" where
  "str_index [] sub = (if sub = [] then Some 0 else None)"
| "str_index (c # cs) sub =
     (if has_prefix (c # cs) sub then Some 0 else map_option Suc (str_index cs sub))"

text \<open>\<open>strings.TrimRight(s, cutset)\<close> for a cutset of single-byte characters.\<close>

definition trim_right :: "string \<Rightarrow> char list \<Rightarrow> string" where
  "trim_right s cutset = rev (dropWhile (\<lambda>c. c \<in> set cutset) (rev s))"

text \<open>
  \<open>strings.ReplaceAll(s, old, new)\<close> with a non-empty \<open>old\<close>: left to right,
  non-overlapping.
\<close>

function replace_all :: "string \<Rightarrow> string \<Rightarrow> string \<Rightarrow> string" where
  "replace_all s old new =
     (if s = [] \<or> old = [] then s
      else if has_prefix s old then new @ replace_all (drop (length old) s) old new
      else hd s # replace_all (tl s) old new)"
  by pat_completeness auto
termination
  by (relation "measure (\<lambda>(s, old, new). length s)") auto

declare replace_all.simps [simp del]

lemma replace_all_Nil [simp]: "replace_all [] old new = []"
  by (simp add: replace_all.simps)

section \<open>Runes\<close>

text \<open>
  \<open>utf8.DecodeRuneInString\<close> on a non-empty string: the code point and its width
  in bytes, or the replacement character U+FFFD with width 1 where the bytes are
  not valid UTF-8.  \<open>utf8_second\<close> gives the range of the second byte after a
  lead byte (shorter for E0, ED, F0 and F4), \<open>utf8_len\<close> the number of bytes the
  lead byte announces.
\<close>

definition utf8_len :: "nat \<Rightarrow> nat" where
  "utf8_len b =
     (if b < 128 then 1 else if b < 194 then 0 else if b < 224 then 2
      else if b < 240 then 3 else if b < 245 then 4 else 0)"

definition utf8_second :: "nat \<Rightarrow> nat \<Rightarrow> bool" where
  "utf8_second b c =
     ((if b = 224 then 160 else if b = 240 then 144 else 128) \<le> c \<and>
      c \<le> (if b = 237 then 159 else if b = 244 then 143 else 191))"

definition utf8_cont :: "nat \<Rightarrow> bool" where
  "utf8_cont c = (128 \<le> c \<and> c \<le> 191)"

definition rune_error :: nat where "rune_error = 65533"

fun decode_rune :: "string \<Rightarrow> nat \<times> nat" where
  "decode_rune [] = (rune_error, 0)"
| "decode_rune (c # cs) =
     (let b = of_char c; bs = map of_char cs in
      if utf8_len b = 1 then (b, 1)
      else if utf8_len b = 2 then
        (case bs of
           b1 # _ \<Rightarrow> if utf8_second b b1 then ((b mod 32) * 64 + b1 mod 64, 2) else (rune_error, 1)
         | [] \<Rightarrow> (rune_error, 1))
      else if utf8_len b = 3 then
        (case bs of
           b1 # b2 # _ \<Rightarrow>
             if utf8_second b b1 \<and> utf8_cont b2
             then ((b mod 16) * 4096 + (b1 mod 64) * 64 + b2 mod 64, 3) else (rune_error, 1)
         | _ \<Rightarrow> (rune_error, 1))
      else if utf8_len b = 4 then
        (case bs of
           b1 # b2 # b3 # _ \<Rightarrow>
             if utf8_second b b1 \<and> utf8_cont b2 \<and> utf8_cont b3
             then ((b mod 8) * 262144 + (b1 mod 64) * 4096 + (b2 mod 64) * 64 + b3 mod 64, 4)
             else (rune_error, 1)
         | _ \<Rightarrow> (rune_error, 1))
      else (rune_error, 1))"

lemma decode_rune_width_pos: "s \<noteq> [] \<Longrightarrow> 0 < snd (decode_rune s)"
  by (cases s) (auto simp: Let_def split: list.splits)

lemma decode_rune_ascii: "of_char c < (128::nat) \<Longrightarrow> decode_rune (c # cs) = (of_char c, 1)"
  by (simp add: utf8_len_def Let_def)

text \<open>The runes of a string, as \<open>for _, r := range s\<close> visits them.\<close>

function runes :: "string \<Rightarrow> (nat \<times> string) list" where
  "runes s =
     (if s = [] then []
      else let d = decode_rune s in (fst d, take (snd d) s) # runes (drop (snd d) s))"
  by pat_completeness auto
termination
  by (relation "measure length")
     (auto simp del: decode_rune.simps intro!: diff_less decode_rune_width_pos)

declare runes.simps [simp del]

lemma runes_Nil [simp]: "runes [] = []"
  by (simp add: runes.simps)

text \<open>
  \<open>strings.Map(f, s)\<close> for an \<open>f\<close> that returns either its argument or a single
  ASCII character: a kept rune is copied (an invalid byte becomes the encoding of
  U+FFFD, three bytes), a replaced one is that character.
\<close>

definition rune_keep :: "nat \<times> string \<Rightarrow> string" where
  "rune_keep p = (if fst p = rune_error then map char_of [239, 191, 189 :: nat] else snd p)"

definition str_map :: "(nat \<Rightarrow> char option) \<Rightarrow> string \<Rightarrow> string" where
  "str_map f s = concat (map (\<lambda>p. case f (fst p) of None \<Rightarrow> rune_keep p | Some c \<Rightarrow> [c]) (runes s))"

text \<open>\<open>unicode.IsSpace\<close> and \<open>strings.Fields\<close>.\<close>

definition is_space :: "nat \<Rightarrow> bool" where
  "is_space r \<longleftrightarrow> r \<in> set ([9, 10, 11, 12, 13, 32, 133, 160, 5760] @ [8192..<8203] @ [8232, 8233, 8239, 8287, 12288])"

fun fields_loop :: "(nat \<times> string) list \<Rightarrow> string \<Rightarrow> string list" where
  "fields_loop [] acc = (if acc = [] then [] else [acc])"
| "fields_loop ((r, b) # rs) acc =
     (if is_space r then (if acc = [] then fields_loop rs [] else acc # fields_loop rs [])
      else fields_loop rs (acc @ b))"

definition str_fields :: "string \<Rightarrow> string list" where
  "str_fields s = fields_loop (runes s) []"

text \<open>
  The verb \<open>%q\<close> (\<open>strconv.Quote\<close>): quotes, backslashes and control characters are
  escaped, a byte that is not part of a rune in hexadecimal.  Runes beyond ASCII are
  copied, as the printable ones are.
\<close>

definition hex_digit :: "nat \<Rightarrow> char" where
  "hex_digit d = (if d < 10 then char_of (48 + d) else char_of (87 + d))"

definition hex_escape :: "nat \<Rightarrow> string" where
  "hex_escape n = CHR 0x5C # CHR ''x'' # [hex_digit (n div 16 mod 16), hex_digit (n mod 16)]"

definition quote_rune :: "nat \<times> string \<Rightarrow> string" where
  "quote_rune p =
     (let r = fst p in
      if r = rune_error \<and> length (snd p) = 1 then hex_escape (of_char (hd (snd p)))
      else if r = 34 \<or> r = 92 then CHR 0x5C # snd p
      else if 32 \<le> r \<and> r \<noteq> 127 then snd p
      else (case map_of [(7, CHR ''a''), (8, CHR ''b''), (9, CHR ''t''), (10, CHR ''n''), (11, CHR ''v''),
                         (12, CHR ''f''), (13, CHR ''r'')] r of
              Some c \<Rightarrow> [CHR 0x5C, c]
            | None \<Rightarrow> hex_escape r))"

definition go_quote :: "string \<Rightarrow> string" where
  "go_quote s = CHR 0x22 # concat (map quote_rune (runes s)) @ [CHR 0x22]"

end
