(* ===== verification/Supervision.thy ===== *)
theory Supervision imports Go_Errors Go_Strings begin

text \<open>
  Supervision of a long-lived child (\<open>supervision.go\<close> and the supervisor loops
  of the session files): exit classification, restart backoff, the activity
  tracker, the first-wins cause and the idle and watchdog tickers.

  \<open>time.Duration\<close> is a signed 64-bit count of nanoseconds: \<open>duration\<close>, read by
  \<open>sint\<close>.  Points in time are integers (nanoseconds).
\<close>

type_synonym duration = "64 word"

definition second :: int where "second = 1000000000"
definition millisecond :: int where "millisecond = 1000000"

section \<open>Options and limits\<close>

record supervisor_options =
  IdleKill :: int
  RestartOnCrash :: int
  MaxRestartBackoff :: duration
  WatchdogTimeout :: int
  ActivityCallback :: bool
  OnRestart :: bool

record resource_limits =
  CPUTime :: int
  MemoryMax :: "64 word"
  MaxOpenFiles :: "64 word"
  MaxProcesses :: "64 word"
  MaxFileSize :: "64 word"

definition limitsIsZero :: "resource_limits \<Rightarrow> bool" where
  "limitsIsZero r \<longleftrightarrow>
     CPUTime r = 0 \<and> MemoryMax r = 0 \<and> MaxOpenFiles r = 0 \<and> MaxProcesses r = 0 \<and> MaxFileSize r = 0"

definition CauseIdleTimeout :: string where "CauseIdleTimeout = ''idle_timeout''"
definition CauseWatchdogKill :: string where "CauseWatchdogKill = ''watchdog_kill''"
definition CauseRestartExhausted :: string where "CauseRestartExhausted = ''restart_exhausted''"
definition CauseOOMKill :: string where "CauseOOMKill = ''oom_kill''"
definition CauseResourceLimit :: string where "CauseResourceLimit = ''resource_limit''"

lemmas cause_defs = CauseIdleTimeout_def CauseWatchdogKill_def CauseRestartExhausted_def
  CauseOOMKill_def CauseResourceLimit_def

section \<open>Exit errors\<close>

definition SIGKILL :: int where "SIGKILL = 9"
definition SIGTERM :: int where "SIGTERM = 15"

fun exitErrorText :: "exit_error option \<Rightarrow> string" where
  "exitErrorText None = ''<nil>''"
| "exitErrorText (Some (ExitError code sig killed ps cause w)) =
     (if cause \<noteq> '''' then
        ''agentsessions: process terminated (cause='' @ cause @ '', signal='' @ dec_int sig @
        '', code='' @ dec_int code @ '')''
      else if sig \<noteq> 0 then ''agentsessions: process terminated by signal '' @ dec_int sig
      else ''agentsessions: process exited '' @ dec_int code)"

definition buildExitError :: "process_state option \<Rightarrow> go_error option \<Rightarrow> string \<Rightarrow> exit_error option" where
  "buildExitError ps waitErr cause =
     (if waitErr = None \<and> cause = '''' then None
      else
        let code0 = (case ps of None \<Rightarrow> -1 | Some p \<Rightarrow> psExitCode p);
            sig = (case ps of Some (Signaled s) \<Rightarrow> s | _ \<Rightarrow> 0);
            killed = (case ps of Some (Signaled s) \<Rightarrow> s = SIGKILL | _ \<Rightarrow> False);
            code = (if code0 = -1 then
                      (case as_exec_exit_opt waitErr of Some ee \<Rightarrow> psExitCode ee | None \<Rightarrow> code0)
                    else code0)
        in Some (ExitError code sig killed ps cause waitErr))"

definition restartEligible :: "exit_error option \<Rightarrow> bool" where
  "restartEligible xe =
     (case xe of None \<Rightarrow> False
      | Some e \<Rightarrow> if xeCause e \<noteq> '''' then False else xeCode e \<noteq> 0 \<or> xeSignal e \<noteq> 0)"

definition with_cause :: "string \<Rightarrow> exit_error \<Rightarrow> exit_error" where
  "with_cause c e = (case e of ExitError code sig killed ps _ w \<Rightarrow> ExitError code sig killed ps c w)"

lemma with_cause_sel [simp]:
  "xeCause (with_cause c e) = c" "xeCode (with_cause c e) = xeCode e"
  "xeSignal (with_cause c e) = xeSignal e" "xeWaitErr (with_cause c e) = xeWaitErr e"
  by (cases e; simp add: with_cause_def)+

section \<open>Backoff\<close>

definition computeRestartBackoff :: "64 word \<Rightarrow> duration \<Rightarrow> duration" where
  "computeRestartBackoff attempt maxBackoff =
     (let maxBackoff = (if sint maxBackoff \<le> 0 then 30 * word_of_int second else maxBackoff);
          attempt = (if sint attempt < 1 then 1 else attempt)
      in if sint attempt > 30 then maxBackoff
         else let base = push_bit (unat (attempt - 1)) 1 * word_of_int second
              in if sint base > sint maxBackoff then maxBackoff else base)"

section \<open>Activity tracker and cause\<close>

record activity_tracker =
  atLast :: int

definition tick :: "int \<Rightarrow> activity_tracker \<Rightarrow> activity_tracker" where
  "tick now a = a\<lparr>atLast := now\<rparr>"

definition idleSince :: "activity_tracker \<Rightarrow> int \<Rightarrow> int \<Rightarrow> int" where
  "idleSince a start now = (if atLast a = 0 then now - start else now - atLast a)"

record sup_state =
  supCause :: string

definition trySetCause :: "string \<Rightarrow> sup_state \<Rightarrow> bool \<times> sup_state" where
  "trySetCause c s = (if supCause s \<noteq> '''' then (False, s) else (True, s\<lparr>supCause := c\<rparr>))"

definition getCause :: "sup_state \<Rightarrow> string" where
  "getCause s = supCause s"

text \<open>
  \<open>killWithGrace\<close>: the signals it sends, given whether the command has a process
  and whether \<open>procDone\<close> fires within the grace period.
\<close>

definition killWithGrace :: "bool \<Rightarrow> bool \<Rightarrow> int list" where
  "killWithGrace has_process done_in_grace =
     (if \<not> has_process then []
      else if done_in_grace then [SIGTERM] else [SIGTERM, SIGKILL])"

section \<open>The tickers\<close>

text \<open>The polling interval of both supervisor goroutines (Go division truncates).\<close>

definition superviseInterval :: "int \<Rightarrow> int" where
  "superviseInterval threshold =
     (let t = sgn threshold * (\<bar>threshold\<bar> div 4) in if t < 100 * millisecond then 100 * millisecond else t)"

datatype sup_decision = SupContinue | SupReturn | SupKillGrace | SupKillNow

definition superviseIdle_tick ::
  "int \<Rightarrow> int \<Rightarrow> activity_tracker \<Rightarrow> int \<Rightarrow> sup_state \<Rightarrow> sup_decision \<times> sup_state" where
  "superviseIdle_tick threshold startedAt a now s =
     (if idleSince a startedAt now < threshold then (SupContinue, s)
      else case trySetCause CauseIdleTimeout s of
             (False, s') \<Rightarrow> (SupReturn, s')
           | (True, s') \<Rightarrow> (SupKillGrace, s'))"

definition superviseWatchdog_tick ::
  "int \<Rightarrow> int \<Rightarrow> activity_tracker \<Rightarrow> int \<Rightarrow> sup_state \<Rightarrow> sup_decision \<times> sup_state" where
  "superviseWatchdog_tick threshold startedAt a now s =
     (if idleSince a startedAt now < threshold then (SupContinue, s)
      else case trySetCause CauseWatchdogKill s of
             (False, s') \<Rightarrow> (SupReturn, s')
           | (True, s') \<Rightarrow> (SupKillNow, s'))"

text \<open>
  The two goroutines of one attempt and the activity they share, as one machine
  over the interleaving of their events: a tick of either timer, an activity
  tick of the reader or of \<open>SendInput\<close>, the end of the grace period of an idle
  kill, and the exit of the process (\<open>procDone\<close>), after which both return.
\<close>

datatype sup_event = IdleTick int | WatchTick int | Activity int | GraceOver | ProcDone

datatype idle_phase = IdlePolling | IdleInGrace | IdleReturned

record attempt_sup =
  asTracker :: activity_tracker
  asCause :: sup_state
  asIdle :: idle_phase
  asWatch :: bool
  asSignals :: "int list"
  asDone :: bool

definition attempt_start :: "int \<Rightarrow> supervisor_options \<Rightarrow> attempt_sup" where
  "attempt_start startedAt so =
     \<lparr>asTracker = \<lparr>atLast = startedAt\<rparr>, asCause = \<lparr>supCause = ''''\<rparr>,
      asIdle = (if IdleKill so > 0 then IdlePolling else IdleReturned),
      asWatch = (WatchdogTimeout so > 0), asSignals = [], asDone = False\<rparr>"

fun sup_step :: "supervisor_options \<Rightarrow> int \<Rightarrow> sup_event \<Rightarrow> attempt_sup \<Rightarrow> attempt_sup" where
  "sup_step so startedAt (Activity now) st = st\<lparr>asTracker := tick now (asTracker st)\<rparr>"
| "sup_step so startedAt ProcDone st = st\<lparr>asDone := True, asIdle := IdleReturned, asWatch := False\<rparr>"
| "sup_step so startedAt GraceOver st =
     (if asIdle st = IdleInGrace \<and> \<not> asDone st
      then st\<lparr>asIdle := IdleReturned, asSignals := asSignals st @ [SIGKILL]\<rparr> else st)"
| "sup_step so startedAt (IdleTick now) st =
     (if asIdle st \<noteq> IdlePolling \<or> asDone st then st
      else case superviseIdle_tick (IdleKill so) startedAt (asTracker st) now (asCause st) of
             (SupContinue, c) \<Rightarrow> st\<lparr>asCause := c\<rparr>
           | (SupKillGrace, c) \<Rightarrow>
               st\<lparr>asCause := c, asIdle := IdleInGrace, asSignals := asSignals st @ [SIGTERM]\<rparr>
           | (_, c) \<Rightarrow> st\<lparr>asCause := c, asIdle := IdleReturned\<rparr>)"
| "sup_step so startedAt (WatchTick now) st =
     (if \<not> asWatch st \<or> asDone st then st
      else case superviseWatchdog_tick (WatchdogTimeout so) startedAt (asTracker st) now (asCause st) of
             (SupContinue, c) \<Rightarrow> st\<lparr>asCause := c\<rparr>
           | (SupKillNow, c) \<Rightarrow> st\<lparr>asCause := c, asWatch := False, asSignals := asSignals st @ [SIGKILL]\<rparr>
           | (_, c) \<Rightarrow> st\<lparr>asCause := c, asWatch := False\<rparr>)"

fun sup_run :: "supervisor_options \<Rightarrow> int \<Rightarrow> sup_event list \<Rightarrow> attempt_sup \<Rightarrow> attempt_sup" where
  "sup_run so startedAt [] st = st"
| "sup_run so startedAt (e # es) st = sup_run so startedAt es (sup_step so startedAt e st)"

section \<open>Backoff arithmetic\<close>

lemma sint_of_int_fits:
  "- (2 ^ 63) \<le> i \<Longrightarrow> i < 2 ^ 63 \<Longrightarrow> sint (word_of_int i :: 64 word) = i"
  by (simp add: sint_sbintrunc' signed_take_bit_int_eq_self_iff)

lemma sint_shift_second:
  assumes "k < 30"
  shows "sint (push_bit k 1 * word_of_int second :: 64 word) = 2 ^ k * second"
proof -
  have "(2::int) ^ k < 2 ^ 30" using assms by (intro power_strict_increasing) auto
  then have b: "2 ^ k * second < 2 ^ 63" "- (2 ^ 63) \<le> 2 ^ k * second"
    by (auto simp: second_def intro: order_trans[of _ 0])
  have "push_bit k 1 * word_of_int second = (word_of_int (2 ^ k * second) :: 64 word)"
    by (simp add: push_bit_eq_mult)
  then show ?thesis using sint_of_int_fits[OF b(2) b(1)] by simp
qed

lemma sint_thirty_seconds: "sint (30 * word_of_int second :: 64 word) = 30 * second"
proof -
  have "(30 * word_of_int second :: 64 word) = word_of_int (30 * second)" by simp
  then show ?thesis using sint_of_int_fits[of "30 * second"] by (simp add: second_def)
qed

lemma unat_pred_of_sint:
  assumes "1 \<le> sint (a :: 64 word)"
  shows "unat (a - 1) = nat (sint a - 1)"
proof -
  let ?i = "sint a - 1"
  have b: "0 \<le> ?i" "?i < 2 ^ 64" using assms sint_lt[of a] by simp_all
  have "a - 1 = word_of_int ?i" by simp
  then have "unat (a - 1) = nat (take_bit 64 ?i)" by (simp only: unat_eq_nat_uint uint_word_of_int_eq) simp
  then show ?thesis using take_bit_int_eq_self[OF b] by simp
qed

definition backoff_cap :: "duration \<Rightarrow> int" where
  "backoff_cap m = (if sint m \<le> 0 then 30 * second else sint m)"

lemma backoff_cap_pos: "0 < backoff_cap m"
  by (simp add: backoff_cap_def second_def)

lemma sint_backoff:
  "sint (computeRestartBackoff a m) =
     (if sint a > 30 then backoff_cap m else min (2 ^ nat (sint a - 1) * second) (backoff_cap m))"
proof -
  consider "sint a < 1" | "1 \<le> sint a" "sint a \<le> 30" | "sint a > 30" by linarith
  then show ?thesis
  proof cases
    case 1
    then show ?thesis
      using sint_shift_second[of 0]
      by (simp add: computeRestartBackoff_def Let_def backoff_cap_def sint_thirty_seconds min_def)
  next
    case 2
    then have "nat (sint a - 1) < 30" by linarith
    from sint_shift_second[OF this] 2 show ?thesis
      by (simp add: computeRestartBackoff_def Let_def backoff_cap_def sint_thirty_seconds
          unat_pred_of_sint min_def)
  next
    case 3
    then show ?thesis
      by (simp add: computeRestartBackoff_def Let_def backoff_cap_def sint_thirty_seconds)
  qed
qed

text \<open>C4.
  The restart backoff, computed in 64-bit arithmetic: for every attempt number
  and every configured cap it is the attempt's power of two of seconds cut at
  the cap (30 s when the cap is not positive); it never overflows, so it is
  positive and at most the cap, and it never decreases from one attempt to a
  later one.
\<close>

theorem restart_backoff_bounds:
  "sint (computeRestartBackoff a m) =
     (if sint a > 30 then backoff_cap m else min (2 ^ nat (sint a - 1) * second) (backoff_cap m)) \<and>
   0 < sint (computeRestartBackoff a m) \<and> sint (computeRestartBackoff a m) \<le> backoff_cap m \<and>
   sint (computeRestartBackoff a m) \<le> sint (computeRestartBackoff (if a <s b then b else a) m)"
proof -
  have pos: "0 < 2 ^ n * second" for n by (simp add: second_def)
  have mono: "2 ^ nat (sint a - 1) * second \<le> 2 ^ nat (sint b - 1) * second" if "sint a < sint b"
    using that by (intro mult_right_mono power_increasing) (auto simp: second_def)
  show ?thesis
    using pos[of "nat (sint a - 1)"] backoff_cap_pos[of m] mono
    by (auto simp: sint_backoff min_def word_sless_alt)
qed

section \<open>Classification\<close>

definition valid_ps :: "process_state \<Rightarrow> bool" where
  "valid_ps ps = (case ps of Exited c \<Rightarrow> 0 \<le> c | Signaled s \<Rightarrow> 0 < s)"

text \<open>C7.
  Which exits are restarted: the exit of a process with state \<open>ps\<close> (exit codes
  are not negative, signal numbers positive) is restart eligible exactly if
  \<open>cmd.Wait\<close> reported an error, no supervisor cause was recorded, and the process
  exited with a non-zero code or died of a signal.  A clean exit builds no
  \<open>ExitError\<close> at all; otherwise its code, signal, kill flag and cause are those
  of the process and of the supervisor.
\<close>

theorem exit_classification:
  assumes "valid_ps ps"
  shows "(restartEligible (buildExitError (Some ps) e cause) \<longleftrightarrow>
            cause = '''' \<and> e \<noteq> None \<and> ps \<noteq> Exited 0) \<and>
         (buildExitError (Some ps) e cause = None \<longleftrightarrow> e = None \<and> cause = '''') \<and>
         (\<forall>xe. buildExitError (Some ps) e cause = Some xe \<longrightarrow>
            xeCause xe = cause \<and> xeWaitErr xe = e \<and>
            (case ps of Exited k \<Rightarrow> xeCode xe = k \<and> xeSignal xe = 0 \<and> \<not> xeKilled xe
             | Signaled s \<Rightarrow> xeSignal xe = s \<and> (xeKilled xe \<longleftrightarrow> s = SIGKILL)))"
  using assms
  by (cases ps) (auto simp: valid_ps_def restartEligible_def buildExitError_def Let_def)

lemma exit_classification_witness:
  "restartEligible (buildExitError (Some (Exited 3)) (Some (AsExecExitError (Exited 3))) '''') \<and>
   \<not> restartEligible (buildExitError (Some (Signaled 9)) (Some (AsExecExitError (Signaled 9))) CauseWatchdogKill)"
  using exit_classification[of "Exited 3" "Some (AsExecExitError (Exited 3))" "[]"]
    exit_classification[of "Signaled 9" "Some (AsExecExitError (Signaled 9))" CauseWatchdogKill]
  by (simp add: valid_ps_def CauseWatchdogKill_def)

section \<open>One attempt under supervision\<close>

text \<open>
  What the two tickers are for, without their state: the first tick of an enabled
  timer that finds the child idle for the timer's threshold decides, unless the
  process is gone before.
\<close>

fun first_kill :: "supervisor_options \<Rightarrow> int \<Rightarrow> int \<Rightarrow> sup_event list \<Rightarrow> string" where
  "first_kill so t0 l [] = ''''"
| "first_kill so t0 l (ProcDone # es) = ''''"
| "first_kill so t0 l (GraceOver # es) = first_kill so t0 l es"
| "first_kill so t0 l (Activity now # es) = first_kill so t0 (if now = 0 then t0 else now) es"
| "first_kill so t0 l (IdleTick now # es) =
     (if 0 < IdleKill so \<and> IdleKill so \<le> now - l then CauseIdleTimeout else first_kill so t0 l es)"
| "first_kill so t0 l (WatchTick now # es) =
     (if 0 < WatchdogTimeout so \<and> WatchdogTimeout so \<le> now - l then CauseWatchdogKill
      else first_kill so t0 l es)"

definition sup_undecided :: "supervisor_options \<Rightarrow> attempt_sup \<Rightarrow> bool" where
  "sup_undecided so st \<longleftrightarrow>
     supCause (asCause st) = '''' \<and> asSignals st = [] \<and> \<not> asDone st \<and>
     asIdle st = (if IdleKill so > 0 then IdlePolling else IdleReturned) \<and>
     asWatch st = (WatchdogTimeout so > 0)"

definition sup_decided :: "string \<Rightarrow> attempt_sup \<Rightarrow> bool" where
  "sup_decided c st \<longleftrightarrow>
     supCause (asCause st) = c \<and>
     (c = '''' \<and> asDone st \<and> asSignals st = [] \<or>
      c = CauseIdleTimeout \<and> asIdle st \<noteq> IdlePolling \<and>
        (asSignals st = [SIGTERM] \<or> asSignals st = [SIGTERM, SIGKILL] \<and> asIdle st = IdleReturned) \<or>
      c = CauseWatchdogKill \<and> asIdle st \<noteq> IdleInGrace \<and> \<not> asWatch st \<and> asSignals st = [SIGKILL])"

lemma sup_decided_step: "sup_decided c st \<Longrightarrow> sup_decided c (sup_step so t0 e st)"
  by (cases e)
    (auto simp: sup_decided_def superviseIdle_tick_def superviseWatchdog_tick_def trySetCause_def
      cause_defs split: prod.splits sup_decision.splits if_splits)

lemma sup_decided_run: "sup_decided c st \<Longrightarrow> sup_decided c (sup_run so t0 es st)"
  by (induction es arbitrary: st) (auto simp: sup_decided_step)

definition last_of :: "int \<Rightarrow> attempt_sup \<Rightarrow> int" where
  "last_of t0 st = (if atLast (asTracker st) = 0 then t0 else atLast (asTracker st))"

lemma idleSince_last_of: "idleSince (asTracker st) t0 now = now - last_of t0 st"
  by (simp add: idleSince_def last_of_def)

lemma sup_undecided_run:
  "sup_undecided so st \<Longrightarrow>
     (first_kill so t0 (last_of t0 st) es = '''' \<and> sup_undecided so (sup_run so t0 es st)) \<or>
     sup_decided (first_kill so t0 (last_of t0 st) es) (sup_run so t0 es st)"
proof (induction es arbitrary: st)
  case Nil
  then show ?case by simp
next
  case (Cons e es)
  let ?st = "sup_step so t0 e st"
  have stay: ?case if "sup_undecided so ?st"
    "first_kill so t0 (last_of t0 st) (e # es) = first_kill so t0 (last_of t0 ?st) es"
    using Cons.IH[OF that(1)] that(2) by simp
  have decide: ?case if "sup_decided (first_kill so t0 (last_of t0 st) (e # es)) ?st"
    using sup_decided_run[OF that, of so t0 es] by simp
  show ?case
  proof (cases e)
    case (IdleTick now)
    show ?thesis
    proof (cases "0 < IdleKill so \<and> IdleKill so \<le> now - last_of t0 st")
      case True
      then show ?thesis
        using Cons.prems IdleTick
        by (intro decide) (auto simp: sup_undecided_def sup_decided_def superviseIdle_tick_def
            idleSince_last_of trySetCause_def)
    next
      case False
      then show ?thesis
        using Cons.prems IdleTick
        by (intro stay) (auto simp: sup_undecided_def superviseIdle_tick_def idleSince_last_of last_of_def)
    qed
  next
    case (WatchTick now)
    show ?thesis
    proof (cases "0 < WatchdogTimeout so \<and> WatchdogTimeout so \<le> now - last_of t0 st")
      case True
      then show ?thesis
        using Cons.prems WatchTick
        by (intro decide) (auto simp: sup_undecided_def sup_decided_def superviseWatchdog_tick_def
            idleSince_last_of trySetCause_def)
    next
      case False
      then show ?thesis
        using Cons.prems WatchTick
        by (intro stay) (auto simp: sup_undecided_def superviseWatchdog_tick_def idleSince_last_of last_of_def)
    qed
  next
    case (Activity now)
    then show ?thesis using Cons.prems
      by (intro stay) (auto simp: sup_undecided_def last_of_def tick_def)
  next
    case GraceOver
    then show ?thesis using Cons.prems
      by (intro stay) (auto simp: sup_undecided_def last_of_def)
  next
    case ProcDone
    then show ?thesis using Cons.prems
      by (intro decide) (auto simp: sup_undecided_def sup_decided_def)
  qed
qed

lemma attempt_start_undecided: "sup_undecided so (attempt_start t0 so)"
  by (simp add: sup_undecided_def attempt_start_def)

lemma last_of_attempt_start: "last_of t0 (attempt_start t0 so) = t0"
  by (simp add: last_of_def attempt_start_def)

text \<open>C5.
  Whatever the interleaving of the idle timer, the watchdog timer, the activity
  of the child, the end of the grace period and the exit of the process, the
  recorded cause is decided by the first tick that finds the child idle for its
  threshold, once and for all; and the signals sent are exactly that decision's:
  none without a cause, \<open>SIGTERM\<close> and at most one later \<open>SIGKILL\<close> for an idle
  kill, one \<open>SIGKILL\<close> for a watchdog kill.  So a child whose timers never find it
  idle is never signalled, and the two supervisors never both kill.
\<close>

theorem supervisor_first_decision_wins:
  "let st = sup_run so t0 es (attempt_start t0 so); c = first_kill so t0 t0 es
   in getCause (asCause st) = c \<and>
      (if c = CauseIdleTimeout then asSignals st \<in> {[SIGTERM], [SIGTERM, SIGKILL]}
       else if c = CauseWatchdogKill then asSignals st = [SIGKILL]
       else c = '''' \<and> asSignals st = [])"
  using sup_undecided_run[OF attempt_start_undecided, of so t0 t0 es]
  by (auto simp: Let_def last_of_attempt_start sup_undecided_def sup_decided_def getCause_def cause_defs)


text \<open>C7.
  Detection latency of the idle supervisor: if its timer fires at least every
  polling interval, the child is not idle at the first tick, and it stays silent
  (last activity at \<open>l\<close>) until some tick at which it has been idle for the
  threshold, then exactly one tick decides to kill: every earlier tick continues,
  and at that tick the idle time exceeds the threshold by less than the polling
  interval, which is a quarter of the threshold but at least 100 ms.
\<close>

theorem supervise_detection_latency:
  assumes "l \<noteq> 0" and "\<And>k. now (Suc k) - now k \<le> superviseInterval threshold"
    and "now 0 - l < threshold" and "threshold \<le> now n - l"
  shows "\<exists>k \<le> n.
     superviseIdle_tick threshold t0 \<lparr>atLast = l\<rparr> (now k) \<lparr>supCause = ''''\<rparr> =
       (SupKillGrace, \<lparr>supCause = CauseIdleTimeout\<rparr>) \<and>
     (\<forall>j < k. superviseIdle_tick threshold t0 \<lparr>atLast = l\<rparr> (now j) \<lparr>supCause = ''''\<rparr> =
       (SupContinue, \<lparr>supCause = ''''\<rparr>)) \<and>
     now k - l < threshold + superviseInterval threshold"
proof -
  define k where "k = (LEAST k. threshold \<le> now k - l)"
  have at: "threshold \<le> now k - l" using assms(4) unfolding k_def by (rule LeastI)
  have le: "k \<le> n" using assms(4) unfolding k_def by (rule Least_le)
  have before: "now j - l < threshold" if "j < k" for j
    using not_less_Least[OF that[unfolded k_def]] by simp
  obtain j where j: "k = Suc j" using at assms(3) by (cases k) auto
  have "now k - l < threshold + superviseInterval threshold"
    using assms(2)[of j] before[of j] j by simp
  then show ?thesis
    using at le before assms(1)
    by (intro exI[of _ k]) (auto simp: superviseIdle_tick_def idleSince_def trySetCause_def)
qed

lemma supervise_detection_latency_witness:
  "\<exists>k \<le> 3. superviseIdle_tick (3 * second) 0 \<lparr>atLast = second\<rparr> (int k * 750000000 + 2 * second) \<lparr>supCause = ''''\<rparr> =
       (SupKillGrace, \<lparr>supCause = CauseIdleTimeout\<rparr>)"
proof -
  have i: "superviseInterval (3 * second) = 750000000"
    by (simp add: superviseInterval_def second_def millisecond_def)
  show ?thesis
    using supervise_detection_latency[of second "\<lambda>k. int k * 750000000 + 2 * second" "3 * second" 3 0]
    unfolding i by (auto simp: second_def algebra_simps)
qed

end
