(* ===== verification/Session_Types.thy ===== *)
theory Session_Types imports Go_Errors Go_Strings Supervision begin

text \<open>
  The shared types of \<open>types.go\<close>: lifecycle states, live states, capabilities
  and their validation, health, the JSON-RPC error text and the start options.

  A callback or writer field of a Go struct that may be nil is a flag that tells
  whether it is set; what a call of it receives is in the trace of the model that
  calls it.
\<close>

section \<open>States\<close>

text \<open>\<open>StateCreated\<close> is the literal \<open>"created"\<close> the Manager emits as a \<open>From\<close>.\<close>

datatype sstate = StateCreated | StateLaunching | StateRunning | StateDone | StateFailed

fun stateText :: "sstate \<Rightarrow> string" where
  "stateText StateCreated = ''created''"
| "stateText StateLaunching = ''launching''"
| "stateText StateRunning = ''running''"
| "stateText StateDone = ''done''"
| "stateText StateFailed = ''failed''"

datatype live_state = LiveStateIdle | LiveStateProcessing | LiveStateStopped

fun liveStateText :: "live_state \<Rightarrow> string" where
  "liveStateText LiveStateIdle = ''idle''"
| "liveStateText LiveStateProcessing = ''processing''"
| "liveStateText LiveStateStopped = ''stopped''"

record health_status =
  hsAlive :: bool
  hsPID :: int
  hsState :: live_state
  hsTurnID :: string

section \<open>Capabilities\<close>

record capabilities =
  PTY :: bool
  StreamingStdio :: bool
  JsonRpcStdio :: bool
  ServeHTTP :: bool
  CapResize :: bool
  ProviderSessionID :: bool
  CheckpointResume :: bool
  BinaryRequired :: bool

definition lifecycleErr :: go_error where
  "lifecycleErr = ErrorsNew ''agentsessions: Capabilities declares more than one lifecycle flag (PTY / StreamingStdio / JsonRpcStdio / ServeHTTP); at most one may be true''"

definition validateLifecycle :: "capabilities \<Rightarrow> go_error option" where
  "validateLifecycle c =
     (let n = 0 :: int;
          n = (if PTY c then n + 1 else n);
          n = (if StreamingStdio c then n + 1 else n);
          n = (if JsonRpcStdio c then n + 1 else n);
          n = (if ServeHTTP c then n + 1 else n)
      in if n > 1 then Some lifecycleErr else None)"

definition lifecycle_flags :: "capabilities \<Rightarrow> bool list" where
  "lifecycle_flags c = [PTY c, StreamingStdio c, JsonRpcStdio c, ServeHTTP c]"

lemma validateLifecycle_iff:
  "validateLifecycle c = None \<longleftrightarrow> length (filter id (lifecycle_flags c)) \<le> 1"
  by (simp add: validateLifecycle_def lifecycle_flags_def Let_def)

section \<open>JSON-RPC error text\<close>

text \<open>
  The digit loop over a signed 64-bit code and a 20-byte buffer filled from its
  end: \<open>pos\<close> is the index, None an index out of range.  Inside the loop the code
  is positive, where Go's truncating division is the mathematical one.
\<close>

function digit_loop :: "64 word \<Rightarrow> nat \<Rightarrow> string \<Rightarrow> (nat \<times> string) option" where
  "digit_loop code pos buf =
     (if 0 < sint code then
        (if pos = 0 then None
         else digit_loop (word_of_int (sint code div 10)) (pos - 1)
                (digit_char (nat (sint code mod 10)) # buf))
      else Some (pos, buf))"
  by pat_completeness auto
termination
proof (relation "measure (\<lambda>(code, pos, buf). pos)")
qed auto

declare digit_loop.simps [simp del]

definition jsonRpcErrorString :: "64 word \<Rightarrow> string option" where
  "jsonRpcErrorString code =
     (if code = 0 then Some ''0''
      else
        let negative = sint code < 0;
            code = (if negative then - code else code)
        in case digit_loop code 20 [] of
             None \<Rightarrow> None
           | Some (pos, buf) \<Rightarrow>
               if negative then (if pos = 0 then None else Some (CHR ''-'' # buf)) else Some buf)"

definition jsonRpcErrorText :: "jsonrpc_error option \<Rightarrow> string option" where
  "jsonRpcErrorText e =
     (case e of None \<Rightarrow> Some ''<nil>''
      | Some e \<Rightarrow> map_option (\<lambda>d. ''agentsessions: jsonrpc error '' @ d @ '': '' @ rpcMessage e)
                   (jsonRpcErrorString (rpcCode e)))"

lemma digit_loop_dec:
  "sint code = int n \<Longrightarrow> n < 10 ^ pos \<Longrightarrow>
     digit_loop code pos buf =
       Some (pos - (if n = 0 then 0 else length (dec_nat n)), (if n = 0 then [] else dec_nat n) @ buf)"
proof (induction n arbitrary: code pos buf rule: less_induct)
  case (less n)
  show ?case
  proof (cases "n = 0")
    case True
    then show ?thesis using less.prems by (subst digit_loop.simps) simp
  next
    case False
    with less.prems obtain p where p: "pos = Suc p" by (cases pos) auto
    have n63: "int n < 2 ^ 63" using sint_lt[of code] less.prems(1) by simp
    have s: "sint (word_of_int (sint code div 10) :: 64 word) = int (n div 10)"
      using n63 less.prems(1) by (subst sint_of_int_fits) (auto simp: zdiv_int)
    have b: "n div 10 < 10 ^ p" using less.prems(2) p by (simp add: less_mult_imp_div_less mult.commute)
    have m: "nat (sint code mod 10) = n mod 10" using less.prems(1) by (simp add: nat_mod_distrib)
    have one: "digit_loop code pos buf =
        digit_loop (word_of_int (sint code div 10)) p (digit_char (n mod 10) # buf)"
      using False less.prems(1) p m by (subst digit_loop.simps) simp
    show ?thesis
    proof (cases "n < 10")
      case True
      then show ?thesis using one p False s
        by (subst (asm) digit_loop.simps[of "word_of_int (sint code div 10)"]) (simp add: dec_nat_less)
    next
      case big: False
      then have "n div 10 < n" "n div 10 \<noteq> 0" by auto
      then show ?thesis
        using less.IH[OF _ s b, of "digit_char (n mod 10) # buf"] one p False big
        by (simp add: dec_nat_ge)
    qed
  qed
qed

lemma sint_eq_iff64: "sint (a :: 64 word) = sint b \<longleftrightarrow> a = b"
  by (auto intro: signed_word_eqI)

text \<open>C10.
  The hand-written number printer of \<open>JsonRpcError.Error\<close> never runs off its
  20-byte buffer and prints the decimal numeral of every 64-bit code except the
  least one, whose negation overflows: it is printed as a lone minus sign.
\<close>

theorem jsonrpc_error_string_decimal:
  "jsonRpcErrorString code = Some (if code = word_of_int (- (2 ^ 63)) then ''-'' else dec_int (sint code))"
proof -
  let ?min = "word_of_int (- (2 ^ 63)) :: 64 word"
  have smin: "sint ?min = - (2 ^ 63)" by (rule sint_of_int_fits) auto
  have lim: "n < 10 ^ 20" "n \<noteq> 0 \<Longrightarrow> length (dec_nat n) \<le> 19" if "int n < 2 ^ 63" for n
    using that length_dec_nat[of n 19] by auto
  have eqmin: "code = ?min \<longleftrightarrow> sint code = - (2 ^ 63)"
    using smin sint_eq_iff64[of code ?min] by simp
  show ?thesis
  proof (cases "sint code < 0")
    case False
    then obtain n where n: "sint code = int n" by (metis nonneg_int_cases not_less)
    have b: "int n < 2 ^ 63" using sint_lt[of code] n by simp
    show ?thesis
    proof (cases "n = 0")
      case True
      then have "code = 0" using n sint_eq_iff64[of code 0] by simp
      moreover have "dec_nat 0 = ''0''" by code_simp
      ultimately show ?thesis using eqmin by (simp add: jsonRpcErrorString_def dec_int_def)
    next
      case nz: False
      then have "code \<noteq> 0" using n by auto
      then show ?thesis
        using digit_loop_dec[OF n lim(1)[OF b], of "[]"] n nz eqmin
        by (simp add: jsonRpcErrorString_def Let_def dec_int_def)
    qed
  next
    case neg: True
    then have nz: "code \<noteq> 0" by auto
    show ?thesis
    proof (cases "code = ?min")
      case True
      have "- code = code" unfolding True by simp
      moreover have "digit_loop code 20 [] = Some (20, [])"
        using neg by (subst digit_loop.simps) simp
      ultimately have "jsonRpcErrorString code = Some ''-''"
        using neg nz by (simp only: jsonRpcErrorString_def Let_def) simp
      then show ?thesis using True by simp
    next
      case False
      obtain n where n: "sint code = - int n" using neg by (metis neg_int_cases)
      have b: "int n < 2 ^ 63" using sint_ge[of code] False eqmin n by simp
      have "code = word_of_int (- int n)" unfolding n[symmetric] by simp
      then have "- code = word_of_int (int n)" by (simp only: of_int_minus minus_minus)
      then have s: "sint (- code) = int n" using sint_of_int_fits[of "int n"] b by simp
      have "n \<noteq> 0" using n neg by auto
      then show ?thesis
        using digit_loop_dec[OF s lim(1)[OF b], of "[]"] lim(2)[OF b] n neg nz False
        by (simp add: jsonRpcErrorString_def Let_def dec_int_def)
    qed
  qed
qed

section \<open>Start options\<close>

text \<open>
  \<open>provider.PlantContext\<close> is a struct of another module: the four fields the
  library sets are here, the fields owned by the caller are in \<open>pcCaller\<close>.
\<close>

record plant_context =
  pcSystemPrompt :: string
  pcBootContent :: string
  pcProjectDir :: string
  pcBootDir :: string
  pcCaller :: "(string \<times> string) list"

datatype writer = WCaller nat | WBroker nat | WMulti "writer list"

record start_options =
  optWorkdir :: string
  optWorkspaceDir :: string
  optLogPath :: string
  optBootPrompt :: string
  optBootContent :: string
  optPlantContext :: plant_context
  optBootMode :: string
  optEnv :: "string list"
  optStderr :: bool
  optExtraFiles :: "nat list"
  optProfileID :: string
  optFanout :: "writer option"
  optEventFanout :: bool
  optSessionIDPreset :: string
  optOnSessionID :: bool
  optAttachEnabled :: bool
  optRingBytes :: int
  optSubscriberDepth :: int
  optAutoFireFirstTurn :: bool
  optFirstTurnPayload :: bytes
  optTypedEventCallback :: bool
  optSupervisor :: "supervisor_options option"
  optJsonRpcNotificationHook :: bool
  optJsonRpcRequestHook :: bool
  optAutoPlantBootDir :: bool
  optBootDirRoot :: string
  optOnBootDirPlanted :: bool
  optExtraArgs :: "string list"
  optResourceLimits :: "resource_limits option"

record runtime_info =
  rtID :: string
  rtKind :: string
  rtCaps :: capabilities

end
