(* ===== verification/Manager.thy ===== *)
theory Manager imports Session_Types Attach_Spec begin

text \<open>
  The Manager (\<open>manager.go\<close>): registry, state sink, watch goroutines, attach
  subscriptions, \<open>WaitSession\<close> and \<open>Shutdown\<close>.

  The state holds what the goroutines share: the registry and the results map
  (ids to references), the heaps of entries, results and brokers they point to,
  the stopped flag, the wait group, and the traces of the three sinks.  Every
  region between a lock and its unlock, and every call into a sink, a session or
  a broker, is one atomic section; a method is its sections in order.  Sessions
  and runtimes are not under the Manager's control: what a call of them returns
  is an argument of the section that follows the call.

  \<open>None\<close> is a Go panic.
\<close>

section \<open>Data\<close>

record session_info =
  siID :: string
  siPID :: int
  siState :: sstate
  siRuntimeID :: string
  siRuntimeKind :: string
  siCaps :: capabilities
  siWorkdir :: string
  siAttachedClients :: int
  siMeta :: "(string \<times> string) list"

record lifecycle_event =
  leSessionID :: string
  leFrom :: sstate
  leTo :: sstate
  leExitCode :: "int option"
  leReason :: "go_error option"

record sink_update =
  suID :: string
  suState :: sstate
  suPID :: int
  suExit :: "int option"

record start_request =
  srID :: string
  srRuntime :: "runtime_info option"
  srOptions :: start_options
  srMeta :: "(string \<times> string) list"

record entry =
  enInfo :: session_info
  enSess :: nat
  enBroker :: "nat option"
  enKilling :: bool
  enAttachCount :: int
  enInputMu :: bool

record session_result =
  rsDone :: bool
  rsExitCode :: int
  rsExitErr :: "go_error option"

datatype attach_update =
    AttachCreated string string string int
  | AttachDetached string int

record manager =
  mSink :: bool
  mAttachSink :: bool
  mEvents :: bool
  mUpdates :: "sink_update list"
  mAttachLog :: "attach_update list"
  mEventLog :: "lifecycle_event list"
  mRegistry :: "(string \<times> nat) list"
  mResults :: "(string \<times> nat) list"
  mStopped :: bool
  mWg :: int
  hEntries :: "entry list"
  hResults :: "session_result list"
  hBrokers :: "broker list"

definition NewManager :: "bool \<Rightarrow> manager" where
  "NewManager sink =
     \<lparr>mSink = sink, mAttachSink = False, mEvents = False, mUpdates = [], mAttachLog = [],
      mEventLog = [], mRegistry = [], mResults = [], mStopped = False, mWg = 0,
      hEntries = [], hResults = [], hBrokers = []\<rparr>"

definition WithAttachmentSink :: "bool \<Rightarrow> manager \<Rightarrow> manager" where
  "WithAttachmentSink sink m = m\<lparr>mAttachSink := sink\<rparr>"

definition WithEventSink :: "bool \<Rightarrow> manager \<Rightarrow> manager" where
  "WithEventSink sink m = m\<lparr>mEvents := sink\<rparr>"

text \<open>Assignment to a Go map, and a field update through a pointer.\<close>

definition al_put :: "'k \<Rightarrow> 'v \<Rightarrow> ('k \<times> 'v) list \<Rightarrow> ('k \<times> 'v) list" where
  "al_put k v xs = (k, v) # al_del k xs"

lemma al_put_map_of [simp]: "map_of (al_put k v xs) = (map_of xs)(k \<mapsto> v)"
  by (auto simp: al_put_def fun_eq_iff)

lemma distinct_al_put [simp]: "distinct (map fst xs) \<Longrightarrow> distinct (map fst (al_put k v xs))"
  by (auto simp: al_put_def)

definition upd_at :: "nat \<Rightarrow> ('a \<Rightarrow> 'a) \<Rightarrow> 'a list \<Rightarrow> 'a list" where
  "upd_at i f xs = (if i < length xs then xs[i := f (xs ! i)] else xs)"

lemma upd_at_simps [simp]:
  "length (upd_at i f xs) = length xs"
  "j < length xs \<Longrightarrow> upd_at i f xs ! j = (if j = i then f (xs ! j) else xs ! j)"
  by (simp_all add: upd_at_def)

section \<open>Sinks\<close>

definition recordState :: "string \<Rightarrow> sstate \<Rightarrow> int \<Rightarrow> int option \<Rightarrow> manager \<Rightarrow> manager" where
  "recordState ident state pid exit m =
     (if \<not> mSink m then m
      else m\<lparr>mUpdates := mUpdates m @ [\<lparr>suID = ident, suState = state, suPID = pid, suExit = exit\<rparr>]\<rparr>)"

definition emit :: "string \<Rightarrow> sstate \<Rightarrow> sstate \<Rightarrow> int option \<Rightarrow> go_error option \<Rightarrow> manager \<Rightarrow> manager" where
  "emit ident from_st to_st exit reason m =
     (if \<not> mEvents m then m
      else m\<lparr>mEventLog := mEventLog m @
               [\<lparr>leSessionID = ident, leFrom = from_st, leTo = to_st, leExitCode = exit, leReason = reason\<rparr>]\<rparr>)"

section \<open>Start\<close>

definition errIDRequired :: go_error where
  "errIDRequired = ErrorsNew ''agentsessions: StartRequest.ID is required''"

definition errRuntimeRequired :: go_error where
  "errRuntimeRequired = ErrorsNew ''agentsessions: StartRequest.Runtime is required''"

text \<open>The checks before anything is recorded: Some error, or None to go on.\<close>

definition start_check :: "start_request \<Rightarrow> manager \<Rightarrow> go_error option" where
  "start_check req m =
     (if srID req = '''' then Some errIDRequired
      else if srRuntime req = None then Some errRuntimeRequired
      else if mStopped m then Some ErrManagerStopped
      else None)"

definition combineWriters :: "writer option \<Rightarrow> writer \<Rightarrow> writer" where
  "combineWriters caller b = (case caller of None \<Rightarrow> b | Some c \<Rightarrow> WMulti [c, b])"

text \<open>
  Recording \<open>launching\<close> and allocating the broker: the new state, the broker's
  reference and the options given to \<open>Runtime.Start\<close>.
\<close>

definition start_launch :: "start_request \<Rightarrow> manager \<Rightarrow> manager \<times> nat option \<times> start_options" where
  "start_launch req m =
     (let m = recordState (srID req) StateLaunching 0 None m;
          m = emit (srID req) StateCreated StateLaunching None None m;
          opts = srOptions req
      in if optAttachEnabled opts then
           let br = length (hBrokers m) in
           (m\<lparr>hBrokers := hBrokers m @ [newAttachBroker (optRingBytes opts) (optSubscriberDepth opts)]\<rparr>,
            Some br, opts\<lparr>optFanout := Some (combineWriters (optFanout opts) (WBroker br))\<rparr>)
         else (m, None, opts))"

definition close_broker_ref :: "nat option \<Rightarrow> manager \<Rightarrow> manager option" where
  "close_broker_ref br m =
     (case br of None \<Rightarrow> Some m
      | Some r \<Rightarrow> (case closeBroker (hBrokers m ! r) of None \<Rightarrow> None
                   | Some b \<Rightarrow> Some (m\<lparr>hBrokers := (hBrokers m)[r := b]\<rparr>)))"

definition start_failed :: "start_request \<Rightarrow> nat option \<Rightarrow> go_error \<Rightarrow> manager \<Rightarrow> manager option" where
  "start_failed req br err m =
     (case close_broker_ref br m of None \<Rightarrow> None
      | Some m \<Rightarrow>
          Some (emit (srID req) StateLaunching StateFailed (Some 1) (Some err)
                 (recordState (srID req) StateFailed 0 (Some 1) m)))"

definition start_running :: "start_request \<Rightarrow> int \<Rightarrow> manager \<Rightarrow> manager" where
  "start_running req pid m =
     emit (srID req) StateLaunching StateRunning None None
       (recordState (srID req) StateRunning pid None m)"

definition start_info :: "start_request \<Rightarrow> int \<Rightarrow> session_info" where
  "start_info req pid =
     (let rt = the (srRuntime req) in
      \<lparr>siID = srID req, siPID = pid, siState = StateRunning, siRuntimeID = rtID rt,
       siRuntimeKind = rtKind rt, siCaps = rtCaps rt, siWorkdir = optWorkdir (srOptions req),
       siAttachedClients = 0, siMeta = srMeta req\<rparr>)"

text \<open>
  The registration under the write lock; the flag tells whether the session was
  registered (then a watch goroutine is started), False that the Manager was
  stopped meanwhile.
\<close>

definition start_register :: "start_request \<Rightarrow> int \<Rightarrow> nat \<Rightarrow> nat option \<Rightarrow> manager \<Rightarrow> bool \<times> manager" where
  "start_register req pid sess br m =
     (if mStopped m then (False, m)
      else
        (True, m\<lparr>
           hEntries := hEntries m @
             [\<lparr>enInfo = start_info req pid, enSess = sess, enBroker = br, enKilling = False,
               enAttachCount = 0, enInputMu = False\<rparr>],
           mRegistry := al_put (srID req) (length (hEntries m)) (mRegistry m),
           hResults := hResults m @ [\<lparr>rsDone = False, rsExitCode = 0, rsExitErr = None\<rparr>],
           mResults := al_put (srID req) (length (hResults m)) (mResults m),
           mWg := mWg m + 1\<rparr>))"

section \<open>Watch\<close>

text \<open>After \<open>Wait\<close>: unregister under the lock; the killing flag and the result reference.\<close>

definition watch_unregister :: "string \<Rightarrow> manager \<Rightarrow> (bool \<times> nat option) \<times> manager" where
  "watch_unregister ident m =
     (case map_of (mRegistry m) ident of
        None \<Rightarrow> ((False, map_of (mResults m) ident), m)
      | Some e \<Rightarrow> ((enKilling (hEntries m ! e), map_of (mResults m) ident),
                   m\<lparr>mRegistry := al_del ident (mRegistry m)\<rparr>))"

definition watch_state :: "bool \<Rightarrow> int \<Rightarrow> sstate" where
  "watch_state killing code = (if killing then StateDone else if code = 0 then StateDone else StateFailed)"

definition watch_record :: "string \<Rightarrow> bool \<Rightarrow> int \<Rightarrow> int \<Rightarrow> manager \<Rightarrow> manager" where
  "watch_record ident killing code pid m =
     emit ident StateRunning (watch_state killing code) (Some code) None
       (recordState ident (watch_state killing code) pid (Some code) m)"

definition watch_deliver :: "nat option \<Rightarrow> int \<Rightarrow> go_error option \<Rightarrow> manager \<Rightarrow> manager option" where
  "watch_deliver res code err m =
     (case res of None \<Rightarrow> Some m
      | Some r \<Rightarrow>
          if rsDone (hResults m ! r) then None
          else Some (m\<lparr>hResults := (hResults m)[r := \<lparr>rsDone = True, rsExitCode = code, rsExitErr = err\<rparr>]\<rparr>))"

text \<open>\<open>wg.Done\<close> panics on a counter that is already zero.\<close>

definition wg_done :: "manager \<Rightarrow> manager option" where
  "wg_done m = (if mWg m \<le> 0 then None else Some (m\<lparr>mWg := mWg m - 1\<rparr>))"

section \<open>Lookups and calls\<close>

definition lookup_entry :: "string \<Rightarrow> manager \<Rightarrow> nat option" where
  "lookup_entry ident m = map_of (mRegistry m) ident"

text \<open>\<open>Manager.Stop\<close> up to the call of \<open>Session.Stop\<close>: the session to stop.\<close>

definition mgrStop :: "string \<Rightarrow> manager \<Rightarrow> (go_error + nat) \<times> manager" where
  "mgrStop ident m =
     (case lookup_entry ident m of
        None \<Rightarrow> (Inl ErrSessionNotRunning, m)
      | Some e \<Rightarrow> (Inr (enSess (hEntries m ! e)),
                   m\<lparr>hEntries := upd_at e (\<lambda>x. x\<lparr>enKilling := True\<rparr>) (hEntries m)\<rparr>))"

definition entry_info :: "entry \<Rightarrow> session_info" where
  "entry_info e = (enInfo e)\<lparr>siAttachedClients := enAttachCount e\<rparr>"

definition mgrGet :: "string \<Rightarrow> manager \<Rightarrow> session_info option" where
  "mgrGet ident m = map_option (\<lambda>e. entry_info (hEntries m ! e)) (lookup_entry ident m)"

definition mgrList :: "manager \<Rightarrow> session_info list" where
  "mgrList m = map (\<lambda>p. entry_info (hEntries m ! snd p)) (mRegistry m)"

record health_snapshot =
  hnSessionID :: string
  hnRuntimeID :: string
  hnRuntimeKind :: string
  hnCaps :: capabilities
  hnHealth :: health_status

definition mgrHealth :: "(nat \<Rightarrow> health_status) \<Rightarrow> string \<Rightarrow> manager \<Rightarrow> health_snapshot option" where
  "mgrHealth sess_health ident m =
     (case lookup_entry ident m of None \<Rightarrow> None
      | Some e \<Rightarrow>
          let en = hEntries m ! e in
          Some \<lparr>hnSessionID = ident, hnRuntimeID = siRuntimeID (enInfo en),
                hnRuntimeKind = siRuntimeKind (enInfo en), hnCaps = siCaps (enInfo en),
                hnHealth = sess_health (enSess en)\<rparr>)"

text \<open>
  \<open>SendInput\<close>: the lookup, the per-entry lock (None: the caller has to wait), the
  session to call with the data, and the unlock.
\<close>

definition input_lookup :: "string \<Rightarrow> manager \<Rightarrow> go_error + nat" where
  "input_lookup ident m =
     (case lookup_entry ident m of None \<Rightarrow> Inl ErrSessionNotRunning | Some e \<Rightarrow> Inr e)"

definition input_lock :: "nat \<Rightarrow> manager \<Rightarrow> manager option" where
  "input_lock e m =
     (if enInputMu (hEntries m ! e) then None
      else Some (m\<lparr>hEntries := upd_at e (\<lambda>x. x\<lparr>enInputMu := True\<rparr>) (hEntries m)\<rparr>))"

definition input_unlock :: "nat \<Rightarrow> manager \<Rightarrow> manager" where
  "input_unlock e m = m\<lparr>hEntries := upd_at e (\<lambda>x. x\<lparr>enInputMu := False\<rparr>) (hEntries m)\<rparr>"

text \<open>\<open>JsonRpcCall\<close> and \<open>Resize\<close> up to the session call they end in.\<close>

definition mgrJsonRpcCall :: "(nat \<Rightarrow> bool) \<Rightarrow> string \<Rightarrow> manager \<Rightarrow> go_error + nat" where
  "mgrJsonRpcCall is_caller ident m =
     (case lookup_entry ident m of None \<Rightarrow> Inl ErrSessionNotRunning
      | Some e \<Rightarrow>
          let s = enSess (hEntries m ! e) in
          if is_caller s then Inr s else Inl ErrSessionNotJsonRpcCapable)"

definition mgrResize :: "string \<Rightarrow> manager \<Rightarrow> go_error + nat" where
  "mgrResize ident m =
     (case lookup_entry ident m of None \<Rightarrow> Inl ErrSessionNotRunning
      | Some e \<Rightarrow> Inr (enSess (hEntries m ! e)))"

section \<open>Attach\<close>

record attach_options =
  aoClientKind :: string
  aoSinceSeq :: int
  aoDepth :: int

definition attach_lookup :: "string \<Rightarrow> manager \<Rightarrow> go_error + nat" where
  "attach_lookup ident m =
     (case lookup_entry ident m of None \<Rightarrow> Inl ErrSessionNotRunning
      | Some e \<Rightarrow> if enBroker (hEntries m ! e) = None then Inl ErrAttachDisabled else Inr e)"

definition attach_create :: "string \<Rightarrow> attach_options \<Rightarrow> string \<Rightarrow> int \<Rightarrow> manager \<Rightarrow> manager" where
  "attach_create ident opts attachID now m =
     (let kind = (if aoClientKind opts = '''' then ''cli'' else aoClientKind opts)
      in if mAttachSink m
         then m\<lparr>mAttachLog := mAttachLog m @ [AttachCreated attachID ident kind now]\<rparr> else m)"

definition attach_inc :: "nat \<Rightarrow> manager \<Rightarrow> manager" where
  "attach_inc e m = m\<lparr>hEntries := upd_at e (\<lambda>x. x\<lparr>enAttachCount := enAttachCount x + 1\<rparr>) (hEntries m)\<rparr>"

definition attach_subscribe :: "nat \<Rightarrow> attach_options \<Rightarrow> manager \<Rightarrow> (bytes \<times> nat \<times> cancel_fn) \<times> manager" where
  "attach_subscribe e opts m =
     (let br = the (enBroker (hEntries m ! e));
          (r, b) = subscribeSince (aoDepth opts) (aoSinceSeq opts) (hBrokers m ! br)
      in (r, m\<lparr>hBrokers := (hBrokers m)[br := b]\<rparr>))"

definition attach_cancel :: "nat \<Rightarrow> cancel_fn \<Rightarrow> manager \<Rightarrow> manager option" where
  "attach_cancel e c m =
     (let br = the (enBroker (hEntries m ! e)) in
      case runCancel c (hBrokers m ! br) of None \<Rightarrow> None
      | Some (c', b) \<Rightarrow> Some (m\<lparr>hBrokers := (hBrokers m)[br := b]\<rparr>))"

definition attach_dec :: "nat \<Rightarrow> manager \<Rightarrow> manager" where
  "attach_dec e m =
     m\<lparr>hEntries := upd_at e (\<lambda>x. if enAttachCount x > 0 then x\<lparr>enAttachCount := enAttachCount x - 1\<rparr> else x)
         (hEntries m)\<rparr>"

definition attach_detach :: "string \<Rightarrow> int \<Rightarrow> manager \<Rightarrow> manager" where
  "attach_detach attachID now m =
     (if mAttachSink m then m\<lparr>mAttachLog := mAttachLog m @ [AttachDetached attachID now]\<rparr> else m)"

section \<open>WaitSession and Shutdown\<close>

definition wait_lookup :: "string \<Rightarrow> manager \<Rightarrow> go_error + nat" where
  "wait_lookup ident m =
     (case map_of (mResults m) ident of None \<Rightarrow> Inl ErrSessionNotRunning | Some r \<Rightarrow> Inr r)"

text \<open>The blocking select; None while neither the result nor the context is ready.\<close>

definition wait_select :: "nat \<Rightarrow> bool \<Rightarrow> manager \<Rightarrow> (int \<times> go_error option) option" where
  "wait_select r ctx_done m =
     (if ctx_done then Some (0, Some ErrContext)
      else if rsDone (hResults m ! r) then Some (rsExitCode (hResults m ! r), rsExitErr (hResults m ! r))
      else None)"

definition shutdown_mark :: "manager \<Rightarrow> bool \<times> manager" where
  "shutdown_mark m = (if mStopped m then (True, m) else (False, m\<lparr>mStopped := True\<rparr>))"

definition shutdown_wait :: "bool \<Rightarrow> manager \<Rightarrow> go_error option option" where
  "shutdown_wait ctx_done m =
     (if ctx_done then Some (Some ErrContext) else if mWg m = 0 then Some None else None)"

end
