(* ===== verification/Manager_Run.thy ===== *)
theory Manager_Run imports Manager begin

text \<open>
  The Manager under concurrency.  A goroutine inside a Manager method is a program
  counter \<open>pc\<close>; one step of it runs one atomic section of \<open>Manager\<close>.  A world is the
  shared Manager and the list of its goroutines, and a run is a list of actions:
  a caller begins a method, goroutine \<open>i\<close> makes a step, or a broker operation
  happens outside the Manager (a session writes output, a subscriber receives).
  What a session, a runtime, a context or a clock answers is part of the action,
  so a theorem over all runs is a theorem over all of them.
\<close>

datatype 'a outcome = Blocked | Panic | Next 'a

definition of_opt :: "'a option \<Rightarrow> 'a outcome" where
  "of_opt x = (case x of None \<Rightarrow> Panic | Some a \<Rightarrow> Next a)"

lemma of_opt_simps [simp]:
  "of_opt (Some a) = Next a" "of_opt None = Panic"
  "of_opt x = Next a \<longleftrightarrow> x = Some a" "of_opt x = Panic \<longleftrightarrow> x = None" "of_opt x \<noteq> Blocked"
  by (auto simp: of_opt_def split: option.splits)

datatype mcall =
    CallStart start_request
  | CallStop string
  | CallSendInput string bytes
  | CallAttach string attach_options
  | CallWait string
  | CallShutdown

datatype mret = RetErr "go_error option" | RetCode int "go_error option"

datatype pc =
    PStart start_request
  | PLaunch start_request
  | PSpawn start_request "nat option" start_options
  | PFailed start_request "nat option" go_error
  | PRunning start_request "nat option" nat
  | PRegister start_request "nat option" nat int
  | PRefused "nat option" nat
  | PRefusedStop nat
  | PWait string nat "nat option"
  | PUnreg string "nat option" int "go_error option"
  | PRecord string "nat option" int "go_error option" bool "nat option"
  | PClose string "nat option" int "go_error option" "nat option"
  | PDeliver string int "go_error option" "nat option"
  | PWgDone string
  | PStop string
  | PStopCall nat
  | PInput string bytes
  | PInputLock nat bytes
  | PInputCall nat bytes
  | PInputUnlock nat "go_error option"
  | PAttach string attach_options
  | PAttCreate nat string attach_options
  | PAttInc nat string attach_options
  | PAttSub nat string attach_options
  | PAttCopy nat string cancel_fn
  | PAttCancel nat string cancel_fn "go_error option"
  | PAttDec nat string "go_error option"
  | PAttDetach string "go_error option"
  | PWaitSession string
  | PWaitSelect nat
  | PShutdown
  | PShutdownWait
  | PReturned mret

datatype ans =
    ANone
  | AStarted nat
  | AStartErr go_error
  | APid int
  | AWaited int "go_error option"
  | AErr "go_error option"
  | ACtx bool
  | AStamp string int

type_synonym tnext = "pc \<times> pc list \<times> manager"

fun begin_call :: "mcall \<Rightarrow> pc" where
  "begin_call (CallStart req) = PStart req"
| "begin_call (CallStop ident) = PStop ident"
| "begin_call (CallSendInput ident d) = PInput ident d"
| "begin_call (CallAttach ident opts) = PAttach ident opts"
| "begin_call (CallWait ident) = PWaitSession ident"
| "begin_call CallShutdown = PShutdown"

text \<open>One section of a goroutine: its next point, the goroutines it started, the Manager.\<close>

fun tstep :: "pc \<Rightarrow> ans \<Rightarrow> manager \<Rightarrow> tnext outcome" where
  "tstep (PStart req) a m =
     (case start_check req m of Some e \<Rightarrow> Next (PReturned (RetErr (Some e)), [], m)
      | None \<Rightarrow> Next (PLaunch req, [], m))"
| "tstep (PLaunch req) a m =
     (case start_launch req m of (m', br, opts) \<Rightarrow> Next (PSpawn req br opts, [], m'))"
| "tstep (PSpawn req br opts) a m =
     (case a of AStarted s \<Rightarrow> Next (PRunning req br s, [], m)
      | AStartErr e \<Rightarrow> Next (PFailed req br e, [], m)
      | _ \<Rightarrow> Blocked)"
| "tstep (PFailed req br e) a m =
     of_opt (map_option (\<lambda>m'. (PReturned (RetErr (Some e)), [], m')) (start_failed req br e m))"
| "tstep (PRunning req br s) a m =
     (case a of APid pid \<Rightarrow> Next (PRegister req br s pid, [], start_running req pid m) | _ \<Rightarrow> Blocked)"
| "tstep (PRegister req br s pid) a m =
     (case start_register req pid s br m of
        (True, m') \<Rightarrow> Next (PReturned (RetErr None), [PWait (srID req) s br], m')
      | (False, m') \<Rightarrow> Next (PRefused br s, [], m'))"
| "tstep (PRefused br s) a m =
     of_opt (map_option (\<lambda>m'. (PRefusedStop s, [], m')) (close_broker_ref br m))"
| "tstep (PRefusedStop s) a m = Next (PReturned (RetErr (Some ErrManagerStopped)), [], m)"
| "tstep (PWait ident s br) a m =
     (case a of AWaited code e \<Rightarrow> Next (PUnreg ident br code e, [], m) | _ \<Rightarrow> Blocked)"
| "tstep (PUnreg ident br code e) a m =
     (case watch_unregister ident m of ((k, res), m') \<Rightarrow> Next (PRecord ident br code e k res, [], m'))"
| "tstep (PRecord ident br code e k res) a m =
     (case a of APid pid \<Rightarrow> Next (PClose ident br code e res, [], watch_record ident k code pid m)
      | _ \<Rightarrow> Blocked)"
| "tstep (PClose ident br code e res) a m =
     of_opt (map_option (\<lambda>m'. (PDeliver ident code e res, [], m')) (close_broker_ref br m))"
| "tstep (PDeliver ident code e res) a m =
     of_opt (map_option (\<lambda>m'. (PWgDone ident, [], m')) (watch_deliver res code e m))"
| "tstep (PWgDone ident) a m =
     of_opt (map_option (\<lambda>m'. (PReturned (RetErr None), [], m')) (wg_done m))"
| "tstep (PStop ident) a m =
     (case mgrStop ident m of (Inl e, m') \<Rightarrow> Next (PReturned (RetErr (Some e)), [], m')
      | (Inr s, m') \<Rightarrow> Next (PStopCall s, [], m'))"
| "tstep (PStopCall s) a m =
     (case a of AErr e \<Rightarrow> Next (PReturned (RetErr e), [], m) | _ \<Rightarrow> Blocked)"
| "tstep (PInput ident d) a m =
     (case input_lookup ident m of Inl e \<Rightarrow> Next (PReturned (RetErr (Some e)), [], m)
      | Inr e \<Rightarrow> Next (PInputLock e d, [], m))"
| "tstep (PInputLock e d) a m =
     (case input_lock e m of None \<Rightarrow> Blocked | Some m' \<Rightarrow> Next (PInputCall e d, [], m'))"
| "tstep (PInputCall e d) a m =
     (case a of AErr r \<Rightarrow> Next (PInputUnlock e r, [], m) | _ \<Rightarrow> Blocked)"
| "tstep (PInputUnlock e r) a m = Next (PReturned (RetErr r), [], input_unlock e m)"
| "tstep (PAttach ident opts) a m =
     (case attach_lookup ident m of Inl e \<Rightarrow> Next (PReturned (RetErr (Some e)), [], m)
      | Inr e \<Rightarrow> Next (PAttCreate e ident opts, [], m))"
| "tstep (PAttCreate e ident opts) a m =
     (case a of AStamp aid now \<Rightarrow> Next (PAttInc e aid opts, [], attach_create ident opts aid now m)
      | _ \<Rightarrow> Blocked)"
| "tstep (PAttInc e aid opts) a m = Next (PAttSub e aid opts, [], attach_inc e m)"
| "tstep (PAttSub e aid opts) a m =
     (case attach_subscribe e opts m of ((replay, ch, c), m') \<Rightarrow> Next (PAttCopy e aid c, [], m'))"
| "tstep (PAttCopy e aid c) a m =
     (case a of AErr r \<Rightarrow> Next (PAttCancel e aid c r, [], m) | _ \<Rightarrow> Blocked)"
| "tstep (PAttCancel e aid c r) a m =
     of_opt (map_option (\<lambda>m'. (PAttDec e aid r, [], m')) (attach_cancel e c m))"
| "tstep (PAttDec e aid r) a m = Next (PAttDetach aid r, [], attach_dec e m)"
| "tstep (PAttDetach aid r) a m =
     (case a of AStamp x now \<Rightarrow> Next (PReturned (RetErr r), [], attach_detach aid now m) | _ \<Rightarrow> Blocked)"
| "tstep (PWaitSession ident) a m =
     (case wait_lookup ident m of Inl e \<Rightarrow> Next (PReturned (RetCode 0 (Some e)), [], m)
      | Inr r \<Rightarrow> Next (PWaitSelect r, [], m))"
| "tstep (PWaitSelect r) a m =
     (case wait_select r (a = ACtx True) m of None \<Rightarrow> Blocked
      | Some (code, e) \<Rightarrow> Next (PReturned (RetCode code e), [], m))"
| "tstep PShutdown a m =
     (case shutdown_mark m of (True, m') \<Rightarrow> Next (PReturned (RetErr None), [], m')
      | (False, m') \<Rightarrow> Next (PShutdownWait, [], m'))"
| "tstep PShutdownWait a m =
     (case shutdown_wait (a = ACtx True) m of None \<Rightarrow> Blocked
      | Some r \<Rightarrow> Next (PReturned (RetErr r), [], m))"
| "tstep (PReturned r) a m = Blocked"

record world =
  wMgr :: manager
  wThreads :: "pc list"

datatype action = Begin mcall | Step nat ans | BrokerOp nat bop

definition wstep :: "action \<Rightarrow> world \<Rightarrow> world outcome" where
  "wstep act w =
     (case act of
        Begin c \<Rightarrow> Next (w\<lparr>wThreads := wThreads w @ [begin_call c]\<rparr>)
      | Step i a \<Rightarrow>
          (if i < length (wThreads w) then
             (case tstep (wThreads w ! i) a (wMgr w) of
                Blocked \<Rightarrow> Blocked | Panic \<Rightarrow> Panic
              | Next (p, new, m) \<Rightarrow> Next \<lparr>wMgr = m, wThreads = (wThreads w)[i := p] @ new\<rparr>)
           else Blocked)
      | BrokerOp r x \<Rightarrow>
          (if r < length (hBrokers (wMgr w)) then
             (case bop_step x (hBrokers (wMgr w) ! r) of None \<Rightarrow> Panic
              | Some b \<Rightarrow> Next (w\<lparr>wMgr := (wMgr w)\<lparr>hBrokers := (hBrokers (wMgr w))[r := b]\<rparr>\<rparr>))
           else Blocked))"

fun wrun :: "action list \<Rightarrow> world \<Rightarrow> world outcome" where
  "wrun [] w = Next w"
| "wrun (a # as) w = (case wstep a w of Next w' \<Rightarrow> wrun as w' | Blocked \<Rightarrow> Blocked | Panic \<Rightarrow> Panic)"

definition new_world :: "bool \<Rightarrow> bool \<Rightarrow> bool \<Rightarrow> world" where
  "new_world sink asink evs =
     \<lparr>wMgr = WithEventSink evs (WithAttachmentSink asink (NewManager sink)), wThreads = []\<rparr>"

lemma wrun_append:
  "wrun (as @ bs) w = (case wrun as w of Next w' \<Rightarrow> wrun bs w' | Blocked \<Rightarrow> Blocked | Panic \<Rightarrow> Panic)"
  by (induction as arbitrary: w) (auto split: outcome.splits)

lemma wstep_Step_E:
  assumes "wstep (Step i a) w = Next w'"
  obtains p new m where "i < length (wThreads w)" "tstep (wThreads w ! i) a (wMgr w) = Next (p, new, m)"
    "w' = \<lparr>wMgr = m, wThreads = (wThreads w)[i := p] @ new\<rparr>"
  using assms by (auto simp: wstep_def split: if_splits outcome.splits prod.splits)

lemma wstep_BrokerOp_E:
  assumes "wstep (BrokerOp r x) w = Next w'"
  obtains b where "r < length (hBrokers (wMgr w))" "bop_step x (hBrokers (wMgr w) ! r) = Some b"
    "w' = w\<lparr>wMgr := (wMgr w)\<lparr>hBrokers := (hBrokers (wMgr w))[r := b]\<rparr>\<rparr>"
  using assms by (auto simp: wstep_def split: if_splits option.splits)

text \<open>An invariant of a Manager step is an invariant of all runs.\<close>

lemma wrun_invariant:
  assumes "\<And>a w w'. P w \<Longrightarrow> wstep a w = Next w' \<Longrightarrow> P w'" "P w" "wrun as w = Next w'"
  shows "P w'"
  using assms(2,3) by (induction as arbitrary: w) (auto split: outcome.splits dest: assms(1))

end
