(* ===== verification/Manager_Inv.thy ===== *)
theory Manager_Inv imports Manager_Run begin

text \<open>
  Invariants of the concurrent Manager.  First those that hold in every run: heap
  references stay valid, brokers stay well formed, the wait group counts the watch
  goroutines, the input lock admits one caller.  Then those of runs that never
  start the same session id twice: the life of one id, seen through its registry
  entry, its result and its updates of the state sink.
\<close>

section \<open>Heaps\<close>

lemma recordState_sel [simp]:
  "mSink (recordState i s p x m) = mSink m" "mAttachSink (recordState i s p x m) = mAttachSink m"
  "mEvents (recordState i s p x m) = mEvents m" "mAttachLog (recordState i s p x m) = mAttachLog m"
  "mEventLog (recordState i s p x m) = mEventLog m" "mRegistry (recordState i s p x m) = mRegistry m"
  "mResults (recordState i s p x m) = mResults m" "mStopped (recordState i s p x m) = mStopped m"
  "mWg (recordState i s p x m) = mWg m" "hEntries (recordState i s p x m) = hEntries m"
  "hResults (recordState i s p x m) = hResults m" "hBrokers (recordState i s p x m) = hBrokers m"
  by (simp_all add: recordState_def)

lemma emit_sel [simp]:
  "mSink (emit i f t x r m) = mSink m" "mAttachSink (emit i f t x r m) = mAttachSink m"
  "mEvents (emit i f t x r m) = mEvents m" "mAttachLog (emit i f t x r m) = mAttachLog m"
  "mUpdates (emit i f t x r m) = mUpdates m" "mRegistry (emit i f t x r m) = mRegistry m"
  "mResults (emit i f t x r m) = mResults m" "mStopped (emit i f t x r m) = mStopped m"
  "mWg (emit i f t x r m) = mWg m" "hEntries (emit i f t x r m) = hEntries m"
  "hResults (emit i f t x r m) = hResults m" "hBrokers (emit i f t x r m) = hBrokers m"
  by (simp_all add: emit_def)

definition ref_ok :: "nat option \<Rightarrow> 'a list \<Rightarrow> bool" where
  "ref_ok r xs = (case r of None \<Rightarrow> True | Some i \<Rightarrow> i < length xs)"

lemma ref_ok_simps [simp]: "ref_ok None xs" "ref_ok (Some i) xs \<longleftrightarrow> i < length xs"
  by (simp_all add: ref_ok_def)

lemma ref_ok_append: "ref_ok r xs \<Longrightarrow> ref_ok r (xs @ ys)"
  by (cases r) auto

lemma ref_ok_mono: "ref_ok r xs \<Longrightarrow> length xs \<le> length ys \<Longrightarrow> ref_ok r ys"
  by (cases r) auto

definition heap_ok :: "manager \<Rightarrow> bool" where
  "heap_ok m \<longleftrightarrow>
     (\<forall>b \<in> set (hBrokers m). broker_wf b) \<and>
     (\<forall>e < length (hEntries m). ref_ok (enBroker (hEntries m ! e)) (hBrokers m)) \<and>
     (\<forall>k e. map_of (mRegistry m) k = Some e \<longrightarrow> e < length (hEntries m)) \<and>
     (\<forall>k r. map_of (mResults m) k = Some r \<longrightarrow> r < length (hResults m)) \<and>
     distinct (map fst (mRegistry m))"

definition heap_ext :: "manager \<Rightarrow> manager \<Rightarrow> bool" where
  "heap_ext m m' \<longleftrightarrow>
     length (hBrokers m) \<le> length (hBrokers m') \<and>
     length (hEntries m) \<le> length (hEntries m') \<and>
     length (hResults m) \<le> length (hResults m') \<and>
     (\<forall>e < length (hEntries m). enBroker (hEntries m' ! e) = enBroker (hEntries m ! e) \<and>
        enSess (hEntries m' ! e) = enSess (hEntries m ! e) \<and> enInfo (hEntries m' ! e) = enInfo (hEntries m ! e))"

lemma heap_ext_refl [simp]: "heap_ext m m"
  by (simp add: heap_ext_def)

fun pc_broker :: "pc \<Rightarrow> nat option" where
  "pc_broker (PSpawn req br opts) = br"
| "pc_broker (PFailed req br e) = br"
| "pc_broker (PRunning req br s) = br"
| "pc_broker (PRegister req br s pid) = br"
| "pc_broker (PRefused br s) = br"
| "pc_broker (PWait ident s br) = br"
| "pc_broker (PUnreg ident br code e) = br"
| "pc_broker (PRecord ident br code e k res) = br"
| "pc_broker (PClose ident br code e res) = br"
| "pc_broker p = None"

fun pc_entry :: "pc \<Rightarrow> nat option" where
  "pc_entry (PInputLock e d) = Some e"
| "pc_entry (PInputCall e d) = Some e"
| "pc_entry (PInputUnlock e r) = Some e"
| "pc_entry (PAttCreate e ident opts) = Some e"
| "pc_entry (PAttInc e aid opts) = Some e"
| "pc_entry (PAttSub e aid opts) = Some e"
| "pc_entry (PAttCopy e aid c) = Some e"
| "pc_entry (PAttCancel e aid c r) = Some e"
| "pc_entry (PAttDec e aid r) = Some e"
| "pc_entry p = None"

fun pc_attaches :: "pc \<Rightarrow> bool" where
  "pc_attaches (PAttCreate e ident opts) = True"
| "pc_attaches (PAttInc e aid opts) = True"
| "pc_attaches (PAttSub e aid opts) = True"
| "pc_attaches (PAttCopy e aid c) = True"
| "pc_attaches (PAttCancel e aid c r) = True"
| "pc_attaches (PAttDec e aid r) = True"
| "pc_attaches p = False"

fun pc_result :: "pc \<Rightarrow> nat option" where
  "pc_result (PRecord ident br code e k res) = res"
| "pc_result (PClose ident br code e res) = res"
| "pc_result (PDeliver ident code e res) = res"
| "pc_result (PWaitSelect r) = Some r"
| "pc_result p = None"

fun is_watch :: "pc \<Rightarrow> bool" where
  "is_watch (PWait ident s br) = True"
| "is_watch (PUnreg ident br code e) = True"
| "is_watch (PRecord ident br code e k res) = True"
| "is_watch (PClose ident br code e res) = True"
| "is_watch (PDeliver ident code e res) = True"
| "is_watch (PWgDone ident) = True"
| "is_watch p = False"

definition pc_ok :: "manager \<Rightarrow> pc \<Rightarrow> bool" where
  "pc_ok m p \<longleftrightarrow>
     ref_ok (pc_broker p) (hBrokers m) \<and> ref_ok (pc_entry p) (hEntries m) \<and>
     ref_ok (pc_result p) (hResults m) \<and>
     (pc_attaches p \<longrightarrow> enBroker (hEntries m ! the (pc_entry p)) \<noteq> None)"

lemma pc_attaches_entry: "pc_attaches p \<Longrightarrow> \<exists>e. pc_entry p = Some e"
  by (cases p) auto

lemma pc_ok_ext: "pc_ok m p \<Longrightarrow> heap_ext m m' \<Longrightarrow> pc_ok m' p"
  using pc_attaches_entry[of p]
  by (auto simp: pc_ok_def heap_ext_def intro: ref_ok_mono)

lemma heap_ok_D:
  assumes "heap_ok m"
  shows "r < length (hBrokers m) \<Longrightarrow> broker_wf (hBrokers m ! r)"
    and "e < length (hEntries m) \<Longrightarrow> ref_ok (enBroker (hEntries m ! e)) (hBrokers m)"
    and "map_of (mRegistry m) k = Some e \<Longrightarrow> e < length (hEntries m)"
    and "map_of (mResults m) k = Some r \<Longrightarrow> r < length (hResults m)"
  using assms by (auto simp: heap_ok_def)

text \<open>Replacing a broker by a well-formed one, and updating an entry in place.\<close>

definition set_broker :: "nat \<Rightarrow> broker \<Rightarrow> manager \<Rightarrow> manager" where
  "set_broker r b m = m\<lparr>hBrokers := (hBrokers m)[r := b]\<rparr>"

lemma set_broker_ok: "heap_ok m \<Longrightarrow> broker_wf b \<Longrightarrow> heap_ok (set_broker r b m)"
  using set_update_subset_insert[of "hBrokers m" r b]
  by (auto simp: heap_ok_def set_broker_def ref_ok_def split: option.splits)

lemma set_broker_ext: "heap_ext m (set_broker r b m)"
  by (simp add: heap_ext_def set_broker_def)

lemma close_broker_ref_ok:
  assumes "heap_ok m" "ref_ok br (hBrokers m)"
  obtains bs where "close_broker_ref br m = Some (m\<lparr>hBrokers := bs\<rparr>)"
    "heap_ok (m\<lparr>hBrokers := bs\<rparr>)" "heap_ext m (m\<lparr>hBrokers := bs\<rparr>)"
proof (cases br)
  case None
  show ?thesis by (rule that[of "hBrokers m"]) (use None assms in \<open>auto simp: close_broker_ref_def\<close>)
next
  case (Some r)
  have wf: "broker_wf (hBrokers m ! r)" using Some assms by (auto intro: heap_ok_D(1))
  show ?thesis
    using set_broker_ok[of m "after_close (hBrokers m ! r)" r] set_broker_ext[of m r "after_close (hBrokers m ! r)"]
      after_close_wf[OF wf] assms(1)
      closeBroker_wf_form[OF wf] Some
    by (intro that[of "(hBrokers m)[r := after_close (hBrokers m ! r)]"])
       (simp_all add: close_broker_ref_def set_broker_def)
qed

lemma upd_entry_heap:
  assumes "\<And>x. enBroker (f x) = enBroker x" "\<And>x. enSess (f x) = enSess x" "\<And>x. enInfo (f x) = enInfo x"
  shows "heap_ext m (m\<lparr>hEntries := upd_at e f (hEntries m)\<rparr>)"
    and "heap_ok m \<Longrightarrow> heap_ok (m\<lparr>hEntries := upd_at e f (hEntries m)\<rparr>)"
  using assms by (auto simp: heap_ext_def heap_ok_def)

lemma runCancel_ok:
  assumes "broker_wf b"
  obtains c' b' where "runCancel c b = Some (c', b')" "broker_wf b'"
proof (cases c)
  case CancelNop
  then show ?thesis using assms that by simp
next
  case (CancelSub i d)
  then show ?thesis
    using assms that runCancel_wf_form[OF assms, of i] after_cancel_wf[OF assms, of i] by (cases d) auto
qed

lemma heap_same:
  "hBrokers m' = hBrokers m \<Longrightarrow> hEntries m' = hEntries m \<Longrightarrow> length (hResults m') = length (hResults m) \<Longrightarrow>
   mRegistry m' = mRegistry m \<Longrightarrow> mResults m' = mResults m \<Longrightarrow> heap_ok m \<Longrightarrow> heap_ok m' \<and> heap_ext m m'"
  by (auto simp: heap_ok_def heap_ext_def)

lemma start_launch_heap:
  assumes "heap_ok m" "start_launch req m = (m', br, opts)"
  shows "heap_ok m' \<and> heap_ext m m' \<and> ref_ok br (hBrokers m') \<and> mWg m' = mWg m"
proof -
  let ?b = "newAttachBroker (optRingBytes (srOptions req)) (optSubscriberDepth (srOptions req))"
  have "broker_wf ?b" by (rule newAttachBroker_wf)
  then show ?thesis
    using assms
    by (auto simp: start_launch_def Let_def heap_ok_def heap_ext_def nth_append
        ref_ok_append split: if_splits)
qed

lemma start_register_heap:
  assumes "heap_ok m" "ref_ok br (hBrokers m)" "start_register req pid s br m = (b, m')"
  shows "heap_ok m' \<and> heap_ext m m' \<and> hBrokers m' = hBrokers m \<and> mWg m' = mWg m + of_bool b"
  using assms
  by (auto simp: start_register_def heap_ok_def heap_ext_def nth_append less_Suc_eq
      split: if_splits)

lemma attach_subscribe_heap:
  assumes "heap_ok m" "e < length (hEntries m)" "enBroker (hEntries m ! e) = Some r"
    "attach_subscribe e opts m = (x, m')"
  shows "heap_ok m' \<and> heap_ext m m' \<and> mWg m' = mWg m"
proof -
  have "broker_wf (hBrokers m ! r)"
    using heap_ok_D(1,2)[OF assms(1)] assms(2,3) by (metis ref_ok_simps(2))
  then have "broker_wf (snd (subscribeSince (aoDepth opts) (aoSinceSeq opts) (hBrokers m ! r)))"
    by (rule subscribeSince_wf)
  then show ?thesis
    using assms set_broker_ok[of m _ r] set_broker_ext[of m r] by (auto simp: attach_subscribe_def set_broker_def split: prod.splits)
qed

lemma attach_cancel_heap:
  assumes "heap_ok m" "e < length (hEntries m)" "enBroker (hEntries m ! e) = Some r"
  obtains m' where "attach_cancel e c m = Some m'" "heap_ok m'" "heap_ext m m'" "mWg m' = mWg m"
proof -
  have wf: "broker_wf (hBrokers m ! r)"
    using heap_ok_D(1,2)[OF assms(1)] assms(2,3) by (metis ref_ok_simps(2))
  obtain c' b where "runCancel c (hBrokers m ! r) = Some (c', b)" "broker_wf b" by (rule runCancel_ok[OF wf])
  then show ?thesis
    using assms set_broker_ok[of m b r] set_broker_ext[of m r b]
    by (intro that[of "set_broker r b m"]) (auto simp: attach_cancel_def set_broker_def)
qed

lemma attach_lookup_ok:
  "heap_ok m \<Longrightarrow> attach_lookup ident m = Inr e \<Longrightarrow>
     e < length (hEntries m) \<and> enBroker (hEntries m ! e) \<noteq> None"
  by (auto simp: attach_lookup_def lookup_entry_def heap_ok_D(3) split: option.splits if_splits)

lemma watch_unregister_heap:
  "heap_ok m \<Longrightarrow> watch_unregister ident m = ((k, res), m') \<Longrightarrow>
     heap_ok m' \<and> heap_ext m m' \<and> mWg m' = mWg m \<and> ref_ok res (hResults m') \<and> hBrokers m' = hBrokers m"
  by (auto simp: watch_unregister_def heap_ok_def heap_ext_def ref_ok_def split: option.splits if_splits)

lemma upd_entry_frame:
  "hBrokers (m\<lparr>hEntries := upd_at e f (hEntries m)\<rparr>) = hBrokers m"
  by simp

text \<open>One section of a goroutine: everything the heaps and the wait group need.\<close>

definition sect_ok :: "pc \<Rightarrow> manager \<Rightarrow> tnext \<Rightarrow> bool" where
  "sect_ok p m r = (case r of (p', new, m') \<Rightarrow>
     heap_ok m' \<and> heap_ext m m' \<and> pc_ok m' p' \<and> (\<forall>q \<in> set new. pc_ok m' q) \<and>
     mWg m' + of_bool (is_watch p) = mWg m + of_bool (is_watch p') + int (length (filter is_watch new)))"

lemma sect_ok_PLaunch: "heap_ok m \<Longrightarrow> tstep (PLaunch req) a m = Next r \<Longrightarrow> sect_ok (PLaunch req) m r"
  using start_launch_heap[of m req]
  by (auto simp: sect_ok_def pc_ok_def split: prod.splits)

lemma heap_ext_trans: "heap_ext m1 m2 \<Longrightarrow> heap_ext m2 m3 \<Longrightarrow> heap_ext m1 m3"
  unfolding heap_ext_def by fastforce

lemma sect_ok_PFailed:
  assumes "heap_ok m" "pc_ok m (PFailed req br e)" "tstep (PFailed req br e) a m = Next r"
  shows "sect_ok (PFailed req br e) m r"
proof -
  have "ref_ok br (hBrokers m)" using assms(2) by (simp add: pc_ok_def)
  then obtain bs where c: "close_broker_ref br m = Some (m\<lparr>hBrokers := bs\<rparr>)"
    "heap_ok (m\<lparr>hBrokers := bs\<rparr>)" "heap_ext m (m\<lparr>hBrokers := bs\<rparr>)"
    by (rule close_broker_ref_ok[OF assms(1)])
  let ?m = "emit (srID req) StateLaunching StateFailed (Some 1) (Some e)
                 (recordState (srID req) StateFailed 0 (Some 1) (m\<lparr>hBrokers := bs\<rparr>))"
  have r: "r = (PReturned (RetErr (Some e)), [], ?m)" using assms(3) c(1) by (simp add: start_failed_def)
  have "heap_ok ?m \<and> heap_ext (m\<lparr>hBrokers := bs\<rparr>) ?m" using c(2) by (intro heap_same) simp_all
  then show ?thesis using c(3) heap_ext_trans unfolding r sect_ok_def by (auto simp: pc_ok_def)
qed

lemma sect_ok_close:
  assumes "heap_ok m" "ref_ok br (hBrokers m)" "close_broker_ref br m = Some m'"
    and "pc_result q = None \<or> pc_result q = pc_result p" "pc_entry q = None" "pc_broker q = None"
    and "\<not> pc_attaches q" "is_watch q = is_watch p" "ref_ok (pc_result p) (hResults m)"
  shows "sect_ok p m (q, [], m')"
  by (rule close_broker_ref_ok[OF assms(1,2)])
     (use assms in \<open>auto simp: sect_ok_def pc_ok_def\<close>)

lemma sect_ok_PRegister:
  assumes "heap_ok m" "pc_ok m (PRegister req br s pid)" "tstep (PRegister req br s pid) a m = Next r"
  shows "sect_ok (PRegister req br s pid) m r"
  using assms start_register_heap[of m br req pid s]
  by (auto simp: sect_ok_def pc_ok_def split: prod.splits bool.splits)

lemma sect_ok_upd:
  assumes "heap_ok m" "\<And>x. enBroker (f x) = enBroker x" "\<And>x. enSess (f x) = enSess x"
    "\<And>x. enInfo (f x) = enInfo x" and "pc_ok m q" "\<not> is_watch q" "\<not> is_watch p"
  shows "sect_ok p m (q, [], m\<lparr>hEntries := upd_at e f (hEntries m)\<rparr>)"
  using upd_entry_heap[where f = f and m = m and e = e, OF assms(2-4)] assms(1,5-7)
    pc_ok_ext[of m q "m\<lparr>hEntries := upd_at e f (hEntries m)\<rparr>"]
  by (auto simp: sect_ok_def)

lemma sect_ok_same:
  "heap_ok m \<Longrightarrow> pc_ok m q \<Longrightarrow> is_watch q = is_watch p \<Longrightarrow> sect_ok p m (q, [], m)"
  by (simp add: sect_ok_def)

lemma sect_ok_sinks:
  "heap_ok m \<Longrightarrow> pc_ok m q \<Longrightarrow> is_watch q = is_watch p \<Longrightarrow>
   hBrokers m' = hBrokers m \<Longrightarrow> hEntries m' = hEntries m \<Longrightarrow> length (hResults m') = length (hResults m) \<Longrightarrow>
   mRegistry m' = mRegistry m \<Longrightarrow> mResults m' = mResults m \<Longrightarrow> mWg m' = mWg m \<Longrightarrow>
   sect_ok p m (q, [], m')"
  using heap_same[of m' m] pc_ok_ext[of m q m'] by (auto simp: sect_ok_def)

lemma tstep_ok:
  assumes "heap_ok m" "pc_ok m p" "tstep p a m = Next r"
  shows "sect_ok p m r"
proof (cases p)
  case (PStart req)
  then show ?thesis using assms by (auto simp: pc_ok_def intro!: sect_ok_same split: option.splits)
next
  case (PLaunch req)
  then show ?thesis using assms sect_ok_PLaunch by simp
next
  case (PSpawn req br opts)
  then show ?thesis using assms by (auto simp: pc_ok_def intro!: sect_ok_same split: ans.splits)
next
  case (PFailed req br e)
  then show ?thesis using assms sect_ok_PFailed by simp
next
  case (PRunning req br s)
  then show ?thesis using assms
    by (auto simp: pc_ok_def start_running_def intro!: sect_ok_sinks split: ans.splits)
next
  case (PRegister req br s pid)
  then show ?thesis using assms sect_ok_PRegister by blast
next
  case (PRefused br s)
  then show ?thesis using assms by (auto simp: pc_ok_def intro!: sect_ok_close)
next
  case (PRefusedStop s)
  then show ?thesis using assms by (auto simp: pc_ok_def intro!: sect_ok_same)
next
  case (PWait ident s br)
  then show ?thesis using assms by (auto simp: pc_ok_def intro!: sect_ok_same split: ans.splits)
next
  case (PUnreg ident br code e)
  then show ?thesis using assms watch_unregister_heap[of m ident]
    by (auto simp: sect_ok_def pc_ok_def split: prod.splits)
next
  case (PRecord ident br code e k res)
  then show ?thesis using assms
    by (auto simp: pc_ok_def watch_record_def intro!: sect_ok_sinks split: ans.splits)
next
  case (PClose ident br code e res)
  then show ?thesis using assms by (auto simp: pc_ok_def intro!: sect_ok_close)
next
  case (PDeliver ident code e res)
  then show ?thesis using assms
    by (auto simp: pc_ok_def watch_deliver_def intro!: sect_ok_sinks split: option.splits if_splits)
next
  case (PWgDone ident)
  then show ?thesis using assms
    by (auto simp: sect_ok_def pc_ok_def wg_done_def heap_ok_def heap_ext_def split: if_splits)
next
  case (PStop ident)
  then show ?thesis using assms
    by (auto simp: mgrStop_def pc_ok_def intro!: sect_ok_same sect_ok_upd split: option.splits)
next
  case (PStopCall s)
  then show ?thesis using assms by (auto simp: pc_ok_def intro!: sect_ok_same split: ans.splits)
next
  case (PInput ident d)
  then show ?thesis using assms
    by (auto simp: input_lookup_def lookup_entry_def pc_ok_def heap_ok_D(3) intro!: sect_ok_same
        split: option.splits)
next
  case (PInputLock e d)
  then show ?thesis using assms
    by (auto simp: input_lock_def pc_ok_def intro!: sect_ok_upd split: option.splits if_splits)
next
  case (PInputCall e d)
  then show ?thesis using assms by (auto simp: pc_ok_def intro!: sect_ok_same split: ans.splits)
next
  case (PInputUnlock e r)
  then show ?thesis using assms by (auto simp: input_unlock_def pc_ok_def intro!: sect_ok_upd)
next
  case (PAttach ident opts)
  then show ?thesis using assms attach_lookup_ok[of m ident]
    by (auto simp: pc_ok_def intro!: sect_ok_same split: sum.splits)
next
  case (PAttCreate e ident opts)
  then show ?thesis using assms
    by (auto simp: pc_ok_def attach_create_def Let_def intro!: sect_ok_sinks split: ans.splits)
next
  case (PAttInc e aid opts)
  then show ?thesis using assms by (auto simp: attach_inc_def pc_ok_def intro!: sect_ok_upd)
next
  case (PAttSub e aid opts)
  then obtain r where "enBroker (hEntries m ! e) = Some r" "e < length (hEntries m)"
    using assms(2) by (auto simp: pc_ok_def)
  then show ?thesis using PAttSub assms attach_subscribe_heap[OF assms(1), of e r opts]
    by (auto simp: sect_ok_def pc_ok_def heap_ext_def split: prod.splits)
next
  case (PAttCopy e aid c)
  then show ?thesis using assms by (auto simp: pc_ok_def intro!: sect_ok_same split: ans.splits)
next
  case (PAttCancel e aid c x)
  then obtain r where "e < length (hEntries m)" "enBroker (hEntries m ! e) = Some r"
    using assms(2) by (auto simp: pc_ok_def)
  then obtain m' where m': "attach_cancel e c m = Some m'" "heap_ok m'" "heap_ext m m'" "mWg m' = mWg m"
    by (rule attach_cancel_heap[OF assms(1)])
  have "pc_ok m' (PAttDec e aid x)"
    by (rule pc_ok_ext[OF _ m'(3)]) (use PAttCancel assms(2) in \<open>simp add: pc_ok_def\<close>)
  then show ?thesis using PAttCancel assms(3) m' by (auto simp: sect_ok_def)
next
  case (PAttDec e aid r)
  then show ?thesis using assms by (auto simp: attach_dec_def pc_ok_def intro!: sect_ok_upd)
next
  case (PAttDetach aid r)
  then show ?thesis using assms
    by (auto simp: pc_ok_def attach_detach_def intro!: sect_ok_sinks split: ans.splits)
next
  case (PWaitSession ident)
  then show ?thesis using assms
    by (auto simp: wait_lookup_def pc_ok_def heap_ok_D(4) intro!: sect_ok_same split: option.splits)
next
  case (PWaitSelect r)
  then show ?thesis using assms by (auto simp: pc_ok_def intro!: sect_ok_same split: option.splits prod.splits)
next
  case PShutdown
  then show ?thesis using assms
    by (auto simp: pc_ok_def shutdown_mark_def intro!: sect_ok_same sect_ok_sinks split: prod.splits bool.splits if_splits)
next
  case PShutdownWait
  then show ?thesis using assms by (auto simp: pc_ok_def intro!: sect_ok_same split: option.splits)
next
  case (PReturned r)
  then show ?thesis using assms by simp
qed

section \<open>Worlds\<close>

definition world_ok :: "world \<Rightarrow> bool" where
  "world_ok w \<longleftrightarrow>
     heap_ok (wMgr w) \<and> (\<forall>p \<in> set (wThreads w). pc_ok (wMgr w) p) \<and>
     mWg (wMgr w) = int (length (filter is_watch (wThreads w)))"

lemma begin_call_simps [simp]:
  "pc_broker (begin_call c) = None" "pc_entry (begin_call c) = None" "pc_result (begin_call c) = None"
  "\<not> pc_attaches (begin_call c)" "\<not> is_watch (begin_call c)"
  by (cases c; simp)+

lemma begin_call_ok [simp]: "pc_ok m (begin_call c)"
  by (simp add: pc_ok_def)

lemma new_world_ok: "world_ok (new_world a b c)"
  by (simp add: world_ok_def new_world_def heap_ok_def NewManager_def WithEventSink_def WithAttachmentSink_def)

lemma world_ok_step:
  assumes "world_ok w" "wstep act w = Next w'"
  shows "world_ok w' \<and> heap_ext (wMgr w) (wMgr w')"
proof (cases act)
  case (Begin c)
  then show ?thesis using assms by (auto simp: wstep_def world_ok_def)
next
  case (Step i a)
  from assms(2)[unfolded Step] obtain p new m where
    s: "i < length (wThreads w)" "tstep (wThreads w ! i) a (wMgr w) = Next (p, new, m)"
      "w' = \<lparr>wMgr = m, wThreads = (wThreads w)[i := p] @ new\<rparr>" by (rule wstep_Step_E)
  have "pc_ok (wMgr w) (wThreads w ! i)" using assms(1) s(1) by (simp add: world_ok_def)
  from tstep_ok[OF _ this s(2)] assms(1) have ok: "sect_ok (wThreads w ! i) (wMgr w) (p, new, m)"
    by (simp add: world_ok_def)
  then have ext: "heap_ext (wMgr w) m" by (simp add: sect_ok_def)
  have "pc_ok m q" if "q \<in> set (wThreads w)" for q
    using that assms(1) ext pc_ok_ext by (auto simp: world_ok_def)
  moreover have "set ((wThreads w)[i := p]) \<subseteq> insert p (set (wThreads w))" by (rule set_update_subset_insert)
  ultimately have pcs: "\<forall>q \<in> set ((wThreads w)[i := p] @ new). pc_ok m q"
    using ok by (auto simp: sect_ok_def)
  have "mWg m = int (length (filter is_watch ((wThreads w)[i := p] @ new)))"
    using ok assms(1) count_filter_update[OF s(1), of is_watch p]
    by (auto simp: sect_ok_def world_ok_def of_bool_def split: if_splits)
  then show ?thesis using ok ext pcs s(3) by (simp add: world_ok_def sect_ok_def)
next
  case (BrokerOp r x)
  from assms(2)[unfolded BrokerOp] obtain b where b: "r < length (hBrokers (wMgr w))"
    "bop_step x (hBrokers (wMgr w) ! r) = Some b"
    "w' = w\<lparr>wMgr := (wMgr w)\<lparr>hBrokers := (hBrokers (wMgr w))[r := b]\<rparr>\<rparr>" by (rule wstep_BrokerOp_E)
  have wf: "broker_wf (hBrokers (wMgr w) ! r)"
    using assms(1) b(1) by (auto simp: world_ok_def heap_ok_D(1))
  have "broker_wf b" using b(2) bop_step_wf[OF wf] after_op_wf[OF wf, of x] by simp
  then show ?thesis
    using assms(1) b(3) set_broker_ok[of "wMgr w" b r] set_broker_ext[of "wMgr w" r b] pc_ok_ext
    by (auto simp: world_ok_def set_broker_def)
qed

lemma world_ok_run: "wrun as w = Next w' \<Longrightarrow> world_ok w \<Longrightarrow> world_ok w'"
  by (rule wrun_invariant[where P = world_ok]) (auto dest: world_ok_step)

text \<open>The only section that can panic is the delivery of a result already delivered.\<close>

lemma tstep_panic:
  assumes "heap_ok m" "pc_ok m p" "tstep p a m = Panic" "is_watch p \<Longrightarrow> 0 < mWg m"
  shows "\<exists>ident code e r. p = PDeliver ident code e (Some r) \<and> rsDone (hResults m ! r)"
proof (cases p)
  case (PFailed req br e)
  then have "ref_ok br (hBrokers m)" using assms(2) by (simp add: pc_ok_def)
  then obtain bs where "close_broker_ref br m = Some (m\<lparr>hBrokers := bs\<rparr>)"
    by (rule close_broker_ref_ok[OF assms(1)])
  then show ?thesis using PFailed assms(3) by (simp add: start_failed_def)
next
  case (PRefused br s)
  then have "ref_ok br (hBrokers m)" using assms(2) by (simp add: pc_ok_def)
  then obtain bs where "close_broker_ref br m = Some (m\<lparr>hBrokers := bs\<rparr>)"
    by (rule close_broker_ref_ok[OF assms(1)])
  then show ?thesis using PRefused assms(3) by simp
next
  case (PClose ident br code e res)
  then have "ref_ok br (hBrokers m)" using assms(2) by (simp add: pc_ok_def)
  then obtain bs where "close_broker_ref br m = Some (m\<lparr>hBrokers := bs\<rparr>)"
    by (rule close_broker_ref_ok[OF assms(1)])
  then show ?thesis using PClose assms(3) by simp
next
  case (PAttCancel e aid c x)
  then obtain r where "e < length (hEntries m)" "enBroker (hEntries m ! e) = Some r"
    using assms(2) by (auto simp: pc_ok_def)
  then obtain m' where m': "attach_cancel e c m = Some m'"
    by (rule attach_cancel_heap[OF assms(1)])
  then show ?thesis using PAttCancel assms(3) by simp
next
  case (PDeliver ident code e res)
  then show ?thesis using assms(3) by (auto simp: watch_deliver_def split: option.splits if_splits)
next
  case (PWgDone ident)
  then show ?thesis using assms(3,4) by (auto simp: wg_done_def split: if_splits)
qed (use assms(3) in \<open>auto split: option.splits prod.splits sum.splits ans.splits bool.splits\<close>)

lemma count_pos: "p \<in> set xs \<Longrightarrow> P p \<Longrightarrow> 0 < length (filter P xs)"
  by (auto simp: filter_empty_conv)

lemma wstep_panic:
  assumes "world_ok w" "wstep act w = Panic"
  shows "\<exists>i a ident code e r. act = Step i a \<and> i < length (wThreads w) \<and>
     wThreads w ! i = PDeliver ident code e (Some r) \<and> rsDone (hResults (wMgr w) ! r)"
proof (cases act)
  case (Begin c)
  then show ?thesis using assms by (simp add: wstep_def)
next
  case (Step i a)
  then have i: "i < length (wThreads w)" and t: "tstep (wThreads w ! i) a (wMgr w) = Panic"
    using assms(2) by (auto simp: wstep_def split: if_splits outcome.splits)
  have "is_watch (wThreads w ! i) \<Longrightarrow> 0 < mWg (wMgr w)"
    using assms(1) i count_pos[of "wThreads w ! i" "wThreads w" is_watch] by (simp add: world_ok_def)
  from tstep_panic[OF _ _ t this] assms(1) i Step show ?thesis by (auto simp: world_ok_def)
next
  case (BrokerOp r x)
  then show ?thesis using assms bop_step_wf[of "hBrokers (wMgr w) ! r" x]
    by (auto simp: wstep_def world_ok_def heap_ok_D(1) split: if_splits option.splits)
qed

section \<open>The input lock\<close>

fun holds_input :: "nat \<Rightarrow> pc \<Rightarrow> bool" where
  "holds_input e (PInputCall e' d) = (e' = e)"
| "holds_input e (PInputUnlock e' r) = (e' = e)"
| "holds_input e p = False"

definition input_ok :: "world \<Rightarrow> bool" where
  "input_ok w \<longleftrightarrow> (\<forall>e < length (hEntries (wMgr w)).
     length (filter (holds_input e) (wThreads w)) = of_bool (enInputMu (hEntries (wMgr w) ! e))) \<and>
   (\<forall>e \<ge> length (hEntries (wMgr w)). filter (holds_input e) (wThreads w) = [])"

lemma begin_call_input [simp]: "\<not> holds_input e (begin_call c)"
  by (cases c) auto

definition input_sect :: "nat \<Rightarrow> pc \<Rightarrow> manager \<Rightarrow> tnext \<Rightarrow> bool" where
  "input_sect e p m r = (case r of (p', new, m') \<Rightarrow>
     (\<forall>q \<in> set new. \<not> holds_input e q) \<and>
     (if e < length (hEntries m)
      then (holds_input e p \<longrightarrow> enInputMu (hEntries m ! e)) \<longrightarrow>
        of_bool (holds_input e p) + of_bool (enInputMu (hEntries m' ! e)) =
        (of_bool (holds_input e p') + of_bool (enInputMu (hEntries m ! e)) :: nat)
      else \<not> holds_input e p' \<and> (e < length (hEntries m') \<longrightarrow> \<not> enInputMu (hEntries m' ! e))))"

lemma input_sect_same:
  "hEntries m' = hEntries m \<Longrightarrow> holds_input e p = holds_input e p' \<Longrightarrow>
   (holds_input e p' \<Longrightarrow> e < length (hEntries m)) \<Longrightarrow> input_sect e p m (p', [], m')"
  by (auto simp: input_sect_def)

lemma input_sect_upd:
  "(\<And>x. enInputMu (f x) = enInputMu x) \<Longrightarrow> \<not> holds_input e p \<Longrightarrow> \<not> holds_input e p' \<Longrightarrow>
   input_sect e p m (p', [], m\<lparr>hEntries := upd_at e' f (hEntries m)\<rparr>)"
  by (auto simp: input_sect_def)

lemma close_broker_ref_entries: "close_broker_ref br m = Some m' \<Longrightarrow> hEntries m' = hEntries m"
  by (auto simp: close_broker_ref_def split: option.splits)

lemma tstep_input:
  assumes "pc_ok m p" "tstep p a m = Next r"
  shows "input_sect e p m r"
proof (cases p)
  case (PLaunch req)
  then show ?thesis using assms
    by (auto simp: start_launch_def Let_def intro!: input_sect_same split: if_splits)
next
  case (PFailed req br x)
  then show ?thesis using assms close_broker_ref_entries[of br m]
    by (auto simp: start_failed_def intro!: input_sect_same split: option.splits)
next
  case (PRunning req br s)
  then show ?thesis using assms
    by (auto simp: start_running_def intro!: input_sect_same split: ans.splits)
next
  case (PRegister req br s pid)
  then show ?thesis using assms
    by (auto simp: start_register_def input_sect_def nth_append split: if_splits)
next
  case (PRefused br s)
  then show ?thesis using assms close_broker_ref_entries[of br m] by (auto intro!: input_sect_same)
next
  case (PUnreg ident br code x)
  then show ?thesis using assms
    by (auto simp: watch_unregister_def intro!: input_sect_same split: option.splits)
next
  case (PRecord ident br code x k res)
  then show ?thesis using assms
    by (auto simp: watch_record_def intro!: input_sect_same split: ans.splits)
next
  case (PClose ident br code x res)
  then show ?thesis using assms close_broker_ref_entries[of br m] by (auto intro!: input_sect_same)
next
  case (PDeliver ident code x res)
  then show ?thesis using assms
    by (auto simp: watch_deliver_def intro!: input_sect_same split: option.splits if_splits)
next
  case (PWgDone ident)
  then show ?thesis using assms by (auto simp: wg_done_def intro!: input_sect_same split: if_splits)
next
  case (PStop ident)
  then show ?thesis using assms
    by (auto simp: mgrStop_def intro!: input_sect_same input_sect_upd split: option.splits)
next
  case (PInputLock e' d)
  then show ?thesis using assms
    by (auto simp: input_lock_def input_sect_def pc_ok_def split: option.splits if_splits)
next
  case (PInputCall e' d)
  then show ?thesis using assms by (auto simp: pc_ok_def intro!: input_sect_same split: ans.splits)
next
  case (PInputUnlock e' x)
  then show ?thesis using assms by (auto simp: input_unlock_def input_sect_def pc_ok_def)
next
  case (PAttCreate e' ident opts)
  then show ?thesis using assms
    by (auto simp: attach_create_def Let_def intro!: input_sect_same split: ans.splits if_splits)
next
  case (PAttInc e' aid opts)
  then show ?thesis using assms by (auto simp: attach_inc_def intro!: input_sect_upd)
next
  case (PAttSub e' aid opts)
  then show ?thesis using assms
    by (auto simp: attach_subscribe_def Let_def intro!: input_sect_same split: prod.splits)
next
  case (PAttCancel e' aid c x)
  then show ?thesis using assms
    by (auto simp: attach_cancel_def Let_def intro!: input_sect_same split: option.splits prod.splits)
next
  case (PAttDec e' aid x)
  then show ?thesis using assms by (auto simp: attach_dec_def intro!: input_sect_upd split: if_splits)
next
  case (PAttDetach aid x)
  then show ?thesis using assms
    by (auto simp: attach_detach_def intro!: input_sect_same split: ans.splits if_splits)
next
  case PShutdown
  then show ?thesis using assms
    by (auto simp: shutdown_mark_def intro!: input_sect_same split: prod.splits bool.splits if_splits)
qed (use assms in \<open>auto intro!: input_sect_same split: option.splits prod.splits sum.splits ans.splits bool.splits\<close>)

lemma input_ok_step:
  assumes "world_ok w" "input_ok w" "wstep act w = Next w'"
  shows "input_ok w'"
proof (cases act)
  case (Begin c)
  then show ?thesis using assms by (auto simp: wstep_def input_ok_def)
next
  case (Step i a)
  from assms(3)[unfolded Step] obtain p new m where
    s: "i < length (wThreads w)" "tstep (wThreads w ! i) a (wMgr w) = Next (p, new, m)"
      "w' = \<lparr>wMgr = m, wThreads = (wThreads w)[i := p] @ new\<rparr>" by (rule wstep_Step_E)
  let ?p = "wThreads w ! i"
  have "pc_ok (wMgr w) ?p" using assms(1) s(1) by (simp add: world_ok_def)
  note sect = tstep_input[OF this s(2)]
  have ext: "length (hEntries (wMgr w)) \<le> length (hEntries m)"
    using world_ok_step[OF assms(1,3)] s(3) by (simp add: heap_ext_def)
  have held: "filter (holds_input e) (wThreads w) \<noteq> []" if "holds_input e ?p" for e
    using that s(1) by (auto simp: filter_empty_conv)
  have cnt: "length (filter (holds_input e) ((wThreads w)[i := p] @ new)) + of_bool (holds_input e ?p) =
      length (filter (holds_input e) (wThreads w)) + of_bool (holds_input e p)" for e
    using count_filter_update[OF s(1), of "holds_input e" p] sect[of e]
    by (auto simp: input_sect_def filter_empty_conv)
  have "length (filter (holds_input e) ((wThreads w)[i := p] @ new)) = of_bool (enInputMu (hEntries m ! e))"
    if "e < length (hEntries m)" for e
  proof (cases "e < length (hEntries (wMgr w))")
    case True
    then have c: "length (filter (holds_input e) (wThreads w)) = of_bool (enInputMu (hEntries (wMgr w) ! e))"
      using assms(2) by (simp add: input_ok_def)
    then have "holds_input e ?p \<longrightarrow> enInputMu (hEntries (wMgr w) ! e)"
      using held[of e] by (auto simp del: length_0_conv simp: length_0_conv[symmetric])
    then show ?thesis using sect[of e] True cnt[of e] c by (simp add: input_sect_def)
  next
    case False
    then show ?thesis using sect[of e] cnt[of e] held[of e] that assms(2)
      by (auto simp: input_sect_def input_ok_def)
  qed
  moreover have "filter (holds_input e) ((wThreads w)[i := p] @ new) = []" if "length (hEntries m) \<le> e" for e
    using that ext sect[of e] cnt[of e] held[of e] assms(2)
    by (auto simp: input_sect_def input_ok_def)
  ultimately show ?thesis using s(3) by (simp add: input_ok_def)
next
  case (BrokerOp r x)
  then show ?thesis using assms
    by (auto simp: input_ok_def elim!: wstep_BrokerOp_E)
qed

lemma new_world_input: "input_ok (new_world a b c)"
  by (simp add: input_ok_def new_world_def NewManager_def WithEventSink_def WithAttachmentSink_def)

lemma base_run:
  "wrun as (new_world a b c) = Next w \<Longrightarrow> world_ok w \<and> input_ok w"
  by (rule wrun_invariant[where P = "\<lambda>w. world_ok w \<and> input_ok w"])
    (auto dest: world_ok_step input_ok_step simp: new_world_ok new_world_input)

end
