(* ===== verification/Manager_Life.thy ===== *)
theory Manager_Life imports Manager_Inv begin

text \<open>
  The life of one session id in a run that never starts the same id twice.  What
  the Manager holds of an id is its view \<open>vw\<close>: registry reference, result
  reference and content, and the (state, exit) pairs of its sink updates.  Each
  point of the \<open>Start\<close> and watch goroutines of the id fixes the view (\<open>phase\<close>),
  an id without such a goroutine is \<open>finished\<close> or untouched, and a section run
  for another id leaves the view alone.
\<close>

type_synonym view = "nat option \<times> nat option \<times> session_result option \<times> (sstate \<times> int option) list"

definition id_log :: "string \<Rightarrow> manager \<Rightarrow> (sstate \<times> int option) list" where
  "id_log ident m = map (\<lambda>u. (suState u, suExit u)) (filter (\<lambda>u. suID u = ident) (mUpdates m))"

definition vw :: "string \<Rightarrow> manager \<Rightarrow> view" where
  "vw ident m = (map_of (mRegistry m) ident, map_of (mResults m) ident,
     map_option ((!) (hResults m)) (map_of (mResults m) ident), id_log ident m)"

abbreviation upL :: "sstate \<times> int option" where "upL \<equiv> (StateLaunching, None)"
abbreviation upR :: "sstate \<times> int option" where "upR \<equiv> (StateRunning, None)"

definition lg :: "bool \<Rightarrow> 'a list \<Rightarrow> 'a list" where
  "lg s l = (if s then l else [])"

definition terminal :: "sstate \<Rightarrow> int \<Rightarrow> bool" where
  "terminal st code \<longleftrightarrow> st = StateDone \<or> st = StateFailed \<and> code \<noteq> 0"

lemma terminal_watch [simp]: "terminal (watch_state k code) code"
  by (simp add: terminal_def watch_state_def)

fun pc_id :: "pc \<Rightarrow> string option" where
  "pc_id (PStart req) = Some (srID req)"
| "pc_id (PLaunch req) = Some (srID req)"
| "pc_id (PSpawn req br opts) = Some (srID req)"
| "pc_id (PFailed req br e) = Some (srID req)"
| "pc_id (PRunning req br s) = Some (srID req)"
| "pc_id (PRegister req br s pid) = Some (srID req)"
| "pc_id (PWait ident s br) = Some ident"
| "pc_id (PUnreg ident br code e) = Some ident"
| "pc_id (PRecord ident br code e k res) = Some ident"
| "pc_id (PClose ident br code e res) = Some ident"
| "pc_id (PDeliver ident code e res) = Some ident"
| "pc_id (PWgDone ident) = Some ident"
| "pc_id p = None"

definition delivered :: "bool \<Rightarrow> view \<Rightarrow> bool" where
  "delivered s v \<longleftrightarrow> (\<exists>r c st. v = (None, Some r, Some c, lg s [upL, upR, (st, Some (rsExitCode c))]) \<and>
     rsDone c \<and> terminal st (rsExitCode c))"

definition blank :: "bool \<Rightarrow> (sstate \<times> int option) list \<Rightarrow> view \<Rightarrow> bool" where
  "blank s l v \<longleftrightarrow> v = (None, None, None, lg s l)"

fun phase :: "bool \<Rightarrow> pc \<Rightarrow> view \<Rightarrow> bool" where
  "phase s (PStart req) v = blank s [] v"
| "phase s (PLaunch req) v = blank s [] v"
| "phase s (PSpawn req br opts) v = blank s [upL] v"
| "phase s (PFailed req br e) v = blank s [upL] v"
| "phase s (PRunning req br x) v = blank s [upL] v"
| "phase s (PRegister req br x pid) v = blank s [upL, upR] v"
| "phase s (PWait ident x br) v =
     (\<exists>e r c. v = (Some e, Some r, Some c, lg s [upL, upR]) \<and> \<not> rsDone c)"
| "phase s (PUnreg ident br code x) v =
     (\<exists>e r c. v = (Some e, Some r, Some c, lg s [upL, upR]) \<and> \<not> rsDone c)"
| "phase s (PRecord ident br code x k res) v =
     (\<exists>r c. v = (None, Some r, Some c, lg s [upL, upR]) \<and> \<not> rsDone c \<and> res = Some r)"
| "phase s (PClose ident br code x res) v =
     (\<exists>r c st. v = (None, Some r, Some c, lg s [upL, upR, (st, Some code)]) \<and> \<not> rsDone c \<and>
        res = Some r \<and> terminal st code)"
| "phase s (PDeliver ident code x res) v =
     (\<exists>r c st. v = (None, Some r, Some c, lg s [upL, upR, (st, Some code)]) \<and> \<not> rsDone c \<and>
        res = Some r \<and> terminal st code)"
| "phase s (PWgDone ident) v = delivered s v"
| "phase s p v = True"

definition finished :: "bool \<Rightarrow> view \<Rightarrow> bool" where
  "finished s v \<longleftrightarrow>
     blank s [] v \<or> blank s [upL, (StateFailed, Some 1)] v \<or> blank s [upL, upR] v \<or> delivered s v"

definition results_inj :: "manager \<Rightarrow> bool" where
  "results_inj m \<longleftrightarrow>
     (\<forall>k k' r. map_of (mResults m) k = Some r \<longrightarrow> map_of (mResults m) k' = Some r \<longrightarrow> k = k')"

definition vframe :: "string option \<Rightarrow> manager \<Rightarrow> manager \<Rightarrow> bool" where
  "vframe p m m' \<longleftrightarrow> mSink m' = mSink m \<and> results_inj m' \<and>
     (\<forall>ident. p \<noteq> Some ident \<longrightarrow> vw ident m' = vw ident m)"

lemma id_log_record:
  "id_log i (recordState j st pid ex m) =
     id_log i m @ (if mSink m \<and> i = j then [(st, ex)] else [])"
  by (simp add: id_log_def recordState_def)

lemma id_log_emit [simp]: "id_log i (emit j f t x r m) = id_log i m"
  by (simp add: id_log_def)

lemma id_log_upds [simp]:
  "id_log i (m\<lparr>hEntries := a\<rparr>) = id_log i m" "id_log i (m\<lparr>hResults := b\<rparr>) = id_log i m"
  "id_log i (m\<lparr>hBrokers := c\<rparr>) = id_log i m" "id_log i (m\<lparr>mRegistry := d\<rparr>) = id_log i m"
  "id_log i (m\<lparr>mResults := d'\<rparr>) = id_log i m" "id_log i (m\<lparr>mWg := f\<rparr>) = id_log i m"
  "id_log i (m\<lparr>mStopped := g\<rparr>) = id_log i m" "id_log i (m\<lparr>mAttachLog := h\<rparr>) = id_log i m"
  by (simp_all add: id_log_def)

lemma vframe_same:
  "results_inj m \<Longrightarrow> mSink m' = mSink m \<Longrightarrow> mRegistry m' = mRegistry m \<Longrightarrow> mResults m' = mResults m \<Longrightarrow>
   hResults m' = hResults m \<Longrightarrow> mUpdates m' = mUpdates m \<Longrightarrow> vframe p m m'"
  by (simp add: vframe_def results_inj_def vw_def id_log_def)

lemma close_broker_ref_frame:
  "close_broker_ref br m = Some m' \<Longrightarrow> results_inj m \<Longrightarrow> vframe p m m'"
  by (auto simp: close_broker_ref_def intro!: vframe_same split: option.splits)

lemma close_broker_ref_vw:
  "close_broker_ref br m = Some m' \<Longrightarrow> vw i m' = vw i m \<and> mSink m' = mSink m"
  by (auto simp: close_broker_ref_def vw_def split: option.splits)

lemma vframe_trans: "vframe p m1 m2 \<Longrightarrow> vframe p m2 m3 \<Longrightarrow> vframe p m1 m3"
  by (simp add: vframe_def)

lemma vframe_record:
  "results_inj m \<Longrightarrow> vframe (Some i) m (emit i f t x r (recordState i st pid ex m))"
  by (auto simp: vframe_def results_inj_def vw_def id_log_record)

lemma tstep_vframe:
  assumes "heap_ok m" "results_inj m" "tstep p a m = Next (p', new, m')"
    and "\<And>ident. pc_id p = Some ident \<Longrightarrow> phase s p (vw ident m)"
  shows "vframe (pc_id p) m m'"
proof (cases p)
  case (PLaunch req)
  have "vframe (Some (srID req)) m (emit (srID req) StateCreated StateLaunching None None
      (recordState (srID req) StateLaunching 0 None m))" (is "vframe _ _ ?m")
    by (rule vframe_record[OF assms(2)])
  then have "vframe (Some (srID req)) m (?m\<lparr>hBrokers := bs\<rparr>)" for bs
    by (auto simp: vframe_def results_inj_def vw_def)
  then show ?thesis using PLaunch assms(3) vframe_record[OF assms(2)]
    by (auto simp: start_launch_def Let_def split: if_splits)
next
  case (PFailed req br e)
  then obtain m1 where m1: "close_broker_ref br m = Some m1"
    "m' = emit (srID req) StateLaunching StateFailed (Some 1) (Some e)
                 (recordState (srID req) StateFailed 0 (Some 1) m1)"
    using assms(3) by (auto simp: start_failed_def split: option.splits)
  have f: "vframe (Some (srID req)) m m1" by (rule close_broker_ref_frame[OF m1(1) assms(2)])
  then have "results_inj m1" by (simp add: vframe_def)
  then show ?thesis using vframe_trans[OF f vframe_record] m1(2) PFailed by simp
next
  case (PRunning req br x)
  then show ?thesis using assms(3) vframe_record[OF assms(2)]
    by (auto simp: start_running_def split: ans.splits)
next
  case (PRegister req br x pid)
  have "vframe (Some (srID req)) m m'" if "start_register req pid x br m = (True, m')"
  proof -
    have "map_of (mResults m) k \<noteq> Some (length (hResults m))" for k
      using heap_ok_D(4)[OF assms(1), of k] by auto
    then have "results_inj m'"
      using that assms(2) by (auto simp: start_register_def results_inj_def split: if_splits)
    moreover have "vw ident m' = vw ident m" if "ident \<noteq> srID req" for ident
      using that \<open>start_register req pid x br m = (True, m')\<close> heap_ok_D(4)[OF assms(1), of ident]
      by (auto simp: start_register_def vw_def id_log_def nth_append split: if_splits option.splits
          intro!: option.map_cong)
    ultimately show ?thesis using that
      by (auto simp: vframe_def start_register_def split: if_splits)
  qed
  then show ?thesis using PRegister assms(2,3)
    by (auto simp: start_register_def intro!: vframe_same split: prod.splits bool.splits if_splits)
next
  case (PRefused br x)
  then show ?thesis using assms(2,3) close_broker_ref_frame by auto
next
  case (PUnreg ident br code e)
  then show ?thesis using assms(2,3)
    by (auto simp: watch_unregister_def vframe_def results_inj_def vw_def split: option.splits)
next
  case (PRecord ident br code e k res)
  then show ?thesis using assms(3) vframe_record[OF assms(2)]
    by (auto simp: watch_record_def split: ans.splits)
next
  case (PClose ident br code e res)
  then show ?thesis using assms(2,3) close_broker_ref_frame by auto
next
  case (PDeliver ident code e res)
  then obtain r where r: "res = Some r" "map_of (mResults m) ident = Some r"
    using assms(4) by (auto simp: vw_def)
  then have other: "z \<noteq> r" if "map_of (mResults m) k = Some z" "k \<noteq> ident" for k z
    using assms(2) that by (auto simp: results_inj_def)
  have "vw k (m\<lparr>hResults := (hResults m)[r := c]\<rparr>) = vw k m" if "k \<noteq> ident" for k c
    using other[OF _ that] by (cases "map_of (mResults m) k") (auto simp: vw_def)
  then show ?thesis using PDeliver r assms(2,3)
    by (auto simp: watch_deliver_def vframe_def results_inj_def split: if_splits)
next
  case (PWgDone ident)
  then show ?thesis using assms(2,3) by (auto simp: wg_done_def intro!: vframe_same split: if_splits)
next
  case (PStop ident)
  then show ?thesis using assms(2,3) by (auto simp: mgrStop_def intro!: vframe_same split: option.splits)
next
  case (PInputLock e d)
  then show ?thesis using assms(2,3)
    by (auto simp: input_lock_def intro!: vframe_same split: option.splits if_splits)
next
  case (PInputUnlock e x)
  then show ?thesis using assms(2,3) by (auto simp: input_unlock_def intro!: vframe_same)
next
  case (PAttCreate e ident opts)
  then show ?thesis using assms(2,3)
    by (auto simp: attach_create_def Let_def intro!: vframe_same split: ans.splits if_splits)
next
  case (PAttInc e aid opts)
  then show ?thesis using assms(2,3) by (auto simp: attach_inc_def intro!: vframe_same)
next
  case (PAttSub e aid opts)
  then show ?thesis using assms(2,3)
    by (auto simp: attach_subscribe_def Let_def intro!: vframe_same split: prod.splits)
next
  case (PAttCancel e aid c x)
  then show ?thesis using assms(2,3)
    by (auto simp: attach_cancel_def Let_def intro!: vframe_same split: option.splits prod.splits)
next
  case (PAttDec e aid x)
  then show ?thesis using assms(2,3) by (auto simp: attach_dec_def intro!: vframe_same)
next
  case (PAttDetach aid x)
  then show ?thesis using assms(2,3)
    by (auto simp: attach_detach_def intro!: vframe_same split: ans.splits if_splits)
next
  case PShutdown
  then show ?thesis using assms(2,3)
    by (auto simp: shutdown_mark_def intro!: vframe_same split: prod.splits bool.splits if_splits)
qed (use assms(2,3) in \<open>auto intro!: vframe_same split: option.splits prod.splits sum.splits ans.splits bool.splits\<close>)


text \<open>The goroutine's own id: the section leads from its phase to the next.\<close>

definition own_next :: "bool \<Rightarrow> string \<Rightarrow> tnext \<Rightarrow> bool" where
  "own_next s ident r = (case r of (p', new, m') \<Rightarrow>
     (pc_id p' = Some ident \<and> new = [] \<and> phase s p' (vw ident m')) \<or>
     (pc_id p' = None \<and> (\<exists>q. new = [q] \<and> pc_id q = Some ident \<and> phase s q (vw ident m'))) \<or>
     (pc_id p' = None \<and> new = [] \<and> finished s (vw ident m')))"

lemma blank_log: "vw i m' = vw i m \<Longrightarrow> blank s l (vw i m') = blank s l (vw i m)"
  by simp

lemma vw_record:
  "mSink m = s \<Longrightarrow> vw i (emit i f t x r (recordState i st pid ex m)) =
     (case vw i m of (a, b, c, l) \<Rightarrow> (a, b, c, l @ lg s [(st, ex)]))"
  by (simp add: vw_def id_log_record lg_def)

lemma lg_append [simp]: "lg s a @ lg s b = lg s (a @ b)"
  by (simp add: lg_def)

lemma vw_heap_irrelevant [simp]:
  "vw i (m\<lparr>hBrokers := c\<rparr>) = vw i m" "vw i (m\<lparr>mWg := w\<rparr>) = vw i m"
  by (simp_all add: vw_def)

lemma tstep_own:
  assumes "heap_ok m" "results_inj m" "mSink m = s" "pc_id p = Some ident" "phase s p (vw ident m)"
    and "tstep p a m = Next r"
  shows "own_next s ident r"
proof (cases p)
  case (PStart req)
  then show ?thesis using assms(4-6) by (auto simp: own_next_def finished_def split: option.splits)
next
  case (PLaunch req)
  then show ?thesis using assms(3-6)
    by (auto simp: own_next_def start_launch_def Let_def vw_record blank_def split: if_splits)
next
  case (PSpawn req br opts)
  then show ?thesis using assms(4-6) by (auto simp: own_next_def split: ans.splits)
next
  case (PFailed req br e)
  then obtain m1 where m1: "close_broker_ref br m = Some m1"
    "r = (PReturned (RetErr (Some e)), [], emit (srID req) StateLaunching StateFailed (Some 1) (Some e)
                 (recordState (srID req) StateFailed 0 (Some 1) m1))"
    using assms(6) by (auto simp: start_failed_def split: option.splits)
  then show ?thesis using assms(3-5) PFailed close_broker_ref_vw[OF m1(1)]
    by (auto simp: own_next_def finished_def vw_record blank_def)
next
  case (PRunning req br x)
  then show ?thesis using assms(3-6)
    by (auto simp: own_next_def start_running_def vw_record blank_def split: ans.splits)
next
  case (PRegister req br x pid)
  then show ?thesis using assms(4-6)
    by (auto simp: own_next_def start_register_def finished_def vw_def id_log_def blank_def nth_append
        split: if_splits)
next
  case (PWait i x br)
  then show ?thesis using assms(4-6) by (auto simp: own_next_def split: ans.splits)
next
  case (PUnreg i br code e)
  then show ?thesis using assms(4-6)
    by (auto simp: own_next_def watch_unregister_def vw_def split: option.splits)
next
  case (PRecord i br code e k res)
  then obtain pid where r: "r = (PClose i br code e res, [], watch_record i k code pid m)"
    using assms(6) by (auto split: ans.splits)
  have "phase s (PClose i br code e res) (vw i (watch_record i k code pid m))"
    using assms(3-5) PRecord terminal_watch[of k code]
    by (simp add: watch_record_def vw_record) (fastforce intro: exI[of _ "watch_state k code"])
  then show ?thesis using assms(4) PRecord r by (simp add: own_next_def)
next
  case (PClose i br code e res)
  then obtain m1 where m1: "close_broker_ref br m = Some m1" "r = (PDeliver i code e res, [], m1)"
    using assms(6) by auto
  then show ?thesis using assms(4,5) PClose close_broker_ref_vw[OF m1(1), of i]
    by (simp add: own_next_def)
next
  case (PDeliver i code e res)
  then show ?thesis using assms(4-6) heap_ok_D(4)[OF assms(1), of i]
    by (auto simp: own_next_def watch_deliver_def vw_def delivered_def split: if_splits) blast+
next
  case (PWgDone i)
  then show ?thesis using assms(4-6)
    by (auto simp: own_next_def wg_done_def finished_def split: if_splits)
qed (use assms(4) in auto)

lemma tstep_other:
  assumes "tstep p a m = Next (p', new, m')" "pc_id p = None"
  shows "new = [] \<and> pc_id p' = None"
  using assms
  by (cases p) (auto split: option.splits prod.splits sum.splits ans.splits bool.splits)


section \<open>The invariant of all ids\<close>

definition carries :: "string \<Rightarrow> pc \<Rightarrow> bool" where
  "carries ident p \<longleftrightarrow> pc_id p = Some ident"

definition life_id :: "bool \<Rightarrow> bool \<Rightarrow> string \<Rightarrow> world \<Rightarrow> bool" where
  "life_id s used ident w \<longleftrightarrow>
     (case filter (carries ident) (wThreads w) of
        [] \<Rightarrow> (if used then finished s (vw ident (wMgr w)) else blank s [] (vw ident (wMgr w)))
      | [p] \<Rightarrow> used \<and> phase s p (vw ident (wMgr w))
      | _ \<Rightarrow> False)"

definition life :: "bool \<Rightarrow> string set \<Rightarrow> world \<Rightarrow> bool" where
  "life s U w \<longleftrightarrow> mSink (wMgr w) = s \<and> results_inj (wMgr w) \<and> (\<forall>ident. life_id s (ident \<in> U) ident w)"

lemma filter_update_other:
  "i < length xs \<Longrightarrow> \<not> P (xs ! i) \<Longrightarrow> \<not> P x \<Longrightarrow> filter P (xs[i := x]) = filter P xs"
  by (induction xs arbitrary: i) (auto simp: nth_Cons' list_update_def split: nat.splits if_splits)

lemma filter_update_single:
  "i < length xs \<Longrightarrow> P (xs ! i) \<Longrightarrow> filter P xs = [p] \<Longrightarrow>
     p = xs ! i \<and> filter P (xs[i := x]) = (if P x then [x] else [])"
proof (induction xs arbitrary: i)
  case (Cons y ys)
  show ?case
  proof (cases i)
    case 0
    then show ?thesis using Cons.prems by auto
  next
    case (Suc j)
    then have "P (ys ! j)" "j < length ys" using Cons.prems by auto
    then have "filter P ys \<noteq> []" by (auto simp: filter_empty_conv)
    then have "\<not> P y" using Cons.prems(3) by auto
    then show ?thesis using Cons Suc by auto
  qed
qed simp

definition begins :: "action \<Rightarrow> string set" where
  "begins act = (case act of Begin (CallStart req) \<Rightarrow> {srID req} | _ \<Rightarrow> {})"

lemma life_id_frame:
  "filter (carries ident) (wThreads w') = filter (carries ident) (wThreads w) \<Longrightarrow>
   vw ident (wMgr w') = vw ident (wMgr w) \<Longrightarrow> life_id s u ident w \<Longrightarrow> life_id s u ident w'"
  by (simp add: life_id_def split: list.splits)

lemma life_step:
  assumes "world_ok w" "life s U w" "wstep act w = Next w'" "begins act \<inter> U = {}"
  shows "life s (U \<union> begins act) w'"
proof (cases act)
  case (Begin c)
  then have w': "w' = w\<lparr>wThreads := wThreads w @ [begin_call c]\<rparr>" using assms(3) by (simp add: wstep_def)
  show ?thesis
  proof (cases "\<exists>req. c = CallStart req")
    case True
    then obtain req where c: "c = CallStart req" by blast
    have fresh: "srID req \<notin> U" using assms(4) Begin c by (simp add: begins_def)
    then have "life_id s False (srID req) w" using assms(2) by (auto simp: life_def dest: spec[of _ "srID req"])
    then have none: "filter (carries (srID req)) (wThreads w) = []" "blank s [] (vw (srID req) (wMgr w))"
      by (auto simp: life_id_def split: list.splits)
    have "life_id s (ident \<in> insert (srID req) U) ident w'" for ident
    proof (cases "ident = srID req")
      case True
      then show ?thesis using none w' c by (simp add: life_id_def carries_def)
    next
      case False
      then have "life_id s (ident \<in> U) ident w'"
        using assms(2) w' c by (intro life_id_frame[of ident w' w]) (simp_all add: life_def carries_def)
      then show ?thesis using False by simp
    qed
    then show ?thesis using assms(2) w' Begin c by (simp add: life_def begins_def)
  next
    case False
    then have "pc_id (begin_call c) = None" by (cases c) auto
    then have "life_id s (ident \<in> U) ident w'" for ident
      using assms(2) w' by (intro life_id_frame[of ident w' w]) (simp_all add: life_def carries_def)
    moreover have "begins act = {}" using False Begin by (cases c) (auto simp: begins_def)
    ultimately show ?thesis using assms(2) w' by (simp add: life_def)
  qed
next
  case (Step i a)
  from assms(3)[unfolded Step] obtain p new m where
    s: "i < length (wThreads w)" "tstep (wThreads w ! i) a (wMgr w) = Next (p, new, m)"
      "w' = \<lparr>wMgr = m, wThreads = (wThreads w)[i := p] @ new\<rparr>" by (rule wstep_Step_E)
  let ?p = "wThreads w ! i"
  have b: "heap_ok (wMgr w)" "results_inj (wMgr w)" "mSink (wMgr w) = s"
    using assms(1,2) by (auto simp: world_ok_def life_def)
  have single: "filter (carries ident) (wThreads w) = [?p] \<and> ident \<in> U \<and> phase s ?p (vw ident (wMgr w))"
    if "pc_id ?p = Some ident" for ident
  proof -
    have "filter (carries ident) (wThreads w) \<noteq> []" using that s(1) by (auto simp: filter_empty_conv carries_def)
    moreover have "life_id s (ident \<in> U) ident w" using assms(2) by (simp add: life_def)
    ultimately obtain q where q: "filter (carries ident) (wThreads w) = [q]" "ident \<in> U"
      "phase s q (vw ident (wMgr w))"
      by (auto simp: life_id_def split: list.splits)
    then show ?thesis using filter_update_single[OF s(1), of "carries ident" q] that by (simp add: carries_def)
  qed
  have fr: "vframe (pc_id ?p) (wMgr w) m"
    by (rule tstep_vframe[OF b(1,2) s(2)]) (use single in blast)
  have "life_id s (ident \<in> U) ident w'" for ident
  proof (cases "pc_id ?p = Some ident")
    case True
    note si = single[OF True]
    have "own_next s ident (p, new, m)"
      by (rule tstep_own[OF b True _ s(2)]) (use si in blast)
    moreover have "filter (carries ident) ((wThreads w)[i := p]) = (if carries ident p then [p] else [])"
      using filter_update_single[OF s(1), of "carries ident" ?p p] si True by (simp add: carries_def)
    ultimately show ?thesis using si s(3) by (auto simp: own_next_def life_id_def carries_def)
  next
    case False
    have np: "pc_id p \<noteq> Some ident \<and> (\<forall>q \<in> set new. pc_id q \<noteq> Some ident)"
    proof (cases "pc_id ?p")
      case None
      then show ?thesis using tstep_other[OF s(2)] by simp
    next
      case (Some j)
      have "own_next s j (p, new, m)"
        by (rule tstep_own[OF b Some _ s(2)]) (use single[OF Some] in blast)
      then show ?thesis using Some False by (auto simp: own_next_def)
    qed
    then have "filter (carries ident) (wThreads w') = filter (carries ident) (wThreads w)"
      using filter_update_other[OF s(1), of "carries ident" p] False s(3)
      by (auto simp: carries_def filter_empty_conv)
    moreover have "vw ident (wMgr w') = vw ident (wMgr w)" using fr False s(3) by (simp add: vframe_def)
    ultimately show ?thesis using assms(2) life_id_frame by (simp add: life_def)
  qed
  then show ?thesis using fr b s(3) Step by (simp add: life_def vframe_def begins_def)
next
  case (BrokerOp r x)
  from assms(3)[unfolded BrokerOp] obtain b where
    w': "w' = w\<lparr>wMgr := (wMgr w)\<lparr>hBrokers := (hBrokers (wMgr w))[r := b]\<rparr>\<rparr>"
    by (rule wstep_BrokerOp_E)
  have "life_id s (ident \<in> U) ident w'" for ident
    using assms(2) w' by (intro life_id_frame[of ident w' w]) (simp_all add: life_def)
  then show ?thesis using assms(2) w' BrokerOp by (simp add: life_def results_inj_def begins_def)
qed

fun begun :: "action list \<Rightarrow> string list" where
  "begun [] = []"
| "begun (Begin (CallStart req) # as) = srID req # begun as"
| "begun (a # as) = begun as"

lemma begun_Cons: "set (begun (a # as)) = begins a \<union> set (begun as)"
  by (cases "(a # as)" rule: begun.cases) (auto simp: begins_def)

lemma distinct_begun_Cons:
  "distinct (begun (a # as)) \<Longrightarrow> distinct (begun as) \<and> begins a \<inter> set (begun as) = {}"
  by (cases "(a # as)" rule: begun.cases) (auto simp: begins_def)

lemma life_run:
  "world_ok w \<Longrightarrow> life s U w \<Longrightarrow> distinct (begun as) \<Longrightarrow> set (begun as) \<inter> U = {} \<Longrightarrow>
   wrun as w \<noteq> Panic \<and> (\<forall>w'. wrun as w = Next w' \<longrightarrow> life s (U \<union> set (begun as)) w')"
proof (induction as arbitrary: w U)
  case Nil
  then show ?case by simp
next
  case (Cons a as)
  have U: "begins a \<inter> U = {}" using Cons.prems(4) begun_Cons[of a as] by auto
  note d = distinct_begun_Cons[OF Cons.prems(3)]
  show ?case
  proof (cases "wstep a w")
    case Blocked
    then show ?thesis by simp
  next
    case Panic
    from wstep_panic[OF Cons.prems(1) this] obtain i x ident code e r where
      p: "i < length (wThreads w)" "wThreads w ! i = PDeliver ident code e (Some r)"
        "rsDone (hResults (wMgr w) ! r)" by blast
    have "filter (carries ident) (wThreads w) \<noteq> []"
      using p(2) nth_mem[OF p(1)] by (auto simp: filter_empty_conv carries_def intro!: bexI[rotated])
    moreover have "life_id s (ident \<in> U) ident w" using Cons.prems(2) by (simp add: life_def)
    ultimately obtain q where q: "filter (carries ident) (wThreads w) = [q]" "phase s q (vw ident (wMgr w))"
      by (auto simp: life_id_def split: list.splits)
    then have "q = wThreads w ! i"
      using filter_update_single[OF p(1), of "carries ident" q] p(2) by (simp add: carries_def)
    then have False using q(2) p(2,3) by (auto simp: vw_def)
    then show ?thesis ..
  next
    case (Next w1)
    have "world_ok w1" using world_ok_step[OF Cons.prems(1) Next] by blast
    moreover have "life s (U \<union> begins a) w1" by (rule life_step[OF Cons.prems(1,2) Next U])
    moreover have "set (begun as) \<inter> (U \<union> begins a) = {}"
      using Cons.prems(4) begun_Cons[of a as] d by auto
    ultimately show ?thesis using Cons.IH[of w1 "U \<union> begins a"] d Next begun_Cons[of a as]
      by (simp add: Un_assoc)
  qed
qed

lemma life_new_world: "life s {} (new_world s b c)"
  by (simp add: life_def life_id_def new_world_def NewManager_def WithEventSink_def WithAttachmentSink_def
      results_inj_def blank_def vw_def id_log_def lg_def)

end
