(* ===== verification/Manager_Props.thy ===== *)
theory Manager_Props imports Manager_Life begin

text \<open>
  What the Manager guarantees to its callers, over every interleaving of every
  list of calls, and the runs that show where a guarantee stops.
\<close>

section \<open>Facts shared by the properties\<close>

lemma fresh_run:
  assumes "distinct (begun as)" "wrun as (new_world s b c) = Next w"
  shows "world_ok w" "life s (set (begun as)) w"
  using base_run[OF assms(2)] life_run[OF new_world_ok life_new_world assms(1)] assms(2) by auto

text \<open>The view of an id is one of a few shapes.\<close>

lemma life_cases:
  assumes "life s U w"
  obtains (start) l where "vw ident (wMgr w) = (None, None, None, lg s l)"
      "l \<in> {[], [upL], [upL, (StateFailed, Some 1)], [upL, upR]}"
      "\<forall>p \<in> set (wThreads w). carries ident p \<longrightarrow> \<not> is_watch p"
    | (running) e r c p where "vw ident (wMgr w) = (Some e, Some r, Some c, lg s [upL, upR])" "\<not> rsDone c"
      "filter (carries ident) (wThreads w) = [p]" "is_watch p" "ident \<in> U"
    | (ending) r c l p where "vw ident (wMgr w) = (None, Some r, Some c, lg s ([upL, upR] @ l))" "\<not> rsDone c"
      "l = [] \<or> (\<exists>st code. l = [(st, Some code)] \<and> terminal st code)"
      "filter (carries ident) (wThreads w) = [p]" "is_watch p"
    | (over) "delivered s (vw ident (wMgr w))"
proof -
  have l: "life_id s (ident \<in> U) ident w" using assms by (simp add: life_def)
  show thesis
  proof (cases "filter (carries ident) (wThreads w)")
    case Nil
    then have nw: "\<forall>p \<in> set (wThreads w). carries ident p \<longrightarrow> \<not> is_watch p" by (auto simp: filter_empty_conv)
    from l Nil have "finished s (vw ident (wMgr w))"
      by (auto simp: life_id_def finished_def split: if_splits)
    then show thesis
      using start[OF _ _ nw] over by (auto simp: finished_def blank_def)
  next
    case (Cons p ps)
    then have p: "filter (carries ident) (wThreads w) = [p]" "ident \<in> U" "phase s p (vw ident (wMgr w))"
      using l by (auto simp: life_id_def split: list.splits)
    then have "p \<in> set (filter (carries ident) (wThreads w))" by simp
    then have c: "carries ident p" by simp
    have nw: "\<forall>q \<in> set (wThreads w). carries ident q \<longrightarrow> \<not> is_watch q" if "\<not> is_watch p"
    proof (intro ballI impI)
      fix q assume "q \<in> set (wThreads w)" "carries ident q"
      then have "q \<in> set (filter (carries ident) (wThreads w))" by simp
      then show "\<not> is_watch q" using p(1) that by simp
    qed
    show thesis
    proof (cases "is_watch p")
      case True
      then show thesis
        using p c running[of _ _ _ p] ending[of _ _ _ p] over
        by (cases p) (auto simp: carries_def)
    next
      case False
      then show thesis
        using p c nw start by (cases p) (auto simp: carries_def blank_def)
    qed
  qed
qed

lemma vw_eq:
  "vw ident m = (a, b, c, l) \<longleftrightarrow>
     map_of (mRegistry m) ident = a \<and> map_of (mResults m) ident = b \<and>
     map_option ((!) (hResults m)) b = c \<and> id_log ident m = l"
  by (auto simp: vw_def)

section \<open>Sample runs\<close>

text \<open>A request, and the run of its whole life: started, waited for, exited.\<close>

definition sample_caps :: capabilities where
  "sample_caps = \<lparr>PTY = False, StreamingStdio = False, JsonRpcStdio = False, ServeHTTP = False,
     CapResize = False, ProviderSessionID = False, CheckpointResume = False, BinaryRequired = False\<rparr>"

definition sample_options :: start_options where
  "sample_options = \<lparr>optWorkdir = ''/w'', optWorkspaceDir = '''', optLogPath = '''', optBootPrompt = '''',
     optBootContent = '''', optPlantContext = \<lparr>pcSystemPrompt = '''', pcBootContent = '''',
       pcProjectDir = '''', pcBootDir = '''', pcCaller = []\<rparr>,
     optBootMode = '''', optEnv = [], optStderr = False, optExtraFiles = [], optProfileID = '''',
     optFanout = None, optEventFanout = False, optSessionIDPreset = '''', optOnSessionID = False,
     optAttachEnabled = False, optRingBytes = 0, optSubscriberDepth = 0, optAutoFireFirstTurn = False,
     optFirstTurnPayload = '''', optTypedEventCallback = False, optSupervisor = None,
     optJsonRpcNotificationHook = False, optJsonRpcRequestHook = False, optAutoPlantBootDir = False,
     optBootDirRoot = '''', optOnBootDirPlanted = False, optExtraArgs = [], optResourceLimits = None\<rparr>"

definition sample_req :: "string \<Rightarrow> start_request" where
  "sample_req ident = \<lparr>srID = ident, srRuntime = Some \<lparr>rtID = ''r'', rtKind = ''cli'', rtCaps = sample_caps\<rparr>,
     srOptions = sample_options, srMeta = []\<rparr>"

text \<open>The steps of \<open>Start\<close> by goroutine \<open>i\<close> up to its registration.\<close>

definition start_run :: "nat \<Rightarrow> action list" where
  "start_run i = [Step i ANone, Step i ANone, Step i (AStarted 0), Step i (APid 42), Step i ANone]"

text \<open>The steps of the watch goroutine \<open>i\<close> of a session that exits with \<open>code\<close>.\<close>

definition watch_run :: "nat \<Rightarrow> int \<Rightarrow> action list" where
  "watch_run i code = [Step i (AWaited code None), Step i ANone, Step i (APid 0), Step i ANone, Step i ANone, Step i ANone]"

lemmas run_defs = start_run_def watch_run_def wstep_def start_check_def start_launch_def Let_def
  start_running_def start_register_def start_failed_def close_broker_ref_def watch_unregister_def
  watch_record_def watch_deliver_def wg_done_def shutdown_mark_def shutdown_wait_def wait_lookup_def
  wait_select_def mgrStop_def lookup_entry_def emit_def recordState_def
  sample_req_def sample_options_def sample_caps_def new_world_def NewManager_def
  WithEventSink_def WithAttachmentSink_def al_put_def upd_at_def

section \<open>Safety\<close>

text \<open>C6.
  No Manager method panics, in any interleaving of any calls with any behaviour of
  the sessions, the runtimes, the contexts and the attach clients, as long as no
  session id is started twice: no result is delivered twice, the wait group never
  goes negative, no channel of an attach broker is closed twice or sent to after
  its close.
\<close>

theorem manager_never_panics:
  assumes "distinct (begun as)"
  shows "wrun as (new_world s a e) \<noteq> Panic"
  using life_run[OF new_world_ok life_new_world assms] by auto

lemma manager_never_panics_witness:
  "wrun ([Begin (CallStart (sample_req ''a'')), Begin (CallStart (sample_req ''b''))] @ start_run 0 @ start_run 1)
     (new_world True False False) \<noteq> Panic"
  by (rule manager_never_panics) (simp add: sample_req_def start_run_def)


text \<open>C7.
  The state sink sees, for each session id, one of these histories and nothing
  else: launching; then failed with exit 1 (the runtime refused) or running; then
  done or failed with the exit code of the session, failed only with a non-zero
  code.
\<close>

theorem manager_sink_grammar:
  assumes "distinct (begun as)" "wrun as (new_world True a e) = Next w"
  shows "id_log ident (wMgr w) \<in>
     {[], [(StateLaunching, None)], [(StateLaunching, None), (StateFailed, Some 1)],
      [(StateLaunching, None), (StateRunning, None)]} \<union>
     {l. \<exists>st code. l = [(StateLaunching, None), (StateRunning, None), (st, Some code)] \<and>
         (st = StateDone \<or> st = StateFailed \<and> code \<noteq> 0)}"
  using life_cases[OF fresh_run(2)[OF assms], where ident = ident]
  by cases (auto simp: vw_eq lg_def terminal_def delivered_def)

lemma manager_sink_grammar_witness:
  "\<exists>w. wrun ([Begin (CallStart (sample_req ''a''))] @ start_run 0 @ watch_run 1 3) (new_world True False False) = Next w \<and>
     id_log ''a'' (wMgr w) \<in>
     {[], [(StateLaunching, None)], [(StateLaunching, None), (StateFailed, Some 1)],
      [(StateLaunching, None), (StateRunning, None)]} \<union>
     {l. \<exists>st code. l = [(StateLaunching, None), (StateRunning, None), (st, Some code)] \<and>
         (st = StateDone \<or> st = StateFailed \<and> code \<noteq> 0)}"
proof -
  let ?as = "[Begin (CallStart (sample_req ''a''))] @ start_run 0 @ watch_run 1 3"
  have d: "distinct (begun ?as)" by (simp add: start_run_def watch_run_def)
  obtain w where w: "wrun ?as (new_world True False False) = Next w" by (simp add: run_defs)
  show ?thesis using manager_sink_grammar[OF d w] w by blast
qed

text \<open>
  An id is in the registry exactly while its watch goroutine is before the
  unregistration, and the wait group always counts the live watch goroutines.
\<close>

theorem manager_registered_iff_watched:
  assumes "distinct (begun as)" "wrun as (new_world s a e) = Next w"
  shows "mWg (wMgr w) = int (length (filter is_watch (wThreads w))) \<and>
    (map_of (mRegistry (wMgr w)) ident \<noteq> None \<longleftrightarrow>
      (\<exists>p \<in> set (wThreads w). (\<exists>x br. p = PWait ident x br) \<or> (\<exists>br code err. p = PUnreg ident br code err)))"
proof -
  have l: "life_id s (ident \<in> set (begun as)) ident w" using fresh_run(2)[OF assms] by (simp add: life_def)
  have "map_of (mRegistry (wMgr w)) ident \<noteq> None \<longleftrightarrow>
      (\<exists>p \<in> set (filter (carries ident) (wThreads w)).
         (\<exists>x br. p = PWait ident x br) \<or> (\<exists>br code err. p = PUnreg ident br code err))"
  proof (cases "filter (carries ident) (wThreads w)")
    case Nil
    then show ?thesis using l
      by (auto simp: life_id_def finished_def blank_def delivered_def vw_eq split: if_splits)
  next
    case (Cons p ps)
    then have p: "filter (carries ident) (wThreads w) = [p]" "phase s p (vw ident (wMgr w))"
      using l by (auto simp: life_id_def split: list.splits)
    then have "p \<in> set (filter (carries ident) (wThreads w))" by simp
    then have "carries ident p" by simp
    then show ?thesis using p
      by (cases p) (auto simp: carries_def blank_def delivered_def vw_eq)
  qed
  moreover have "(\<exists>p \<in> set (filter (carries ident) (wThreads w)). Q p) \<longleftrightarrow> (\<exists>p \<in> set (wThreads w). Q p)"
    if "\<And>p. Q p \<Longrightarrow> carries ident p" for Q
    using that by auto
  from this[of "\<lambda>p. (\<exists>x br. p = PWait ident x br) \<or> (\<exists>br code err. p = PUnreg ident br code err)"]
  have "(\<exists>p \<in> set (filter (carries ident) (wThreads w)).
         (\<exists>x br. p = PWait ident x br) \<or> (\<exists>br code err. p = PUnreg ident br code err)) \<longleftrightarrow>
      (\<exists>p \<in> set (wThreads w). (\<exists>x br. p = PWait ident x br) \<or> (\<exists>br code err. p = PUnreg ident br code err))"
    by (fastforce simp: carries_def)
  ultimately show ?thesis using fresh_run(1)[OF assms] by (simp add: world_ok_def)
qed

lemma manager_registered_iff_watched_witness:
  "\<exists>w. wrun ([Begin (CallStart (sample_req ''a''))] @ start_run 0) (new_world True False False) = Next w \<and>
     mWg (wMgr w) = int (length (filter is_watch (wThreads w)))"
proof -
  let ?as = "[Begin (CallStart (sample_req ''a''))] @ start_run 0"
  have d: "distinct (begun ?as)" by (simp add: start_run_def)
  obtain w where w: "wrun ?as (new_world True False False) = Next w" by (simp add: run_defs)
  show ?thesis using manager_registered_iff_watched[OF d w, of "[]"] w by blast
qed

text \<open>C9.
  What \<open>WaitSession\<close> returns when its context is not cancelled is the exit code of
  the session's one terminal update in the sink; and by then the session is no
  longer registered.
\<close>

theorem wait_session_returns_terminal_code:
  assumes "distinct (begun as)" "wrun as (new_world True a e) = Next w"
    and "wait_lookup ident (wMgr w) = Inr r" "wait_select r False (wMgr w) = Some (code, err)"
  shows "\<exists>st. id_log ident (wMgr w) = [(StateLaunching, None), (StateRunning, None), (st, Some code)] \<and>
     terminal st code \<and> map_of (mRegistry (wMgr w)) ident = None"
  using life_cases[OF fresh_run(2)[OF assms(1,2)], where ident = ident] assms(3,4)
  by cases (auto simp: vw_eq lg_def delivered_def wait_lookup_def wait_select_def split: option.splits if_splits)

lemma wait_session_returns_terminal_code_witness:
  "\<exists>w st. wrun ([Begin (CallStart (sample_req ''a''))] @ start_run 0 @ watch_run 1 3) (new_world True False False) = Next w \<and>
     id_log ''a'' (wMgr w) = [(StateLaunching, None), (StateRunning, None), (st, Some 3)]"
proof -
  let ?as = "[Begin (CallStart (sample_req ''a''))] @ start_run 0 @ watch_run 1 3"
  have d: "distinct (begun ?as)" by (simp add: start_run_def watch_run_def)
  obtain w where w: "wrun ?as (new_world True False False) = Next w"
    "wait_lookup ''a'' (wMgr w) = Inr 0" "wait_select 0 False (wMgr w) = Some (3, None)"
    by (simp add: run_defs)
  show ?thesis using wait_session_returns_terminal_code[OF d w] w(1) by blast
qed

text \<open>C13.
  Input is serialized: at any moment at most one goroutine is between the lock and
  the unlock of a session entry, so no two \<open>SendInput\<close> calls of one session
  overlap; and the lock is free exactly if there is none.
\<close>

theorem manager_input_serialized:
  assumes "wrun as (new_world s a e) = Next w" "n < length (hEntries (wMgr w))"
  shows "length (filter (holds_input n) (wThreads w)) \<le> 1 \<and>
     (enInputMu (hEntries (wMgr w) ! n) \<longleftrightarrow> (\<exists>p \<in> set (wThreads w). holds_input n p))"
proof -
  have "length (filter (holds_input n) (wThreads w)) = of_bool (enInputMu (hEntries (wMgr w) ! n))"
    using base_run[OF assms(1)] assms(2) by (simp add: input_ok_def)
  moreover have "(\<exists>p \<in> set (wThreads w). holds_input n p) \<longleftrightarrow> 0 < length (filter (holds_input n) (wThreads w))"
    by (auto simp: filter_empty_conv)
  ultimately show ?thesis by simp
qed

lemma manager_input_serialized_witness:
  "\<exists>w. wrun ([Begin (CallStart (sample_req ''a''))] @ start_run 0) (new_world True False False) = Next w \<and>
     length (filter (holds_input 0) (wThreads w)) \<le> 1"
proof -
  let ?as = "[Begin (CallStart (sample_req ''a''))] @ start_run 0"
  obtain w where w: "wrun ?as (new_world True False False) = Next w" "0 < length (hEntries (wMgr w))"
    by (simp add: run_defs)
  show ?thesis using manager_input_serialized[OF w] w by blast
qed

section \<open>Shutdown\<close>

definition stopped_ok :: "world \<Rightarrow> bool" where
  "stopped_ok w \<longleftrightarrow> (PShutdownWait \<in> set (wThreads w) \<longrightarrow> mStopped (wMgr w))"

definition quiet :: "world \<Rightarrow> bool" where
  "quiet w \<longleftrightarrow> mStopped (wMgr w) \<and> \<not> (\<exists>p \<in> set (wThreads w). is_watch p)"

lemma close_broker_ref_stopped: "close_broker_ref br m = Some m' \<Longrightarrow> mStopped m' = mStopped m"
  by (auto simp: close_broker_ref_def split: option.splits)

lemma tstep_stopped:
  assumes "tstep p a m = Next (p', new, m')"
  shows "(mStopped m \<longrightarrow> mStopped m') \<and> (p' = PShutdownWait \<longrightarrow> p \<noteq> PShutdownWait \<longrightarrow> mStopped m') \<and>
     PShutdownWait \<notin> set new \<and>
     (mStopped m \<longrightarrow> \<not> is_watch p \<longrightarrow> \<not> is_watch p' \<and> new = [])"
proof (cases p)
  case (PFailed req br e)
  then show ?thesis using assms
    by (auto simp: start_failed_def dest: close_broker_ref_stopped split: option.splits)
next
  case (PRefused br x)
  then show ?thesis using assms by (auto dest: close_broker_ref_stopped)
next
  case (PClose ident br code e res)
  then show ?thesis using assms by (auto dest: close_broker_ref_stopped)
next
  case (PRegister req br x pid)
  then show ?thesis using assms by (auto simp: start_register_def split: if_splits)
next
  case (PAttSub e aid opts)
  then show ?thesis using assms by (auto simp: attach_subscribe_def Let_def split: prod.splits)
next
  case (PAttCancel e aid c x)
  then show ?thesis using assms
    by (auto simp: attach_cancel_def Let_def split: option.splits prod.splits)
qed (use assms in \<open>auto simp: start_launch_def Let_def start_running_def watch_unregister_def
    watch_record_def watch_deliver_def wg_done_def mgrStop_def input_lock_def input_unlock_def
    attach_create_def attach_inc_def attach_dec_def attach_detach_def shutdown_mark_def
    split: option.splits prod.splits sum.splits ans.splits bool.splits if_splits\<close>)

lemma begin_call_not_waiting [simp]: "begin_call c \<noteq> PShutdownWait"
  by (cases c) auto

lemma stopped_step:
  assumes "wstep act w = Next w'"
  shows "(stopped_ok w \<longrightarrow> stopped_ok w') \<and> (quiet w \<longrightarrow> quiet w')"
proof (cases act)
  case (Begin c)
  then show ?thesis using assms
    by (auto simp: wstep_def stopped_ok_def quiet_def dest: begin_call_not_waiting[THEN notE, OF sym])
next
  case (Step i a)
  from assms[unfolded Step] obtain p new m where
    s: "i < length (wThreads w)" "tstep (wThreads w ! i) a (wMgr w) = Next (p, new, m)"
      "w' = \<lparr>wMgr = m, wThreads = (wThreads w)[i := p] @ new\<rparr>" by (rule wstep_Step_E)
  have sub: "x = p \<or> x \<in> set (wThreads w)" if "x \<in> set ((wThreads w)[i := p])" for x
    using that set_update_subset_insert[of "wThreads w" i p] by auto
  have mem: "wThreads w ! i \<in> set (wThreads w)" using s(1) by simp
  note t = tstep_stopped[OF s(2)]
  have "stopped_ok w \<Longrightarrow> stopped_ok w'"
    using t mem s(3) unfolding stopped_ok_def by (auto dest!: sub)
  moreover have "quiet w \<Longrightarrow> quiet w'"
    using t mem s(3) unfolding quiet_def by (auto dest!: sub)
  ultimately show ?thesis by blast
next
  case (BrokerOp r x)
  then show ?thesis using assms by (auto simp: stopped_ok_def quiet_def elim!: wstep_BrokerOp_E)
qed

lemma stopped_run: "wrun as (new_world s b c) = Next w \<Longrightarrow> stopped_ok w"
  by (rule wrun_invariant[where P = stopped_ok])
    (auto dest: stopped_step simp: stopped_ok_def new_world_def)

lemma quiet_run: "wrun bs w = Next w' \<Longrightarrow> quiet w \<Longrightarrow> quiet w'"
  by (rule wrun_invariant[where P = quiet]) (auto dest: stopped_step)

lemma quiet_all_over:
  assumes "life s U w" "quiet w"
  shows "map_of (mRegistry (wMgr w)) ident = None \<and>
     (\<forall>r. map_of (mResults (wMgr w)) ident = Some r \<longrightarrow> rsDone (hResults (wMgr w) ! r))"
  using life_cases[OF assms(1), where ident = ident]
proof cases
  case (2 e r c p)
  then have "p \<in> set (filter (carries ident) (wThreads w))" by simp
  then show ?thesis using 2(4) assms(2) by (auto simp: quiet_def)
next
  case (3 r c l p)
  then have "p \<in> set (filter (carries ident) (wThreads w))" by simp
  then show ?thesis using 3(5) assms(2) by (auto simp: quiet_def)
qed (auto simp: vw_eq delivered_def)

text \<open>C8.
  When the waiting part of \<open>Shutdown\<close> returns without its context having ended, no
  session is registered, every session that ever was has its result delivered (so
  its terminal state is recorded and \<open>WaitSession\<close> on it does not block), and this
  stays so whatever is called afterwards: nothing is registered any more.
\<close>

theorem shutdown_drains:
  assumes "distinct (begun (as @ [Step i ANone] @ bs))" "wrun as (new_world s a e) = Next w"
    and "i < length (wThreads w)" "wThreads w ! i = PShutdownWait"
    and "wstep (Step i ANone) w = Next w'" "wrun bs w' = Next w''"
  shows "wThreads w' ! i = PReturned (RetErr None) \<and>
     map_of (mRegistry (wMgr w'')) ident = None \<and>
     (\<forall>r. map_of (mResults (wMgr w'')) ident = Some r \<longrightarrow> rsDone (hResults (wMgr w'') ! r))"
proof -
  have ret: "w' = w\<lparr>wThreads := (wThreads w)[i := PReturned (RetErr None)]\<rparr>" "mWg (wMgr w) = 0"
    using assms(3-5) by (auto simp: wstep_def shutdown_wait_def split: if_splits)
  have ok: "world_ok w" "stopped_ok w" using base_run[OF assms(2)] stopped_run[OF assms(2)] by auto
  have st: "mStopped (wMgr w)" using ok(2) assms(3,4) nth_mem[OF assms(3)] by (simp add: stopped_ok_def)
  have "filter is_watch (wThreads w) = []" using ok(1) ret(2) by (simp add: world_ok_def)
  then have "quiet w" using st by (auto simp: quiet_def filter_empty_conv)
  then have "quiet w'" using stopped_step[OF assms(5)] by blast
  then have q: "quiet w''" by (rule quiet_run[OF assms(6)])
  have "wrun (as @ [Step i ANone] @ bs) (new_world s a e) = Next w''"
    using assms(2,5,6) by (simp add: wrun_append)
  from quiet_all_over[OF fresh_run(2)[OF assms(1) this] q] show ?thesis
    using ret(1) assms(3) by simp
qed

lemma shutdown_drains_witness:
  "\<exists>w w'. wrun ([Begin (CallStart (sample_req ''a'')), Begin CallShutdown] @ start_run 0 @ [Step 1 ANone] @ watch_run 2 0)
       (new_world True False False) = Next w \<and>
     wstep (Step 1 ANone) w = Next w' \<and> map_of (mRegistry (wMgr w')) ''a'' = None"
proof -
  let ?as = "[Begin (CallStart (sample_req ''a'')), Begin CallShutdown] @ start_run 0 @ [Step 1 ANone] @ watch_run 2 0"
  have d: "distinct (begun (?as @ [Step 1 ANone] @ []))" by (simp add: start_run_def watch_run_def)
  obtain w w' where w: "wrun ?as (new_world True False False) = Next w" "1 < length (wThreads w)"
    "wThreads w ! 1 = PShutdownWait" "wstep (Step 1 ANone) w = Next w'"
    by (simp add: run_defs)
  have "wrun [] w' = Next w'" by simp
  from shutdown_drains[OF d w(1-4) this, of "''a''"] w show ?thesis by blast
qed


section \<open>Single operations\<close>

text \<open>C19.
  \<open>Stop\<close> makes a registered session end as done: after it, whatever the exit code,
  the watch goroutine's unregistration reports the killing flag and records
  \<open>done\<close>; the call goes to the session of that id; an unknown id is
  \<open>ErrSessionNotRunning\<close> and changes nothing.
\<close>

theorem stop_marks_done:
  assumes "heap_ok m"
  shows "(map_of (mRegistry m) ident = None \<longrightarrow> mgrStop ident m = (Inl ErrSessionNotRunning, m)) \<and>
     (\<forall>e. map_of (mRegistry m) ident = Some e \<longrightarrow>
        (\<exists>m'. mgrStop ident m = (Inr (enSess (hEntries m ! e)), m') \<and>
           mRegistry m' = mRegistry m \<and>
           fst (fst (watch_unregister ident m')) = True \<and>
           watch_state (fst (fst (watch_unregister ident m'))) code = StateDone))"
  using heap_ok_D(3)[OF assms]
  by (auto simp: mgrStop_def lookup_entry_def watch_unregister_def watch_state_def)

lemma stop_marks_done_witness:
  "mgrStop ''x'' (NewManager True) = (Inl ErrSessionNotRunning, NewManager True)"
proof -
  have "heap_ok (NewManager True)" by (simp add: heap_ok_def NewManager_def)
  moreover have "map_of (mRegistry (NewManager True)) ''x'' = None" by (simp add: NewManager_def)
  ultimately show ?thesis using stop_marks_done[of "NewManager True" "''x''"] by blast
qed

text \<open>C20.
  In every reachable state \<open>List\<close> returns exactly the snapshots \<open>Get\<close> gives for the
  registered ids, one each.
\<close>

theorem list_agrees_with_get:
  assumes "wrun as (new_world s a e) = Next w"
  shows "set (mgrList (wMgr w)) = {info. \<exists>ident. mgrGet ident (wMgr w) = Some info} \<and>
     length (mgrList (wMgr w)) = card (dom (\<lambda>ident. mgrGet ident (wMgr w)))"
proof -
  have d: "distinct (map fst (mRegistry (wMgr w)))"
    using base_run[OF assms] by (simp add: world_ok_def heap_ok_def)
  have dom: "dom (\<lambda>ident. mgrGet ident (wMgr w)) = set (map fst (mRegistry (wMgr w)))"
    by (auto simp: mgrGet_def lookup_entry_def dom_def map_of_eq_None_iff dest: map_of_SomeD
        intro: weak_map_of_SomeI)
  have "length (mgrList (wMgr w)) = card (set (map fst (mRegistry (wMgr w))))"
    using distinct_card[OF d] by (simp add: mgrList_def)
  then show ?thesis using d dom
    by (force simp: mgrList_def mgrGet_def lookup_entry_def)
qed

lemma list_agrees_with_get_witness:
  "\<exists>w. wrun ([Begin (CallStart (sample_req ''a''))] @ start_run 0) (new_world True False False) = Next w \<and>
     length (mgrList (wMgr w)) = card (dom (\<lambda>ident. mgrGet ident (wMgr w)))"
proof -
  let ?as = "[Begin (CallStart (sample_req ''a''))] @ start_run 0"
  obtain w where w: "wrun ?as (new_world True False False) = Next w" by (simp add: run_defs)
  show ?thesis using list_agrees_with_get[OF w] w by blast
qed

end
