(* ===== verification/Go_Paths.thy ===== *)
theory Go_Paths imports Go_Strings "HOL-Library.Sublist" begin

text \<open>
  \<open>path/filepath\<close> on unix: \<open>Clean\<close>, \<open>Join\<close>, \<open>Dir\<close>.  A cleaned path is its rooted
  flag and its elements; \<open>path_text\<close> is the string Go has.
\<close>

type_synonym gopath = "bool \<times> string list"

fun split_on :: "char \<Rightarrow> string \<Rightarrow> string list" where
  "split_on c [] = [[]]"
| "split_on c (x # xs) =
     (if x = c then [] # split_on c xs
      else case split_on c xs of [] \<Rightarrow> [[x]] | y # ys \<Rightarrow> (x # y) # ys)"

fun join_with :: "string \<Rightarrow> string list \<Rightarrow> string" where
  "join_with sep [] = []"
| "join_with sep [x] = x"
| "join_with sep (x # y # ys) = x @ sep @ join_with sep (y # ys)"

text \<open>
  One element at a time, as \<open>Clean\<close> does: empty elements and \<open>.\<close> vanish, \<open>..\<close> takes
  the last real element away, vanishes at the root and stays at the front of a
  relative path.  The accumulator is reversed.
\<close>

fun clean_elems :: "bool \<Rightarrow> string list \<Rightarrow> string list \<Rightarrow> string list" where
  "clean_elems rooted acc [] = rev acc"
| "clean_elems rooted acc (x # xs) =
     (if x = '''' \<or> x = ''.'' then clean_elems rooted acc xs
      else if x = ''..'' then
        (case acc of
           [] \<Rightarrow> clean_elems rooted (if rooted then [] else [''..'']) xs
         | a # as \<Rightarrow> if a = ''..'' then clean_elems rooted (''..'' # acc) xs else clean_elems rooted as xs)
      else clean_elems rooted (x # acc) xs)"

definition clean_path :: "string \<Rightarrow> gopath" where
  "clean_path p =
     (let rooted = has_prefix p ''/'' in (rooted, clean_elems rooted [] (split_on (CHR ''/'') p)))"

definition path_text :: "gopath \<Rightarrow> string" where
  "path_text p =
     (if fst p then CHR ''/'' # join_with ''/'' (snd p)
      else if snd p = [] then ''.'' else join_with ''/'' (snd p))"

text \<open>\<open>filepath.Join(base, rel)\<close> for a cleaned, non-empty base.\<close>

definition join_path :: "gopath \<Rightarrow> string \<Rightarrow> gopath" where
  "join_path base rel =
     (fst base, clean_elems (fst base) (rev (snd base)) (split_on (CHR ''/'') rel))"

text \<open>\<open>filepath.Dir\<close> of a cleaned path.\<close>

definition dir_path :: "gopath \<Rightarrow> gopath" where
  "dir_path p = (fst p, butlast (snd p))"

definition under :: "gopath \<Rightarrow> gopath \<Rightarrow> bool" where
  "under d p \<longleftrightarrow> fst d = fst p \<and> prefix (snd d) (snd p)"

lemma under_refl [simp]: "under d d"
  by (simp add: under_def)

lemma under_trans: "under a b \<Longrightarrow> under b c \<Longrightarrow> under a c"
  by (auto simp: under_def intro: prefix_order.trans)

definition real_elem :: "string \<Rightarrow> bool" where
  "real_elem x \<longleftrightarrow> x \<noteq> '''' \<and> x \<noteq> ''.''"

text \<open>A relative path is local when none of its elements is \<open>..\<close>.\<close>

definition local_rel :: "string \<Rightarrow> bool" where
  "local_rel rel \<longleftrightarrow> ''..'' \<notin> set (split_on (CHR ''/'') rel)"

lemma clean_elems_local:
  "''..'' \<notin> set xs \<Longrightarrow> clean_elems r acc xs = rev acc @ filter real_elem xs"
  by (induction xs arbitrary: acc) (auto simp: real_elem_def)

lemma join_path_local:
  "local_rel rel \<Longrightarrow> join_path d rel = (fst d, snd d @ filter real_elem (split_on (CHR ''/'') rel))"
  by (simp add: join_path_def local_rel_def clean_elems_local)

lemma under_join_local: "local_rel rel \<Longrightarrow> under d (join_path d rel)"
  by (simp add: join_path_local under_def)

lemma split_on_no_sep: "x \<in> set (split_on c p) \<Longrightarrow> c \<notin> set x"
  by (induction p arbitrary: x) (auto split: list.splits if_splits)

end
