(* ===== verification/Utf8.thy ===== *)
theory Utf8 imports Go_Strings begin

text \<open>
  Facts on the rune decoder of \<open>Go_Strings\<close> and the encoder that is its inverse on
  valid UTF-8.
\<close>

definition utf8_encode :: "nat \<Rightarrow> string" where
  "utf8_encode r =
     map char_of
      (if r < 128 then [r]
       else if r < 2048 then [192 + r div 64, 128 + r mod 64]
       else if r < 65536 then [224 + r div 4096, 128 + r div 64 mod 64, 128 + r mod 64]
       else [240 + r div 262144, 128 + r div 4096 mod 64, 128 + r div 64 mod 64, 128 + r mod 64])"

section \<open>Ranges of runes\<close>

lemma mod_in_block: "k * n \<le> b \<Longrightarrow> b < k * n + n \<Longrightarrow> b mod n = b - k * n" for b n k :: nat
  by (rule mod_nat_eqI) auto

lemma utf8_lead2: "utf8_len b = 2 \<Longrightarrow> 128 \<le> (b mod 32) * 64"
  using mod_in_block[of 6 32 b] by (auto simp: utf8_len_def split: if_splits)

lemma utf8_lead3:
  assumes "utf8_len b = 3" "utf8_second b x"
  shows "128 \<le> (b mod 16) * 4096 + (x mod 64) * 64"
proof (cases "b = 224")
  case True
  then have "x mod 64 = x - 128" "160 \<le> x"
    using assms(2) mod_in_block[of 2 64 x] by (auto simp: utf8_second_def)
  then show ?thesis by simp
next
  case False
  then have "b mod 16 = b - 224" "224 < b"
    using assms(1) mod_in_block[of 14 16 b] by (auto simp: utf8_len_def split: if_splits)
  then show ?thesis by simp
qed

lemma utf8_lead4:
  assumes "utf8_len b = 4" "utf8_second b x"
  shows "128 \<le> (b mod 8) * 262144 + (x mod 64) * 4096"
proof (cases "b = 240")
  case True
  then have "x mod 64 = x - 128" "144 \<le> x"
    using assms(2) mod_in_block[of 2 64 x] by (auto simp: utf8_second_def)
  then show ?thesis by simp
next
  case False
  then have "b mod 8 = b - 240" "240 < b"
    using assms(1) mod_in_block[of 30 8 b] by (auto simp: utf8_len_def split: if_splits)
  then show ?thesis by simp
qed

lemma utf8_len_cases: "utf8_len b = 0 \<or> utf8_len b = 1 \<or> utf8_len b = 2 \<or> utf8_len b = 3 \<or> utf8_len b = 4"
  by (simp add: utf8_len_def)

lemma decode_rune_multi:
  assumes "utf8_len (of_char c) \<noteq> 1"
  shows "128 \<le> fst (decode_rune (c # cs))"
proof -
  define b where "b = (of_char c :: nat)"
  consider "utf8_len b = 0" | "utf8_len b = 2" | "utf8_len b = 3" | "utf8_len b = 4"
    using assms utf8_len_cases[of b] by (auto simp: b_def)
  then show ?thesis
  proof cases
    case 1
    then show ?thesis by (simp add: b_def[symmetric] Let_def rune_error_def)
  next
    case 2
    then show ?thesis using utf8_lead2[OF 2]
      by (simp add: b_def[symmetric] Let_def rune_error_def split: list.split)
  next
    case 3
    have "128 \<le> (b mod 16) * 4096 + (x mod 64) * 64 + y" if "utf8_second b x" for x y
      using utf8_lead3[OF 3 that] by simp
    then show ?thesis using 3
      by (simp add: b_def[symmetric] Let_def rune_error_def split: list.split)
  next
    case 4
    have "128 \<le> (b mod 8) * 262144 + (x mod 64) * 4096 + y + z" if "utf8_second b x" for x y z
      using utf8_lead4[OF 4 that] by simp
    then show ?thesis using 4
      by (simp add: b_def[symmetric] Let_def rune_error_def split: list.split)
  qed
qed

lemma decode_rune_small:
  assumes "fst (decode_rune s) < 128"
  shows "s \<noteq> [] \<and> decode_rune s = (of_char (hd s), 1)"
proof (cases s)
  case Nil
  then show ?thesis using assms by (simp add: rune_error_def)
next
  case (Cons c cs)
  have "utf8_len (of_char c) = 1" using assms Cons decode_rune_multi[of c cs] by (metis not_le)
  then show ?thesis using Cons by (simp add: Let_def)
qed

lemma runes_small: "(r, b) \<in> set (runes s) \<Longrightarrow> r < 128 \<Longrightarrow> b = [char_of r]"
proof (induction s rule: runes.induct)
  case (1 s)
  show ?case
  proof (cases "s = []")
    case True
    then show ?thesis using "1.prems" by simp
  next
    case False
    let ?d = "decode_rune s"
    have "runes s = (fst ?d, take (snd ?d) s) # runes (drop (snd ?d) s)"
      using False by (subst runes.simps) (simp add: Let_def del: decode_rune.simps)
    then consider "r = fst ?d" "b = take (snd ?d) s" | "(r, b) \<in> set (runes (drop (snd ?d) s))"
      using "1.prems"(1) by (auto simp del: decode_rune.simps)
    then show ?thesis
    proof cases
      case 1
      then have d: "?d = (of_char (hd s), 1)" using decode_rune_small "1.prems"(2) by simp
      then show ?thesis using 1 False by (cases s) (simp_all del: decode_rune.simps)
    next
      case 2
      then show ?thesis using "1.IH" False "1.prems"(2) by blast
    qed
  qed
qed

section \<open>Decoding and encoding\<close>

lemma div_4096: "r div 4096 = r div 64 div 64" for r :: nat
  by (simp flip: div_mult2_eq)

lemma div_262144: "r div 262144 = r div 64 div 64 div 64" for r :: nat
  by (simp flip: div_mult2_eq)

lemma pack64: "z < 64 \<Longrightarrow> (w * 64 + z) div 64 = w" "z < 64 \<Longrightarrow> (w * 64 + z) mod 64 = z" for w z :: nat
  using div_mult_self3[of 64 w z] mod_mult_self3[of w 64 z] by simp_all

lemma unpack3:
  assumes "y < 64" "z < (64 :: nat)"
  shows "(x * 4096 + y * 64 + z) div 4096 = x \<and> (x * 4096 + y * 64 + z) div 64 mod 64 = y \<and>
     (x * 4096 + y * 64 + z) mod 64 = z"
proof -
  have r: "x * 4096 + y * 64 + z = (x * 64 + y) * 64 + z" by simp
  have "((x * 64 + y) * 64 + z) div 64 = x * 64 + y" "((x * 64 + y) * 64 + z) mod 64 = z"
    "(x * 64 + y) div 64 = x" "(x * 64 + y) mod 64 = y" using assms by (simp_all only: pack64)
  then show ?thesis unfolding r div_4096 by metis
qed

lemma unpack4:
  assumes "y < 64" "z < 64" "u < (64 :: nat)"
  shows "(x * 262144 + y * 4096 + z * 64 + u) div 262144 = x \<and>
     (x * 262144 + y * 4096 + z * 64 + u) div 4096 mod 64 = y \<and>
     (x * 262144 + y * 4096 + z * 64 + u) div 64 mod 64 = z \<and>
     (x * 262144 + y * 4096 + z * 64 + u) mod 64 = u"
proof -
  have r: "x * 262144 + y * 4096 + z * 64 + u = ((x * 64 + y) * 64 + z) * 64 + u" by simp
  have "(((x * 64 + y) * 64 + z) * 64 + u) div 64 = (x * 64 + y) * 64 + z"
    "(((x * 64 + y) * 64 + z) * 64 + u) mod 64 = u"
    "((x * 64 + y) * 64 + z) div 64 = x * 64 + y" "((x * 64 + y) * 64 + z) mod 64 = z"
    "(x * 64 + y) div 64 = x" "(x * 64 + y) mod 64 = y" using assms by (simp_all only: pack64)
  then show ?thesis unfolding r div_4096 div_262144 by metis
qed

lemma cont_mod: "128 \<le> b \<Longrightarrow> b \<le> 191 \<Longrightarrow> b mod 64 = b - 128" for b :: nat
  using mod_in_block[of 2 64 b] by simp

lemma cont_second: "utf8_second b c \<Longrightarrow> 128 \<le> c \<and> c \<le> 191"
  by (auto simp: utf8_second_def split: if_splits)

text \<open>A valid multi-byte sequence is the encoding of its rune.\<close>

lemma encode2:
  assumes "utf8_len b = 2" "utf8_second b b1"
  shows "utf8_encode ((b mod 32) * 64 + b1 mod 64) = map char_of [b, b1]"
proof -
  have b: "194 \<le> b" "b < 224" using assms(1) by (auto simp: utf8_len_def split: if_splits)
  then have m: "b mod 32 = b - 192" using mod_in_block[of 6 32 b] by simp
  note c = cont_second[OF assms(2)]
  let ?r = "(b mod 32) * 64 + b1 mod 64"
  have "?r div 64 = b mod 32" "?r mod 64 = b1 mod 64" by simp_all
  moreover have "128 \<le> ?r" "?r < 2048" using m b by auto
  ultimately show ?thesis using m b c cont_mod[of b1] by (simp add: utf8_encode_def)
qed

lemma encode3:
  assumes "utf8_len b = 3" "utf8_second b b1" "utf8_cont b2"
  shows "utf8_encode ((b mod 16) * 4096 + (b1 mod 64) * 64 + b2 mod 64) = map char_of [b, b1, b2]"
proof -
  have b: "224 \<le> b" "b < 240" using assms(1) by (auto simp: utf8_len_def split: if_splits)
  then have m: "b mod 16 = b - 224" using mod_in_block[of 14 16 b] by simp
  note c = cont_second[OF assms(2)]
  have d: "128 \<le> b2" "b2 \<le> 191" using assms(3) by (auto simp: utf8_cont_def)
  let ?r = "(b mod 16) * 4096 + (b1 mod 64) * 64 + b2 mod 64"
  have q: "?r div 4096 = b mod 16" "?r div 64 mod 64 = b1 mod 64" "?r mod 64 = b2 mod 64"
    using unpack3[of "b1 mod 64" "b2 mod 64" "b mod 16"] by simp_all
  have "2048 \<le> ?r"
  proof (cases "b = 224")
    case True
    then have "160 \<le> b1" using assms(2) by (simp add: utf8_second_def)
    then show ?thesis using cont_mod[of b1] c by simp
  next
    case False
    then show ?thesis using m b by simp
  qed
  moreover have "?r < 65536" using m b by simp
  ultimately show ?thesis using m b c d cont_mod[of b1] cont_mod[of b2] q by (simp add: utf8_encode_def)
qed

lemma encode4:
  assumes "utf8_len b = 4" "utf8_second b b1" "utf8_cont b2" "utf8_cont b3"
  shows "utf8_encode ((b mod 8) * 262144 + (b1 mod 64) * 4096 + (b2 mod 64) * 64 + b3 mod 64) =
     map char_of [b, b1, b2, b3]"
proof -
  have b: "240 \<le> b" "b < 245" using assms(1) by (auto simp: utf8_len_def split: if_splits)
  then have m: "b mod 8 = b - 240" using mod_in_block[of 30 8 b] by simp
  note c = cont_second[OF assms(2)]
  have d: "128 \<le> b2" "b2 \<le> 191" "128 \<le> b3" "b3 \<le> 191" using assms(3,4) by (auto simp: utf8_cont_def)
  let ?r = "(b mod 8) * 262144 + (b1 mod 64) * 4096 + (b2 mod 64) * 64 + b3 mod 64"
  have q: "?r div 262144 = b mod 8" "?r div 4096 mod 64 = b1 mod 64" "?r div 64 mod 64 = b2 mod 64"
    "?r mod 64 = b3 mod 64"
    using unpack4[of "b1 mod 64" "b2 mod 64" "b3 mod 64" "b mod 8"] by simp_all
  have "65536 \<le> ?r"
  proof (cases "b = 240")
    case True
    then have "144 \<le> b1" using assms(2) by (simp add: utf8_second_def)
    then show ?thesis using cont_mod[of b1] c by simp
  next
    case False
    then show ?thesis using m b by simp
  qed
  then have "\<not> ?r < 128" "\<not> ?r < 2048" "\<not> ?r < 65536" by linarith+
  then have "utf8_encode ?r = map char_of [240 + b mod 8, 128 + b1 mod 64, 128 + b2 mod 64, 128 + b3 mod 64]"
    by (simp only: utf8_encode_def if_False q)
  moreover have "240 + b mod 8 = b" "128 + b1 mod 64 = b1" "128 + b2 mod 64 = b2" "128 + b3 mod 64 = b3"
    using m b c d cont_mod[of b1] cont_mod[of b2] cont_mod[of b3] by simp_all
  ultimately show ?thesis by (simp only:)
qed

definition valid_rune :: "nat \<times> nat \<Rightarrow> bool" where
  "valid_rune d \<longleftrightarrow> \<not> (fst d = rune_error \<and> snd d = 1)"

lemma decode2:
  "utf8_len (of_char c) = 2 \<Longrightarrow> utf8_second (of_char c) (of_char c1) \<Longrightarrow>
     decode_rune (c # c1 # r) = ((of_char c mod 32) * 64 + of_char c1 mod 64, 2)"
  by (simp add: Let_def)

lemma decode3:
  "utf8_len (of_char c) = 3 \<Longrightarrow> utf8_second (of_char c) (of_char c1) \<Longrightarrow> utf8_cont (of_char c2) \<Longrightarrow>
     decode_rune (c # c1 # c2 # r) =
       ((of_char c mod 16) * 4096 + (of_char c1 mod 64) * 64 + of_char c2 mod 64, 3)"
  by (simp add: Let_def)

lemma decode4:
  "utf8_len (of_char c) = 4 \<Longrightarrow> utf8_second (of_char c) (of_char c1) \<Longrightarrow> utf8_cont (of_char c2) \<Longrightarrow>
     utf8_cont (of_char c3) \<Longrightarrow>
     decode_rune (c # c1 # c2 # c3 # r) = ((of_char c mod 8) * 262144 + (of_char c1 mod 64) * 4096 +
       (of_char c2 mod 64) * 64 + of_char c3 mod 64, 4)"
  by (simp add: Let_def)

lemma decode_valid_cases:
  assumes "valid_rune (decode_rune (c # cs))"
  obtains "utf8_len (of_char c) = 1"
  | c1 r where "cs = c1 # r" "utf8_len (of_char c) = 2" "utf8_second (of_char c) (of_char c1)"
  | c1 c2 r where "cs = c1 # c2 # r" "utf8_len (of_char c) = 3" "utf8_second (of_char c) (of_char c1)"
      "utf8_cont (of_char c2)"
  | c1 c2 c3 r where "cs = c1 # c2 # c3 # r" "utf8_len (of_char c) = 4" "utf8_second (of_char c) (of_char c1)"
      "utf8_cont (of_char c2)" "utf8_cont (of_char c3)"
proof -
  let ?b = "of_char c :: nat"
  consider "utf8_len ?b = 0" | "utf8_len ?b = 1" | "utf8_len ?b = 2" | "utf8_len ?b = 3" | "utf8_len ?b = 4"
    using utf8_len_cases[of ?b] by (elim disjE) simp_all
  then show ?thesis
  proof cases
    case 1
    then show ?thesis using assms by (simp add: Let_def valid_rune_def)
  next
    case 2
    then show ?thesis by (rule that(1))
  next
    case 3
    then show ?thesis using assms that(2) by (cases cs) (auto simp: Let_def valid_rune_def split: if_splits)
  next
    case 4
    show ?thesis
    proof (cases "\<exists>c1 c2 r. cs = c1 # c2 # r")
      case True
      then show ?thesis using assms 4 that(3) by (auto simp: Let_def valid_rune_def split: if_splits)
    next
      case False
      then have "cs = [] \<or> (\<exists>x. cs = [x])" by (cases cs; cases "tl cs") auto
      then show ?thesis using assms 4 by (auto simp: Let_def valid_rune_def)
    qed
  next
    case 5
    show ?thesis
    proof (cases "\<exists>c1 c2 c3 r. cs = c1 # c2 # c3 # r")
      case True
      then show ?thesis using assms 5 that(4) by (auto simp: Let_def valid_rune_def split: if_splits)
    next
      case False
      then have "cs = [] \<or> (\<exists>x. cs = [x]) \<or> (\<exists>x y. cs = [x, y])"
        by (cases cs; cases "tl cs"; cases "tl (tl cs)") auto
      then show ?thesis using assms 5 by (auto simp: Let_def valid_rune_def)
    qed
  qed
qed

lemma decode_encode:
  assumes "s \<noteq> []" "valid_rune (decode_rune s)"
  shows "snd (decode_rune s) \<le> length s \<and> take (snd (decode_rune s)) s = utf8_encode (fst (decode_rune s)) \<and>
     decode_rune (take (snd (decode_rune s)) s @ t) = decode_rune s"
proof -
  obtain c cs where s: "s = c # cs" using assms(1) by (cases s) auto
  have v: "valid_rune (decode_rune (c # cs))" using assms(2) s by (simp del: decode_rune.simps)
  show ?thesis using v
  proof (cases rule: decode_valid_cases)
    case 1
    then have b: "(of_char c :: nat) < 128" by (auto simp: utf8_len_def split: if_splits)
    then show ?thesis
      by (simp add: s decode_rune_ascii utf8_encode_def del: decode_rune.simps)
  next
    case (2 c1 r)
    then show ?thesis using encode2[OF 2(2,3)] by (simp add: s decode2 del: decode_rune.simps)
  next
    case (3 c1 c2 r)
    then show ?thesis using encode3[OF 3(2-4)] by (simp add: s decode3 del: decode_rune.simps)
  next
    case (4 c1 c2 c3 r)
    then show ?thesis using encode4[OF 4(2-5)] by (simp add: s decode4 del: decode_rune.simps)
  qed
qed

lemma decode_head:
  assumes "s \<noteq> []" "valid_rune (decode_rune s)"
  shows "(fst (decode_rune s) < 128 \<and> hd s = char_of (fst (decode_rune s))) \<or> 194 \<le> (of_char (hd s) :: nat)"
proof -
  obtain c cs where s: "s = c # cs" using assms(1) by (cases s) auto
  show ?thesis
  proof (cases "(of_char c :: nat) < 128")
    case True
    then show ?thesis using s by (simp add: decode_rune_ascii del: decode_rune.simps)
  next
    case False
    then have "utf8_len (of_char c) \<noteq> 0 \<Longrightarrow> 194 \<le> (of_char c :: nat)" by (auto simp: utf8_len_def split: if_splits)
    moreover have "utf8_len (of_char c) \<noteq> 0"
    proof
      assume "utf8_len (of_char c) = 0"
      then show False using assms(2) by (simp add: s Let_def valid_rune_def)
    qed
    ultimately show ?thesis using s by simp
  qed
qed

end
