(* ===== verification/Boot_Planting.thy ===== *)
theory Boot_Planting imports Session_Types Go_Paths Utf8 begin

text \<open>
  Planting of the boot directory (\<open>bootdir_planting.go\<close>): the per-session
  directory, its files, and the options and adapter rewired to it.

  The file system is the set of directories and the files with content and mode,
  keyed by cleaned paths.  Every file system call may fail: \<open>fs_oracle\<close> says which
  do.  The adapter belongs to another module: what the code reads of it is the
  record \<open>adapter\<close>, whose functions are arguments of the model.
\<close>

section \<open>File system\<close>

record file_system =
  fsDirs :: "gopath list"
  fsFiles :: "(gopath \<times> (string \<times> int)) list"
  fsLog :: "string list"

record fs_oracle =
  ioMkdirAll :: "gopath \<Rightarrow> go_error option"
  ioMkdirTemp :: "go_error option"
  ioTempName :: string
  ioTempDir :: string
  ioWriteFile :: "gopath \<Rightarrow> go_error option"
  ioRemoveAll :: "go_error option"

definition ancestors :: "gopath \<Rightarrow> gopath list" where
  "ancestors p = map (Pair (fst p)) (prefixes (snd p))"

definition os_MkdirAll :: "fs_oracle \<Rightarrow> gopath \<Rightarrow> file_system \<Rightarrow> go_error option \<times> file_system" where
  "os_MkdirAll io p fs =
     (case ioMkdirAll io p of
        Some e \<Rightarrow> (Some e, fs)
      | None \<Rightarrow> (None, fs\<lparr>fsDirs := filter (\<lambda>d. d \<notin> set (fsDirs fs)) (ancestors p) @ fsDirs fs\<rparr>))"

text \<open>\<open>os.MkdirTemp\<close>: the last \<open>*\<close> of the pattern becomes the random name; a separator is an error.\<close>

definition temp_name :: "string \<Rightarrow> string \<Rightarrow> string" where
  "temp_name pattern rnd =
     (if CHR ''*'' \<in> set pattern
      then rev (tl (dropWhile (\<lambda>c. c \<noteq> CHR ''*'') (rev pattern))) @ rnd @
           rev (takeWhile (\<lambda>c. c \<noteq> CHR ''*'') (rev pattern))
      else pattern @ rnd)"

definition errPatternSeparator :: go_error where
  "errPatternSeparator = ErrorsNew ''pattern contains path separator''"

definition os_MkdirTemp ::
  "fs_oracle \<Rightarrow> string \<Rightarrow> string \<Rightarrow> file_system \<Rightarrow> (go_error + string) \<times> file_system" where
  "os_MkdirTemp io root pattern fs =
     (if CHR ''/'' \<in> set pattern then (Inl errPatternSeparator, fs)
      else case ioMkdirTemp io of
        Some e \<Rightarrow> (Inl e, fs)
      | None \<Rightarrow>
          let d = (if has_suffix root ''/'' then root else root @ ''/'') @ temp_name pattern (ioTempName io)
          in (Inr d, fs\<lparr>fsDirs := clean_path d # fsDirs fs\<rparr>))"

definition os_WriteFile ::
  "fs_oracle \<Rightarrow> gopath \<Rightarrow> string \<Rightarrow> int \<Rightarrow> file_system \<Rightarrow> go_error option \<times> file_system" where
  "os_WriteFile io p content mode fs =
     (case ioWriteFile io p of
        Some e \<Rightarrow> (Some e, fs)
      | None \<Rightarrow> (None, fs\<lparr>fsFiles := (p, (content, mode)) # al_del p (fsFiles fs)\<rparr>))"

definition os_RemoveAll :: "fs_oracle \<Rightarrow> gopath \<Rightarrow> file_system \<Rightarrow> go_error option \<times> file_system" where
  "os_RemoveAll io d fs =
     (case ioRemoveAll io of
        Some e \<Rightarrow> (Some e, fs)
      | None \<Rightarrow> (None, fs\<lparr>fsDirs := filter (\<lambda>p. \<not> under d p) (fsDirs fs),
                         fsFiles := filter (\<lambda>f. \<not> under d (fst f)) (fsFiles fs)\<rparr>))"

section \<open>Adapters\<close>

record planted_file =
  pfRelPath :: string
  pfRender :: "(plant_context \<Rightarrow> go_error + string) option"

record boot_spec =
  bsPlantedFiles :: "planted_file list"
  bsEnvAmendments :: "string list"
  bsProjectDirArg :: string
  bsSpawnWorkdir :: "string \<Rightarrow> string \<Rightarrow> string"

record injection =
  injMCPConfigPath :: string
  injAppendSystemPromptFile :: string
  injSettingsPath :: string
  injProjectDir :: string

record claude_adapter =
  caBare :: bool
  caPaths :: injection
  caBareInjectionPaths :: "string \<Rightarrow> string \<Rightarrow> injection"

text \<open>
  \<open>adBootDirSpec\<close> is None for an adapter that is no \<open>BootDirProvider\<close>, \<open>adClaude\<close>
  is None for one that is no \<open>*provider.ClaudeAdapter\<close>.
\<close>

record adapter =
  adName :: string
  adBootDirSpec :: "boot_spec option"
  adClaude :: "claude_adapter option"

section \<open>Helpers\<close>

definition safe_char :: "nat \<Rightarrow> bool" where
  "safe_char r \<longleftrightarrow> (97 \<le> r \<and> r \<le> 122) \<or> (65 \<le> r \<and> r \<le> 90) \<or> (48 \<le> r \<and> r \<le> 57) \<or> r = 45 \<or> r = 95"

definition sanitizeBootDirID :: "string \<Rightarrow> string" where
  "sanitizeBootDirID s =
     (if s = '''' then ''session''
      else str_map (\<lambda>r. if safe_char r then None else Some CHR ''_'') s)"

definition cleanupBootDir :: "fs_oracle \<Rightarrow> string \<Rightarrow> file_system \<Rightarrow> file_system" where
  "cleanupBootDir io bootDir fs =
     (if bootDir = '''' then fs
      else case os_RemoveAll io (clean_path bootDir) fs of
             (None, fs') \<Rightarrow> fs'
           | (Some e, fs') \<Rightarrow> fs'\<lparr>fsLog := fsLog fs' @ [''agentsessions: boot dir cleanup '' @ bootDir]\<rparr>)"

definition resolveBootDirRoot ::
  "fs_oracle \<Rightarrow> string \<Rightarrow> string \<Rightarrow> file_system \<Rightarrow> (go_error + string) \<times> file_system" where
  "resolveBootDirRoot io explicit workspaceDir fs =
     (if explicit = '''' \<and> workspaceDir = '''' then (Inr (ioTempDir io), fs)
      else
        let root = (if explicit \<noteq> '''' then explicit
                    else path_text (join_path (clean_path workspaceDir) ''boot''))
        in case os_MkdirAll io (clean_path root) fs of
             (Some e, fs') \<Rightarrow> (Inl (Wrapped (''agentsessions: ensure boot root '' @ root) e), fs')
           | (None, fs') \<Rightarrow> (Inr root, fs'))"

definition plantedFileMode :: "planted_file \<Rightarrow> int" where
  "plantedFileMode pf =
     (if pfRelPath pf = ''.mcp.json'' \<or> has_suffix (pfRelPath pf) ''settings.json'' then 384 else 420)"

definition bootDirToken :: string where "bootDirToken = ''{{.BootDir}}''"
definition projectDirToken :: string where "projectDirToken = ''{{.ProjectDir}}''"

definition substituteTemplates :: "string list \<Rightarrow> string \<Rightarrow> string \<Rightarrow> string list" where
  "substituteTemplates xs bootDir projectDir =
     map (\<lambda>s. replace_all (replace_all s bootDirToken bootDir) projectDirToken projectDir) xs"

definition substituteArgTokens :: "string \<Rightarrow> string \<Rightarrow> string \<Rightarrow> string list" where
  "substituteArgTokens template bootDir projectDir =
     (if template = '''' \<or> projectDir = '''' then []
      else map (\<lambda>s. replace_all (replace_all s bootDirToken bootDir) projectDirToken projectDir)
             (str_fields template))"

definition applyBareInjection :: "adapter \<Rightarrow> string \<Rightarrow> string \<Rightarrow> string list \<Rightarrow> adapter \<times> string list" where
  "applyBareInjection ad bootDir projectDir projectDirArg =
     (case adClaude ad of
        None \<Rightarrow> (ad, projectDirArg)
      | Some c \<Rightarrow>
          if \<not> caBare c then (ad, projectDirArg)
          else (ad\<lparr>adClaude := Some (c\<lparr>caPaths := caBareInjectionPaths c bootDir projectDir\<rparr>)\<rparr>, []))"

section \<open>Planting\<close>

fun plant_files ::
  "fs_oracle \<Rightarrow> gopath \<Rightarrow> plant_context \<Rightarrow> planted_file list \<Rightarrow> file_system \<Rightarrow> go_error option \<times> file_system" where
  "plant_files io dir ctx [] fs = (None, fs)"
| "plant_files io dir ctx (pf # pfs) fs =
     (let path = join_path dir (pfRelPath pf);
          pre = ''agentsessions: plant '' @ pfRelPath pf
      in case os_MkdirAll io (dir_path path) fs of
           (Some e, fs1) \<Rightarrow> (Some (Wrapped (pre @ '': mkdir'') e), snd (os_RemoveAll io dir fs1))
         | (None, fs1) \<Rightarrow>
             (case pfRender pf of
                None \<Rightarrow> plant_files io dir ctx pfs fs1
              | Some render \<Rightarrow>
                  (case render ctx of
                     Inl e \<Rightarrow> (Some (Wrapped (pre @ '': render'') e), snd (os_RemoveAll io dir fs1))
                   | Inr content \<Rightarrow>
                       (case os_WriteFile io path content (plantedFileMode pf) fs1 of
                          (Some e, fs2) \<Rightarrow>
                            (Some (Wrapped (pre @ '': write'') e), snd (os_RemoveAll io dir fs2))
                        | (None, fs2) \<Rightarrow> plant_files io dir ctx pfs fs2))))"

record plant_result =
  prBootDir :: string
  prOptions :: start_options
  prAdapter :: adapter
  prError :: "go_error option"
  prHooks :: "string list"

definition plant_ctx :: "start_options \<Rightarrow> string \<Rightarrow> plant_context" where
  "plant_ctx opts dir =
     (optPlantContext opts)\<lparr>pcSystemPrompt := optBootPrompt opts,
        pcBootContent := (if optBootContent opts = '''' then optBootPrompt opts else optBootContent opts),
        pcProjectDir := optWorkdir opts, pcBootDir := dir\<rparr>"

definition no_plant :: "start_options \<Rightarrow> adapter \<Rightarrow> go_error option \<Rightarrow> plant_result" where
  "no_plant opts ad e = \<lparr>prBootDir = '''', prOptions = opts, prAdapter = ad, prError = e, prHooks = []\<rparr>"

definition boot_pattern :: "string \<Rightarrow> string" where
  "boot_pattern runtimeID = ''agent-sessions-boot-'' @ sanitizeBootDirID runtimeID @ ''-*''"

definition planted_options :: "start_options \<Rightarrow> boot_spec \<Rightarrow> string \<Rightarrow> string list \<Rightarrow> string list \<Rightarrow> start_options" where
  "planted_options opts spec dir envAmend projectDirArg =
     (let opts1 = opts\<lparr>optWorkdir := bsSpawnWorkdir spec dir (optWorkdir opts)\<rparr>;
          opts2 = (if envAmend \<noteq> [] then opts1\<lparr>optEnv := optEnv opts @ envAmend\<rparr> else opts1)
      in if projectDirArg \<noteq> [] then opts2\<lparr>optExtraArgs := optExtraArgs opts @ projectDirArg\<rparr> else opts2)"

definition preparePlant ::
  "fs_oracle \<Rightarrow> start_options \<Rightarrow> adapter \<Rightarrow> string \<Rightarrow> file_system \<Rightarrow> plant_result \<times> file_system" where
  "preparePlant io opts ad runtimeID fs =
     (if \<not> optAutoPlantBootDir opts then (no_plant opts ad None, fs)
      else case adBootDirSpec ad of
        None \<Rightarrow> (no_plant opts ad None, fs)
      | Some spec \<Rightarrow>
          if bsPlantedFiles spec = [] then (no_plant opts ad None, fs)
          else case resolveBootDirRoot io (optBootDirRoot opts) (optWorkspaceDir opts) fs of
            (Inl e, fs1) \<Rightarrow> (no_plant opts ad (Some e), fs1)
          | (Inr root, fs1) \<Rightarrow>
              (case os_MkdirTemp io root (boot_pattern runtimeID) fs1 of
                 (Inl e, fs2) \<Rightarrow> (no_plant opts ad (Some (Wrapped ''agentsessions: create boot dir'' e)), fs2)
               | (Inr d, fs2) \<Rightarrow>
                   let projectDir = optWorkdir opts in
                   (case plant_files io (clean_path d) (plant_ctx opts d) (bsPlantedFiles spec) fs2 of
                      (Some e, fs3) \<Rightarrow> (no_plant opts ad (Some e), fs3)
                    | (None, fs3) \<Rightarrow>
                        let envAmend = substituteTemplates (bsEnvAmendments spec) d projectDir;
                            arg0 = substituteArgTokens (bsProjectDirArg spec) d projectDir;
                            (ad', arg) = applyBareInjection ad d projectDir arg0
                        in (\<lparr>prBootDir = d,
                             prOptions = planted_options opts spec d envAmend arg,
                             prAdapter = ad', prError = None,
                             prHooks = (if optOnBootDirPlanted opts then [d] else [])\<rparr>, fs3))))"


section \<open>Sanitizing\<close>

lemma safe_char_range: "safe_char r \<Longrightarrow> r < 128 \<and> r \<noteq> rune_error"
  by (auto simp: safe_char_def rune_error_def)

lemma sanitize_safe: "c \<in> set (sanitizeBootDirID s) \<Longrightarrow> safe_char (of_char c)"
proof (cases "s = ''''")
  case True
  assume "c \<in> set (sanitizeBootDirID s)"
  then show ?thesis using True by (auto simp: sanitizeBootDirID_def safe_char_def)
next
  case False
  assume "c \<in> set (sanitizeBootDirID s)"
  then obtain r b where rb: "(r, b) \<in> set (runes s)"
    "c \<in> set (case if safe_char r then None else Some CHR ''_'' of None \<Rightarrow> rune_keep (r, b) | Some c \<Rightarrow> [c])"
    using False by (auto simp: sanitizeBootDirID_def str_map_def)
  show ?thesis
  proof (cases "safe_char r")
    case True
    then have "b = [char_of r]" using runes_small[OF rb(1)] safe_char_range by blast
    then show ?thesis using rb(2) True safe_char_range[OF True] by (simp add: rune_keep_def)
  next
    case False
    then have "c = CHR ''_''" using rb(2) by simp
    then show ?thesis by (simp add: safe_char_def)
  qed
qed

lemma sanitize_no_special:
  "CHR ''/'' \<notin> set (sanitizeBootDirID s)" "CHR ''*'' \<notin> set (sanitizeBootDirID s)"
  using sanitize_safe[of _ s] by (force simp: safe_char_def)+

lemma temp_name_boot:
  "temp_name (boot_pattern i) rnd = ''agent-sessions-boot-'' @ sanitizeBootDirID i @ ''-'' @ rnd"
  by (simp add: temp_name_def boot_pattern_def)

lemma boot_pattern_no_separator: "CHR ''/'' \<notin> set (boot_pattern i)"
  using sanitize_no_special(1)[of i] by (simp add: boot_pattern_def)

text \<open>C20.
  The name of a boot directory is safe whatever the runtime id is, including bytes
  that are not UTF-8: the id contributes only ASCII letters, digits, dashes and
  underscores, so the pattern given to \<open>MkdirTemp\<close> has no separator (it never fails
  for that reason) and its only star is the one the random part replaces.
\<close>

theorem boot_dir_name_safe:
  "set (sanitizeBootDirID runtimeID) \<subseteq> {c. safe_char (of_char c)} \<and>
   temp_name (boot_pattern runtimeID) rnd =
     ''agent-sessions-boot-'' @ sanitizeBootDirID runtimeID @ ''-'' @ rnd \<and>
   fst (os_MkdirTemp io root (boot_pattern runtimeID) fs) =
     (case ioMkdirTemp io of Some e \<Rightarrow> Inl e
      | None \<Rightarrow> Inr ((if has_suffix root ''/'' then root else root @ ''/'') @
          ''agent-sessions-boot-'' @ sanitizeBootDirID runtimeID @ ''-'' @ ioTempName io))"
  using sanitize_safe temp_name_boot boot_pattern_no_separator
  by (auto simp: os_MkdirTemp_def Let_def split: option.splits)

section \<open>What planting does to the file system\<close>

text \<open>The files and directories outside a directory, and those inside it.\<close>

definition outside :: "gopath \<Rightarrow> file_system \<Rightarrow> (gopath \<times> string \<times> int) list" where
  "outside d fs = filter (\<lambda>f. \<not> under d (fst f)) (fsFiles fs)"

definition empty_under :: "gopath \<Rightarrow> file_system \<Rightarrow> bool" where
  "empty_under d fs \<longleftrightarrow> (\<forall>f \<in> set (fsFiles fs). \<not> under d (fst f)) \<and> (\<forall>p \<in> set (fsDirs fs). \<not> under d p)"

lemma outside_empty: "empty_under d fs \<Longrightarrow> outside d fs = fsFiles fs"
  by (auto simp: outside_def empty_under_def)

lemma outside_RemoveAll:
  "ioRemoveAll io = None \<Longrightarrow> os_RemoveAll io d fs = (r, fs') \<Longrightarrow>
     r = None \<and> fsFiles fs' = outside d fs \<and> empty_under d fs' \<and> fsLog fs' = fsLog fs"
  by (auto simp: os_RemoveAll_def outside_def empty_under_def)

lemma outside_MkdirAll: "os_MkdirAll io p fs = (r, fs') \<Longrightarrow> outside d fs' = outside d fs \<and> fsFiles fs' = fsFiles fs"
  by (auto simp: os_MkdirAll_def outside_def split: option.splits)

lemma outside_WriteFile:
  "os_WriteFile io p c mode fs = (r, fs') \<Longrightarrow> under d p \<Longrightarrow> outside d fs' = outside d fs"
  by (auto simp: os_WriteFile_def outside_def al_del_def filter_filter split: option.splits
      intro: filter_cong)

lemma outside_remove:
  "ioRemoveAll io = None \<Longrightarrow> fsFiles (snd (os_RemoveAll io d fs)) = outside d fs \<and>
     empty_under d (snd (os_RemoveAll io d fs))"
  by (cases "os_RemoveAll io d fs") (auto dest: outside_RemoveAll)

definition all_local :: "planted_file list \<Rightarrow> bool" where
  "all_local pfs \<longleftrightarrow> (\<forall>pf \<in> set pfs. local_rel (pfRelPath pf))"

lemma plant_files_error:
  assumes "ioRemoveAll io = None" "all_local pfs" "plant_files io d ctx pfs fs = (Some e, fs')"
  shows "fsFiles fs' = outside d fs \<and> empty_under d fs'"
  using assms(2,3)
proof (induction pfs arbitrary: fs)
  case Nil
  then show ?case by simp
next
  case (Cons pf pfs)
  let ?path = "join_path d (pfRelPath pf)"
  have u: "under d ?path" using Cons.prems(1) by (intro under_join_local) (simp add: all_local_def)
  have rest: "all_local pfs" using Cons.prems(1) by (simp add: all_local_def)
  obtain r1 fs1 where m: "os_MkdirAll io (dir_path ?path) fs = (r1, fs1)" by fastforce
  note o1 = outside_MkdirAll[OF m, of d]
  show ?case
  proof (cases r1)
    case (Some x)
    then show ?thesis using Cons.prems(2) m o1 outside_remove[OF assms(1), of d fs1] by simp
  next
    case None
    show ?thesis
    proof (cases "pfRender pf")
      case None
      then show ?thesis using Cons.IH[OF rest, of fs1] Cons.prems(2) m \<open>r1 = None\<close> o1 by simp
    next
      case (Some render)
      show ?thesis
      proof (cases "render ctx")
        case (Inl x)
        then show ?thesis
          using Cons.prems(2) m \<open>r1 = None\<close> Some o1 outside_remove[OF assms(1), of d fs1] by simp
      next
        case (Inr content)
        obtain r2 fs2 where w: "os_WriteFile io ?path content (plantedFileMode pf) fs1 = (r2, fs2)"
          by fastforce
        note o2 = outside_WriteFile[OF w u]
        show ?thesis
          using Cons.prems(2) m \<open>r1 = None\<close> Some Inr w o1 o2 outside_remove[OF assms(1), of d fs2]
            Cons.IH[OF rest, of fs2]
          by (cases r2) simp_all
      qed
    qed
  qed
qed

text \<open>The files a successful planting writes, in order.\<close>

definition planted :: "gopath \<Rightarrow> plant_context \<Rightarrow> planted_file list \<Rightarrow> (gopath \<times> string \<times> int) list" where
  "planted d ctx pfs = concat (map (\<lambda>pf.
     case pfRender pf of None \<Rightarrow> []
     | Some render \<Rightarrow> (case render ctx of Inl e \<Rightarrow> []
         | Inr content \<Rightarrow> [(join_path d (pfRelPath pf), content, plantedFileMode pf)])) pfs)"

lemma plant_files_ok:
  "plant_files io d ctx pfs fs = (None, fs') \<Longrightarrow>
     map_of (fsFiles fs') = map_of (fsFiles fs) ++ map_of (rev (planted d ctx pfs)) \<and>
     (\<forall>pf \<in> set pfs. \<forall>render. pfRender pf = Some render \<longrightarrow> (\<exists>c. render ctx = Inr c))"
proof (induction pfs arbitrary: fs)
  case Nil
  then show ?case by (simp add: planted_def)
next
  case (Cons pf pfs)
  let ?path = "join_path d (pfRelPath pf)"
  obtain r1 fs1 where m: "os_MkdirAll io (dir_path ?path) fs = (r1, fs1)" by fastforce
  then have r1: "r1 = None" using Cons.prems by (cases r1) auto
  have f1: "fsFiles fs1 = fsFiles fs" using outside_MkdirAll[OF m] by blast
  show ?case
  proof (cases "pfRender pf")
    case None
    then show ?thesis using Cons.IH[of fs1] Cons.prems m r1 f1 by (simp add: planted_def)
  next
    case (Some render)
    then obtain content where c: "render ctx = Inr content" using Cons.prems m r1 by (cases "render ctx") auto
    obtain r2 fs2 where w: "os_WriteFile io ?path content (plantedFileMode pf) fs1 = (r2, fs2)"
      by fastforce
    then have r2: "r2 = None" using Cons.prems m r1 Some c by (cases r2) auto
    then have "fsFiles fs2 = (?path, (content, plantedFileMode pf)) # al_del ?path (fsFiles fs)"
      using w f1 by (auto simp: os_WriteFile_def split: option.splits)
    then show ?thesis
      using Cons.IH[of fs2] Cons.prems m r1 Some c w r2
      by (auto simp: planted_def map_add_def fun_eq_iff split: option.splits)
  qed
qed

lemma resolve_files:
  "resolveBootDirRoot io a b fs = (r, fs') \<Longrightarrow> fsFiles fs' = fsFiles fs"
  by (auto simp: resolveBootDirRoot_def Let_def os_MkdirAll_def split: if_splits prod.splits option.splits)

lemma MkdirTemp_files:
  "os_MkdirTemp io root p fs = (r, fs') \<Longrightarrow> fsFiles fs' = fsFiles fs"
  by (auto simp: os_MkdirTemp_def Let_def split: if_splits option.splits)

text \<open>The directory the call will create, as a function of the options and the oracle.\<close>

definition boot_dir :: "fs_oracle \<Rightarrow> start_options \<Rightarrow> string \<Rightarrow> string" where
  "boot_dir io opts runtimeID =
     (let root = (if optBootDirRoot opts = '''' \<and> optWorkspaceDir opts = '''' then ioTempDir io
                  else if optBootDirRoot opts \<noteq> '''' then optBootDirRoot opts
                  else path_text (join_path (clean_path (optWorkspaceDir opts)) ''boot''))
      in (if has_suffix root ''/'' then root else root @ ''/'') @ temp_name (boot_pattern runtimeID) (ioTempName io))"

lemma MkdirTemp_dir:
  assumes "resolveBootDirRoot io (optBootDirRoot opts) (optWorkspaceDir opts) fs = (Inr root, fs1)"
    "os_MkdirTemp io root (boot_pattern i) fs1 = (Inr d, fs2)"
  shows "d = boot_dir io opts i"
  using assms
  by (auto simp: resolveBootDirRoot_def os_MkdirTemp_def boot_dir_def Let_def
      split: if_splits option.splits prod.splits)


definition sample_io :: fs_oracle where
  "sample_io = \<lparr>ioMkdirAll = (\<lambda>p. None), ioMkdirTemp = None, ioTempName = ''7'', ioTempDir = ''/tmp'',
     ioWriteFile = (\<lambda>p. None), ioRemoveAll = None\<rparr>"

definition sample_spec :: "(plant_context \<Rightarrow> go_error + string) \<Rightarrow> boot_spec" where
  "sample_spec render = \<lparr>bsPlantedFiles = [\<lparr>pfRelPath = ''CLAUDE.md'', pfRender = Some (\<lambda>c. Inr (pcSystemPrompt c))\<rparr>,
       \<lparr>pfRelPath = ''a/settings.json'', pfRender = Some render\<rparr>],
     bsEnvAmendments = [''HOME={{.BootDir}}''], bsProjectDirArg = ''--add-dir {{.ProjectDir}}'',
     bsSpawnWorkdir = (\<lambda>b p. b)\<rparr>"

definition sample_adapter :: "(plant_context \<Rightarrow> go_error + string) \<Rightarrow> adapter" where
  "sample_adapter render = \<lparr>adName = ''claude'', adBootDirSpec = Some (sample_spec render), adClaude = None\<rparr>"

definition plant_options :: start_options where
  "plant_options = \<lparr>optWorkdir = ''/w'', optWorkspaceDir = '''', optLogPath = '''', optBootPrompt = ''hi'',
     optBootContent = '''', optPlantContext = \<lparr>pcSystemPrompt = '''', pcBootContent = '''',
       pcProjectDir = '''', pcBootDir = '''', pcCaller = []\<rparr>,
     optBootMode = '''', optEnv = [], optStderr = False, optExtraFiles = [], optProfileID = '''',
     optFanout = None, optEventFanout = False, optSessionIDPreset = '''', optOnSessionID = False,
     optAttachEnabled = False, optRingBytes = 0, optSubscriberDepth = 0, optAutoFireFirstTurn = False,
     optFirstTurnPayload = '''', optTypedEventCallback = False, optSupervisor = None,
     optJsonRpcNotificationHook = False, optJsonRpcRequestHook = False, optAutoPlantBootDir = True,
     optBootDirRoot = '''', optOnBootDirPlanted = True, optExtraArgs = [], optResourceLimits = None\<rparr>"

definition empty_fs :: file_system where
  "empty_fs = \<lparr>fsDirs = [(True, []), (True, [''tmp''])], fsFiles = [((True, [''etc'']), (''x'', 420))], fsLog = []\<rparr>"

lemma sample_boot_dir: "clean_path (boot_dir sample_io plant_options '''') = (True, [''tmp'', ''agent-sessions-boot-session-7''])"
  by (simp add: boot_dir_def plant_options_def sample_io_def Let_def has_suffix_def temp_name_boot
      sanitizeBootDirID_def clean_path_def)

lemma sample_all_local: "all_local (bsPlantedFiles (sample_spec render))"
  by (simp add: all_local_def sample_spec_def local_rel_def)

lemma sample_fresh: "empty_under (clean_path (boot_dir sample_io plant_options '''')) empty_fs"
  unfolding sample_boot_dir by (simp add: empty_under_def empty_fs_def under_def)

definition failing_render :: "plant_context \<Rightarrow> go_error + string" where
  "failing_render c = Inl ErrClosedPipe"

definition fine_render :: "plant_context \<Rightarrow> go_error + string" where
  "fine_render c = Inr (pcBootContent c)"

lemmas sample_plant_defs = preparePlant_def sample_adapter_def sample_spec_def sample_io_def
  resolveBootDirRoot_def os_MkdirTemp_def os_MkdirAll_def os_WriteFile_def os_RemoveAll_def no_plant_def Let_def

lemma sample_error:
  "prError (fst (preparePlant sample_io plant_options (sample_adapter failing_render) '''' empty_fs)) \<noteq> None"
  "prError (fst (preparePlant sample_io plant_options (sample_adapter fine_render) '''' empty_fs)) = None"
  using boot_pattern_no_separator[of "[]"]
  by (simp_all add: sample_plant_defs plant_options_def failing_render_def fine_render_def split: prod.split)


text \<open>C13.
  A planting that succeeds returns the directory it made; the files then are the
  old ones overridden by what the renderers returned, in order, with the mode the
  name asks for; every renderer ran on the caller's plant context with exactly the
  four owned fields set; the caller's options change in \<open>Workdir\<close>, \<open>Env\<close> and
  \<open>ExtraArgs\<close> only, the latter two by appending; and the hook ran once if set.
\<close>

theorem plant_success_contents:
  assumes "optAutoPlantBootDir opts" "adBootDirSpec ad = Some spec" "bsPlantedFiles spec \<noteq> []"
    and "preparePlant io opts ad i fs = (r, fs')" "prError r = None"
  shows "prBootDir r = boot_dir io opts i \<and>
     map_of (fsFiles fs') = map_of (fsFiles fs) ++
       map_of (rev (planted (clean_path (prBootDir r)) (plant_ctx opts (prBootDir r)) (bsPlantedFiles spec))) \<and>
     (\<exists>env args. prOptions r = opts\<lparr>optWorkdir := bsSpawnWorkdir spec (prBootDir r) (optWorkdir opts),
         optEnv := optEnv opts @ env, optExtraArgs := optExtraArgs opts @ args\<rparr>) \<and>
     prHooks r = (if optOnBootDirPlanted opts then [prBootDir r] else [])"
proof -
  obtain rr fs1 where root: "resolveBootDirRoot io (optBootDirRoot opts) (optWorkspaceDir opts) fs = (rr, fs1)"
    by fastforce
  obtain rt where rt: "rr = Inr rt"
    using assms root by (cases rr) (auto simp: preparePlant_def no_plant_def)
  obtain rd fs2 where temp: "os_MkdirTemp io rt (boot_pattern i) fs1 = (rd, fs2)" by fastforce
  obtain d where d: "rd = Inr d"
    using assms root rt temp by (cases rd) (auto simp: preparePlant_def no_plant_def)
  have f2: "fsFiles fs2 = fsFiles fs" using MkdirTemp_files[OF temp] resolve_files[OF root] by simp
  obtain pe fs3 where pl: "plant_files io (clean_path d) (plant_ctx opts d) (bsPlantedFiles spec) fs2 = (pe, fs3)"
    by fastforce
  have pe: "pe = None"
    using assms root rt temp d pl by (cases pe) (auto simp: preparePlant_def no_plant_def Let_def)
  obtain ad' arg where inj: "applyBareInjection ad d (optWorkdir opts)
      (substituteArgTokens (bsProjectDirArg spec) d (optWorkdir opts)) = (ad', arg)" by fastforce
  let ?env = "substituteTemplates (bsEnvAmendments spec) d (optWorkdir opts)"
  have r: "r = \<lparr>prBootDir = d, prOptions = planted_options opts spec d ?env arg, prAdapter = ad',
      prError = None, prHooks = (if optOnBootDirPlanted opts then [d] else [])\<rparr>" "fs' = fs3"
    using assms(1-4) root rt temp d pl pe inj by (auto simp: preparePlant_def Let_def)
  have "prOptions r = opts\<lparr>optWorkdir := bsSpawnWorkdir spec d (optWorkdir opts),
      optEnv := optEnv opts @ ?env, optExtraArgs := optExtraArgs opts @ arg\<rparr>"
    by (simp add: r planted_options_def Let_def)
  then show ?thesis
    using plant_files_ok[OF pl[unfolded pe]] f2 MkdirTemp_dir[of io opts fs rt fs1 i d fs2] root rt temp d r
    by auto
qed

lemma plant_success_contents_witness:
  "prBootDir (fst (preparePlant sample_io plant_options (sample_adapter fine_render) '''' empty_fs)) =
     boot_dir sample_io plant_options ''''"
proof -
  obtain r fs' where p: "preparePlant sample_io plant_options (sample_adapter fine_render) '''' empty_fs = (r, fs')"
    by fastforce
  have e: "prError r = None" using sample_error(2) p by simp
  have a: "optAutoPlantBootDir plant_options" "adBootDirSpec (sample_adapter fine_render) = Some (sample_spec fine_render)"
    "bsPlantedFiles (sample_spec fine_render) \<noteq> []"
    by (simp_all add: plant_options_def sample_adapter_def sample_spec_def)
  from plant_success_contents[OF a p e] p show ?thesis by simp
qed

text \<open>C0.
  File modes: a planted file is private (0600) exactly when it is \<open>.mcp.json\<close> itself or
  its path ends in \<open>settings.json\<close>, and world readable (0644) otherwise; in
  particular a \<open>.mcp.json\<close> planted in a subdirectory is not private.
\<close>

theorem planted_modes:
  "(plantedFileMode pf = 384 \<longleftrightarrow> pfRelPath pf = ''.mcp.json'' \<or> (\<exists>t. pfRelPath pf = t @ ''settings.json'')) \<and>
   (plantedFileMode pf \<noteq> 384 \<longleftrightarrow> plantedFileMode pf = 420) \<and>
   plantedFileMode \<lparr>pfRelPath = ''sub/.mcp.json'', pfRender = None\<rparr> = 420"
  by (auto simp: plantedFileMode_def has_suffix_iff)

end
