(* ===== verification/Os_Support.thy ===== *)
theory Os_Support imports Complex_Main Session_Types Go_Paths begin

text \<open>
  The small services below the sessions: the resource-limit wrap of a command
  (\<open>wraparg_unix.go\<close>, \<open>wraparg_windows.go\<close>), signals to a process group
  (\<open>process_group_*.go\<close>), the abnormal-wait log line (\<open>diagnostics.go\<close>), attach
  ids (\<open>id.go\<close>) and the event fanout (\<open>event_fanout.go\<close>).
\<close>

section \<open>Commands\<close>

text \<open>Where the command writes its errors: the null device, the caller's writer, the session log.\<close>

datatype stderr_dest = StderrNone | StderrCaller | StderrLog

record cmd =
  cmdPath :: string
  cmdArgs :: "string list"
  cmdDir :: string
  cmdEnv :: "string list"
  cmdExtraFiles :: "nat list"
  cmdSetpgid :: bool
  cmdStderr :: stderr_dest
  cmdPid :: "int option"

section \<open>Seconds of a duration\<close>

text \<open>
  \<open>int(d.Seconds())\<close>: the whole seconds plus the rest divided by 1e9, both in
  float64 and rounded to nearest, ties to even, and then truncated.  \<open>fl53\<close> is
  rounding of a non-negative number below \<open>2^53\<close> to 53 significant bits, with the
  scale searched downwards from \<open>2^k\<close>.
\<close>

definition round_half_even :: "rat \<Rightarrow> int" where
  "round_half_even x =
     (let f = \<lfloor>x\<rfloor>; r = x - of_int f in
      if r < 1 / 2 then f else if r > 1 / 2 then f + 1 else if even f then f else f + 1)"

fun fl_scale :: "rat \<Rightarrow> nat \<Rightarrow> nat" where
  "fl_scale x 0 = 0"
| "fl_scale x (Suc k) = (if x * 2 ^ Suc k < 2 ^ 53 then Suc k else fl_scale x k)"

definition fl53 :: "rat \<Rightarrow> rat" where
  "fl53 x = (let k = fl_scale x 100 in of_int (round_half_even (x * 2 ^ k)) / 2 ^ k)"

definition durationSecondsInt :: "int \<Rightarrow> int" where
  "durationSecondsInt d =
     \<lfloor>fl53 (of_int (d div second) + fl53 (of_int (d mod second) / of_int second))\<rfloor>"

lemma round_half_even_mono_int: "of_int a \<le> x \<Longrightarrow> x \<le> of_int b \<Longrightarrow> a \<le> round_half_even x \<and> round_half_even x \<le> b"
proof -
  assume x: "of_int a \<le> x" "x \<le> of_int b"
  have f: "a \<le> \<lfloor>x\<rfloor>" using x(1) by (simp add: le_floor_iff)
  have "\<lfloor>x\<rfloor> \<le> b" using x(2) by (simp add: floor_le_iff)
  moreover have "\<lfloor>x\<rfloor> + 1 \<le> b" if "0 < x - of_int \<lfloor>x\<rfloor>"
    using that x(2) by (metis add.commute add_le_cancel_right diff_gt_0_iff_gt floor_less_iff int_one_le_iff_zero_less
        of_int_less_iff order_less_le_trans zless_add1_eq zle_add1_eq_le linorder_not_le floor_of_int order_le_less)
  ultimately show ?thesis using f by (auto simp: round_half_even_def Let_def)
qed

lemma fl53_between:
  assumes "of_int a \<le> x" "x \<le> of_int b"
  shows "of_int a \<le> fl53 x \<and> fl53 x \<le> of_int b"
proof -
  let ?k = "fl_scale x 100"
  have "of_int (a * 2 ^ ?k) \<le> x * 2 ^ ?k" "x * 2 ^ ?k \<le> of_int (b * 2 ^ ?k)"
    using assms by (simp_all add: mult_right_mono)
  from round_half_even_mono_int[OF this]
  have "of_int (a * 2 ^ ?k) \<le> (of_int (round_half_even (x * 2 ^ ?k)) :: rat)"
    "of_int (round_half_even (x * 2 ^ ?k)) \<le> (of_int (b * 2 ^ ?k) :: rat)"
    by (simp_all only: of_int_le_iff)
  then show ?thesis by (simp add: fl53_def Let_def pos_le_divide_eq pos_divide_le_eq)
qed

lemma durationSecondsInt_bounds:
  "d div second \<le> durationSecondsInt d \<and> durationSecondsInt d \<le> d div second + 1"
proof -
  let ?f = "fl53 (of_int (d mod second) / of_int second)"
  have "0 \<le> d mod second" "d mod second \<le> second" by (auto simp: second_def intro: less_imp_le)
  then have "of_int 0 \<le> (of_int (d mod second) / of_int second :: rat)"
    "(of_int (d mod second) / of_int second :: rat) \<le> of_int 1"
    by (auto simp: second_def)
  from fl53_between[OF this] have "of_int (d div second) \<le> of_int (d div second) + ?f"
    "of_int (d div second) + ?f \<le> of_int (d div second + 1)" by simp_all
  from fl53_between[OF this] show ?thesis
    by (auto simp: durationSecondsInt_def le_floor_iff floor_le_iff)
qed

section \<open>Resource limits\<close>

record os_env =
  goos :: string
  lookPath :: "string \<Rightarrow> go_error + string"
  systemdVersionRuns :: bool

text \<open>The result of the probe and whether it ran; it runs at most once per process.\<close>

record systemd_probe =
  probeOnce :: bool
  probeResult :: bool

definition systemdRunUserAvailable :: "os_env \<Rightarrow> systemd_probe \<Rightarrow> bool \<times> systemd_probe" where
  "systemdRunUserAvailable env p =
     (if probeOnce p then (probeResult p, p)
      else
        let ok = (goos env = ''linux'' \<and> (case lookPath env ''systemd-run'' of Inr x \<Rightarrow> True | Inl e \<Rightarrow> False) \<and>
                  systemdVersionRuns env)
        in (ok, \<lparr>probeOnce = True, probeResult = ok\<rparr>))"

definition ulimit_parts :: "string \<Rightarrow> bool \<Rightarrow> resource_limits \<Rightarrow> string list" where
  "ulimit_parts os useSystemdMemory rl =
     (if CPUTime rl > 0
      then [''ulimit -t '' @ dec_int (if durationSecondsInt (CPUTime rl) < 1 then 1 else durationSecondsInt (CPUTime rl))]
      else []) @
     (if MemoryMax rl > 0 \<and> \<not> useSystemdMemory \<and> os \<noteq> ''darwin''
      then let kb = MemoryMax rl div 1024 in [''ulimit -v '' @ dec_nat (unat (if kb < 1 then 1 else kb))]
      else []) @
     (if MaxOpenFiles rl > 0 then [''ulimit -n '' @ dec_nat (unat (MaxOpenFiles rl))] else []) @
     (if MaxProcesses rl > 0 then [''ulimit -u '' @ dec_nat (unat (MaxProcesses rl))] else []) @
     (if MaxFileSize rl > 0
      then let blocks = MaxFileSize rl div 1024 in [''ulimit -f '' @ dec_nat (unat (if blocks < 1 then 1 else blocks))]
      else [])"

definition wrap_ulimit :: "string \<Rightarrow> string list \<Rightarrow> cmd \<Rightarrow> cmd" where
  "wrap_ulimit shPath parts c =
     (if parts = [] then c
      else
        let script = join_with ''; '' parts @ ''; exec \"$@\"'' in
        c\<lparr>cmdPath := shPath,
          cmdArgs := [shPath, ''-c'', script, ''sh'', cmdPath c] @
            (if length (cmdArgs c) > 1 then tl (cmdArgs c) else [])\<rparr>)"

definition wrap_systemd :: "os_env \<Rightarrow> 64 word \<Rightarrow> cmd \<Rightarrow> cmd" where
  "wrap_systemd env memoryMax c =
     (let srPath = (case lookPath env ''systemd-run'' of Inr p \<Rightarrow> p | Inl e \<Rightarrow> '''') in
      c\<lparr>cmdPath := srPath,
        cmdArgs := [srPath, ''--user'', ''--scope'', ''--quiet'',
           ''--property=MemoryMax='' @ dec_nat (unat memoryMax)] @ [''--''] @ cmdArgs c\<rparr>)"

definition applyResourceLimits ::
  "os_env \<Rightarrow> resource_limits option \<Rightarrow> cmd \<Rightarrow> systemd_probe \<Rightarrow> (go_error option \<times> cmd) \<times> systemd_probe" where
  "applyResourceLimits env limits c probe =
     (case limits of
        None \<Rightarrow> ((None, c), probe)
      | Some rl \<Rightarrow>
          if limitsIsZero rl then ((None, c), probe)
          else case lookPath env ''sh'' of
            Inl e \<Rightarrow> ((Some (Wrapped ''sh not found in PATH for resource-limits wrap'' e), c), probe)
          | Inr shPath \<Rightarrow>
              let (useSystemdMemory, probe') =
                    (if MemoryMax rl > 0 \<and> goos env = ''linux'' then systemdRunUserAvailable env probe
                     else (False, probe));
                  c1 = wrap_ulimit shPath (ulimit_parts (goos env) useSystemdMemory rl) c;
                  c2 = (if useSystemdMemory then wrap_systemd env (MemoryMax rl) c1 else c1)
              in ((None, c2), probe'))"

definition errWindowsLimits :: go_error where
  "errWindowsLimits = ErrorsNew ''agentsessions: ResourceLimits unsupported on windows''"

definition applyResourceLimits_windows :: "resource_limits option \<Rightarrow> cmd \<Rightarrow> go_error option \<times> cmd" where
  "applyResourceLimits_windows limits c =
     (case limits of None \<Rightarrow> (None, c)
      | Some rl \<Rightarrow> if limitsIsZero rl then (None, c) else (Some errWindowsLimits, c))"

section \<open>Process groups\<close>

definition configureCommandProcessGroup :: "cmd \<Rightarrow> cmd" where
  "configureCommandProcessGroup c = c\<lparr>cmdSetpgid := True\<rparr>"

definition configurePTYCommandProcessGroup :: "cmd \<Rightarrow> cmd" where
  "configurePTYCommandProcessGroup c = c"

text \<open>\<open>errors.Is\<close> for a comparable target: along the wrap chain.\<close>

fun errors_is :: "go_error \<Rightarrow> go_error \<Rightarrow> bool" where
  "errors_is (Wrapped p e) t = (Wrapped p e = t \<or> errors_is e t)"
| "errors_is e t = (e = t)"

definition errESRCH :: go_error where "errESRCH = ErrorsNew ''no such process''"
definition errProcessDone :: go_error where "errProcessDone = ErrorsNew ''os: process already finished''"

text \<open>
  \<open>os.Process.Signal\<close>: a process already waited for, and one the kernel no longer
  knows (\<open>ESRCH\<close>), are both reported as \<open>os.ErrProcessDone\<close>.
\<close>

datatype proc_fate = ProcAlive | ProcReaped | ProcUnknown | ProcDenied go_error

definition os_Process_Signal :: "proc_fate \<Rightarrow> go_error option" where
  "os_Process_Signal f =
     (case f of ProcAlive \<Rightarrow> None | ProcReaped \<Rightarrow> Some errProcessDone
      | ProcUnknown \<Rightarrow> Some errProcessDone | ProcDenied e \<Rightarrow> Some e)"

definition signalProcessGroup :: "cmd option \<Rightarrow> go_error option \<Rightarrow> proc_fate \<Rightarrow> go_error option" where
  "signalProcessGroup c groupKill fate =
     (case c of None \<Rightarrow> None
      | Some c \<Rightarrow> (case cmdPid c of None \<Rightarrow> None
          | Some pid \<Rightarrow>
              if pid \<le> 0 then None
              else case groupKill of None \<Rightarrow> None
                | Some e \<Rightarrow>
                    (case os_Process_Signal fate of None \<Rightarrow> None
                     | Some f \<Rightarrow> if errors_is f errESRCH then None else Some f)))"

definition signalProcessGroup_windows :: "cmd option \<Rightarrow> int \<Rightarrow> proc_fate \<Rightarrow> go_error option" where
  "signalProcessGroup_windows c sig fate =
     (case c of None \<Rightarrow> None
      | Some c \<Rightarrow> (case cmdPid c of None \<Rightarrow> None
          | Some pid \<Rightarrow>
              (case os_Process_Signal fate of None \<Rightarrow> None
               | Some f \<Rightarrow> if errors_is f errProcessDone then None else Some f)))"

section \<open>Diagnostics\<close>

record abnormal_wait =
  awKind :: string
  awRuntimeID :: string
  awPid :: int
  awElapsed :: int
  awErr :: "go_error option"

definition logAbnormalWait :: "string \<Rightarrow> string \<Rightarrow> int \<Rightarrow> int \<Rightarrow> go_error option \<Rightarrow> abnormal_wait list" where
  "logAbnormalWait kind runtimeID pid elapsed err =
     (let abnormalErr = (err \<noteq> None \<and> as_exec_exit_opt err = None);
          rapidExit = (elapsed > 0 \<and> elapsed < second)
      in if \<not> abnormalErr \<and> \<not> rapidExit then []
         else [\<lparr>awKind = kind, awRuntimeID = runtimeID, awPid = pid, awElapsed = elapsed, awErr = err\<rparr>])"

section \<open>Attach ids\<close>

definition hex_digit :: "nat \<Rightarrow> char" where
  "hex_digit n = (if n < 10 then char_of (48 + n) else char_of (87 + n))"

definition hex_encode :: "bytes \<Rightarrow> string" where
  "hex_encode bs = concat (map (\<lambda>c. [hex_digit (of_char c div 16), hex_digit (of_char c mod 16)]) bs)"

text \<open>\<open>rand.Read\<close> fills all 16 bytes or fails.\<close>

definition defaultIDFn :: "(go_error + bytes) \<Rightarrow> string" where
  "defaultIDFn rnd = (case rnd of Inl e \<Rightarrow> ''agentsessions-rand-failure'' | Inr b \<Rightarrow> hex_encode b)"

section \<open>Event fanout\<close>

text \<open>None is a panic: the channel was closed.\<close>

definition tryEventFanout :: "'e chan option \<Rightarrow> 'e \<Rightarrow> 'e chan option option" where
  "tryEventFanout ch ev =
     (case ch of None \<Rightarrow> Some None
      | Some c \<Rightarrow> map_option (\<lambda>r. Some (snd r)) (chan_try_send ev c))"

section \<open>Properties\<close>

definition same_spawn :: "cmd \<Rightarrow> cmd \<Rightarrow> bool" where
  "same_spawn a b \<longleftrightarrow> cmdDir a = cmdDir b \<and> cmdEnv a = cmdEnv b \<and> cmdExtraFiles a = cmdExtraFiles b \<and>
     cmdSetpgid a = cmdSetpgid b \<and> cmdStderr a = cmdStderr b \<and> cmdPid a = cmdPid b"

definition suffix_of :: "string list \<Rightarrow> string list \<Rightarrow> bool" where
  "suffix_of xs ys \<longleftrightarrow> (\<exists>zs. ys = zs @ xs)"

lemma suffix_of_append: "suffix_of xs ys \<Longrightarrow> suffix_of xs (zs @ ys)"
  by (auto simp: suffix_of_def)

lemma wrap_ulimit_suffix:
  "parts \<noteq> [] \<Longrightarrow> cmdArgs c \<noteq> [] \<Longrightarrow> suffix_of (cmdPath c # tl (cmdArgs c)) (cmdArgs (wrap_ulimit sh parts c))"
  by (cases "cmdArgs c") (auto simp: wrap_ulimit_def Let_def suffix_of_def)

lemma wrap_systemd_suffix: "suffix_of (cmdArgs c) (cmdArgs (wrap_systemd env mm c))"
  by (simp add: wrap_systemd_def Let_def suffix_of_def)

lemma wrap_same: "same_spawn (wrap_ulimit sh parts c) c" "same_spawn (wrap_systemd env mm c) c"
  by (simp_all add: wrap_ulimit_def wrap_systemd_def same_spawn_def Let_def)

lemma suffix_of_trans: "suffix_of a b \<Longrightarrow> suffix_of b c \<Longrightarrow> suffix_of a c"
  by (auto simp: suffix_of_def)

text \<open>C18.
  The wrap for resource limits keeps the command it wraps: without an error the
  new argument vector ends in the original program and its arguments, unless no
  limit is enforced, when nothing changes; an error leaves the command alone; and
  working directory, environment, inherited files and process group are never
  touched.  (The program is the resolved path when a \<open>ulimit\<close> is set, and the
  original \<open>argv[0]\<close> when only the cgroup limit is.)
\<close>

theorem resource_wrap_keeps_command:
  assumes "cmdArgs c \<noteq> []" "applyResourceLimits env (Some rl) c probe = ((e, c'), probe')"
  shows "same_spawn c' c \<and> (e \<noteq> None \<longrightarrow> c' = c) \<and>
     (c' = c \<or> suffix_of (cmdPath c # tl (cmdArgs c)) (cmdArgs c') \<or> suffix_of (cmdArgs c) (cmdArgs c'))"
proof (cases "limitsIsZero rl \<or> (\<exists>x. lookPath env ''sh'' = Inl x)")
  case True
  then show ?thesis using assms(2) by (auto simp: applyResourceLimits_def same_spawn_def split: sum.splits if_splits)
next
  case False
  then obtain sh where sh: "lookPath env ''sh'' = Inr sh" "\<not> limitsIsZero rl" by (metis sum.exhaust)
  define u where "u = fst (if MemoryMax rl > 0 \<and> goos env = ''linux'' then systemdRunUserAvailable env probe else (False, probe))"
  define c1 where "c1 = wrap_ulimit sh (ulimit_parts (goos env) u rl) c"
  have c': "c' = (if u then wrap_systemd env (MemoryMax rl) c1 else c1)" "e = None"
    using assms(2) sh by (auto simp: applyResourceLimits_def u_def c1_def Let_def split: prod.splits if_splits)
  have "c1 = c \<or> suffix_of (cmdPath c # tl (cmdArgs c)) (cmdArgs c1)"
    using wrap_ulimit_suffix[OF _ assms(1)] by (cases "ulimit_parts (goos env) u rl = []") (auto simp: c1_def wrap_ulimit_def)
  then show ?thesis
    using c' wrap_same wrap_systemd_suffix[of c1 env "MemoryMax rl"] suffix_of_trans
    by (auto simp: c1_def same_spawn_def)
qed

definition sample_env :: os_env where
  "sample_env = \<lparr>goos = ''linux'', lookPath = (\<lambda>x. Inr (''/bin/'' @ x)), systemdVersionRuns = False\<rparr>"

definition sample_cmd :: cmd where
  "sample_cmd = \<lparr>cmdPath = ''/usr/bin/claude'', cmdArgs = [''claude'', ''-p''], cmdDir = ''/w'', cmdEnv = [],
     cmdExtraFiles = [], cmdSetpgid = False, cmdStderr = StderrNone, cmdPid = None\<rparr>"

definition sample_limits :: resource_limits where
  "sample_limits = \<lparr>CPUTime = 0, MemoryMax = 0, MaxOpenFiles = 64, MaxProcesses = 0, MaxFileSize = 0\<rparr>"

lemma resource_wrap_keeps_command_witness:
  "same_spawn (snd (fst (applyResourceLimits sample_env (Some sample_limits) sample_cmd \<lparr>probeOnce = False, probeResult = False\<rparr>)))
     sample_cmd"
proof -
  obtain e c' p' where r: "applyResourceLimits sample_env (Some sample_limits) sample_cmd \<lparr>probeOnce = False, probeResult = False\<rparr> = ((e, c'), p')"
    by (metis prod.collapse)
  have "cmdArgs sample_cmd \<noteq> []" by (simp add: sample_cmd_def)
  from resource_wrap_keeps_command[OF this r] r show ?thesis by simp
qed

text \<open>C25.
  What the wrap enforces: a part of the script for each positive limit and for no
  other, memory by \<open>ulimit -v\<close> exactly where the cgroup does not do it and the system
  is not macOS; block counts are rounded down but never to zero, and CPU seconds
  are at least one and within a second of the configured time, despite the
  floating-point arithmetic.
\<close>

theorem ulimit_script_values:
  "length (ulimit_parts os sysd rl) =
     of_bool (CPUTime rl > 0) + of_bool (MemoryMax rl > 0 \<and> \<not> sysd \<and> os \<noteq> ''darwin'') +
     of_bool (MaxOpenFiles rl > 0) + of_bool (MaxProcesses rl > 0) + of_bool (MaxFileSize rl > 0) \<and>
   (0 < CPUTime rl \<longrightarrow> (\<exists>s. hd (ulimit_parts os sysd rl) = ''ulimit -t '' @ dec_int s \<and> 1 \<le> s \<and>
      CPUTime rl div second \<le> s \<and> s \<le> CPUTime rl div second + 1)) \<and>
   (0 < MemoryMax rl \<longrightarrow> \<not> sysd \<longrightarrow> os \<noteq> ''darwin'' \<longrightarrow>
      (\<exists>kb > 0. ''ulimit -v '' @ dec_nat kb \<in> set (ulimit_parts os sysd rl) \<and>
         (kb = unat (MemoryMax rl) div 1024 \<or> kb = 1)))"
proof -
  have t: "0 \<le> d div second" if "0 < d" for d using that by (simp add: second_def)
  have w: "0 < unat x" if "\<not> x < (1 :: 64 word)" for x
    using that by (simp add: unat_gt_0)
  have len: "length (ulimit_parts os sysd rl) =
     of_bool (CPUTime rl > 0) + of_bool (MemoryMax rl > 0 \<and> \<not> sysd \<and> os \<noteq> ''darwin'') +
     of_bool (MaxOpenFiles rl > 0) + of_bool (MaxProcesses rl > 0) + of_bool (MaxFileSize rl > 0)"
    by (simp add: ulimit_parts_def Let_def)
  have cpu: "\<exists>s. hd (ulimit_parts os sysd rl) = ''ulimit -t '' @ dec_int s \<and> 1 \<le> s \<and>
      CPUTime rl div second \<le> s \<and> s \<le> CPUTime rl div second + 1" if "0 < CPUTime rl"
    using that durationSecondsInt_bounds[of "CPUTime rl"] t[OF that]
    by (intro exI[of _ "if durationSecondsInt (CPUTime rl) < 1 then 1 else durationSecondsInt (CPUTime rl)"])
       (simp add: ulimit_parts_def)
  have mem: "\<exists>kb > 0. ''ulimit -v '' @ dec_nat kb \<in> set (ulimit_parts os sysd rl) \<and>
         (kb = unat (MemoryMax rl) div 1024 \<or> kb = 1)"
    if "0 < MemoryMax rl" "\<not> sysd" "os \<noteq> ''darwin''"
  proof (intro exI[of _ "unat (if MemoryMax rl div 1024 < 1 then 1 else MemoryMax rl div 1024)"] conjI)
    show "0 < unat (if MemoryMax rl div 1024 < 1 then 1 else MemoryMax rl div 1024)"
      using w[of "MemoryMax rl div 1024"] by simp
  qed (use that in \<open>simp_all add: ulimit_parts_def Let_def unat_div\<close>)
  show ?thesis using len cpu mem by blast
qed

text \<open>C26.
  Signals: without a started process, or once the group signal succeeded, nothing
  is reported; otherwise the fallback decides.  The fallback means to swallow the
  error of a process that is already gone, but \<open>os.Process.Signal\<close> reports that as
  \<open>os.ErrProcessDone\<close>, which is not \<open>ESRCH\<close>: on unix it is returned, on windows it
  is swallowed.
\<close>

theorem signal_gone_process:
  "signalProcessGroup None k f = None \<and>
   (cmdPid c = None \<longrightarrow> signalProcessGroup (Some c) k f = None) \<and>
   signalProcessGroup (Some c) None f = None \<and>
   (cmdPid c = Some pid \<longrightarrow> 0 < pid \<longrightarrow> f = ProcReaped \<or> f = ProcUnknown \<longrightarrow>
      signalProcessGroup (Some c) (Some errESRCH) f = Some errProcessDone \<and>
      signalProcessGroup_windows (Some c) sig f = None)"
  by (auto simp: signalProcessGroup_def signalProcessGroup_windows_def os_Process_Signal_def
      errProcessDone_def errESRCH_def split: option.splits)

lemma signal_gone_process_witness:
  "signalProcessGroup (Some (sample_cmd\<lparr>cmdPid := Some 7\<rparr>)) (Some errESRCH) ProcReaped = Some errProcessDone"
  using signal_gone_process[of None ProcReaped "sample_cmd\<lparr>cmdPid := Some 7\<rparr>" 7] by simp

text \<open>
  The diagnostic line appears exactly when the wait failed with something that is
  not a process exit, or the child lived for less than a second, and at most once.
\<close>

theorem abnormal_wait_logged_iff:
  "(logAbnormalWait kind i pid elapsed err \<noteq> [] \<longleftrightarrow>
      (\<exists>e. err = Some e \<and> as_exec_exit e = None) \<or> (0 < elapsed \<and> elapsed < second)) \<and>
   length (logAbnormalWait kind i pid elapsed err) \<le> 1"
  by (auto simp: logAbnormalWait_def Let_def as_exec_exit_opt_def split: option.splits)

lemma hex_digit_inj: "a < 16 \<Longrightarrow> b < 16 \<Longrightarrow> hex_digit a = hex_digit b \<Longrightarrow> a = b"
proof -
  assume a: "a < 16" "b < 16" "hex_digit a = hex_digit b"
  have v: "of_char (hex_digit n) = (if n < 10 then 48 + n else 87 + n)" if "n < 16" for n :: nat
    using that by (simp add: hex_digit_def)
  have "(if a < 10 then 48 + a else 87 + a) = (if b < 10 then 48 + b else 87 + b)"
    using v[OF a(1)] v[OF a(2)] a(3) by simp
  then show "a = b" using a(1,2) by (simp split: if_splits)
qed

lemma hex_encode_inj: "length a = length b \<Longrightarrow> hex_encode a = hex_encode b \<Longrightarrow> a = b"
proof (induction a b rule: list_induct2)
  case (Cons x xs y ys)
  have lt: "of_char c div 16 < (16::nat)" "of_char c mod 16 < (16::nat)" for c :: char
    using nat_of_char_less_256[of c] by (simp_all add: less_mult_imp_div_less)
  have "of_char x div 16 = (of_char y div 16 :: nat)" "of_char x mod 16 = (of_char y mod 16 :: nat)"
    using Cons.prems hex_digit_inj lt by (auto simp: hex_encode_def)
  then have "of_char x = (of_char y :: nat)" by (metis div_mult_mod_eq)
  then show ?case using Cons by (simp add: hex_encode_def)
qed simp

lemma length_hex_encode: "length (hex_encode b) = 2 * length b"
  by (induction b) (auto simp: hex_encode_def)

text \<open>
  Attach ids: 16 random bytes give 32 characters, different bytes give different
  ids, and the failure sentinel is none of them.
\<close>

theorem attach_ids_injective:
  assumes "length a = 16" "length b = 16"
  shows "length (defaultIDFn (Inr a)) = 32 \<and> (defaultIDFn (Inr a) = defaultIDFn (Inr b) \<longleftrightarrow> a = b) \<and>
     defaultIDFn (Inl e) \<noteq> defaultIDFn (Inr a)"
proof -
  have "length (defaultIDFn (Inl e)) \<noteq> length (defaultIDFn (Inr a))"
    using assms by (simp add: defaultIDFn_def length_hex_encode)
  then have "defaultIDFn (Inl e) \<noteq> defaultIDFn (Inr a)" by metis
  then show ?thesis using assms hex_encode_inj[of a b] by (auto simp: defaultIDFn_def length_hex_encode)
qed

lemma attach_ids_injective_witness:
  "defaultIDFn (Inr (replicate 16 CHR ''a'')) \<noteq> defaultIDFn (Inr (replicate 16 CHR ''b''))"
  using attach_ids_injective[of "replicate 16 CHR ''a''" "replicate 16 CHR ''b''"] by simp

text \<open>
  Event fanout never blocks: on an open channel the event is queued if there is
  room and dropped otherwise, and nothing else changes; only a channel the caller
  closed too early panics.
\<close>

theorem event_fanout_total:
  "tryEventFanout None ev = Some None \<and>
   (tryEventFanout (Some c) ev = None \<longleftrightarrow> chClosed c) \<and>
   (\<not> chClosed c \<longrightarrow> tryEventFanout (Some c) ev =
      Some (Some (if length (chQueue c) < chCap c then c\<lparr>chQueue := chQueue c @ [ev]\<rparr> else c)))"
  by (auto simp: tryEventFanout_def chan_try_send_def)

lemma event_fanout_total_witness:
  "tryEventFanout (Some (new_chan 1)) (5::nat) = Some (Some ((new_chan 1)\<lparr>chQueue := [5]\<rparr>))"
  using event_fanout_total[of "5::nat" "new_chan 1"] by simp

lemma ulimit_script_values_witness:
  "length (ulimit_parts ''linux'' False sample_limits) = 1"
  using ulimit_script_values[of "''linux''" False sample_limits] by (simp add: sample_limits_def)

end
