(* ===== verification/Long_Lived.thy ===== *)
theory Long_Lived imports Boot_Planting Os_Support begin

text \<open>
  The long-lived child sessions: \<open>pty_session.go\<close>, \<open>streaming_stdio_session.go\<close> and
  the part of \<open>jsonrpc_stdio_session.go\<close> they share.  The three files repeat the same
  lifecycle; where they differ the \<open>child_kind\<close> decides.

  The session record holds the fields of the Go structs.  What a session does to
  the outside (process, pipe, log file, callbacks) is appended to a trace, and what
  the outside answers (is the binary found, does a pipe open, which pid, does a
  write fail) is an argument.  Adapters belong to another module: the functions of
  theirs the code calls are the record \<open>child_adapter\<close>.
\<close>

section \<open>Lines\<close>

text \<open>
  \<open>bufio.Scanner\<close> with \<open>ScanLines\<close> and a buffer of \<open>limit\<close> bytes: a line whose content
  fills the buffer before its newline stops the scanner for good (the flag).
\<close>

definition scannerLimit :: nat where "scannerLimit = 1024 * 1024"

definition newline :: char where "newline = CHR 0x0A"

definition drop_cr :: "bytes \<Rightarrow> bytes" where
  "drop_cr l = (if l \<noteq> [] \<and> last l = CHR 0x0D then butlast l else l)"

function scan_lines :: "nat \<Rightarrow> bytes \<Rightarrow> bytes list \<times> bool" where
  "scan_lines limit data =
     (if data = [] then ([], False)
      else
        let l = takeWhile (\<lambda>c. c \<noteq> newline) data; rest = drop (length l) data in
        if limit \<le> length l then ([], True)
        else if rest = [] then ([drop_cr l], False)
        else case scan_lines limit (tl rest) of (ls, e) \<Rightarrow> (drop_cr l # ls, e))"
  by pat_completeness auto
termination
  by (relation "measure (\<lambda>(limit, data). length data)") (auto simp: length_takeWhile_le)

declare scan_lines.simps [simp del]

text \<open>The payload of one \<open>SendInput\<close>: a trailing newline is appended unless there is one.\<close>

definition frame_input :: "bytes \<Rightarrow> bytes" where
  "frame_input data = (if data = [] \<or> last data \<noteq> newline then data @ [newline] else data)"

section \<open>Configuration\<close>

datatype child_kind = PtyChild | StreamingChild | JsonRpcChild

record stream_event =
  evIsSessionID :: bool
  evSessionID :: string
  evPayload :: string

record child_adapter =
  caName :: string
  caDetect :: "string option"
  caBuildArgs :: "string \<Rightarrow> string \<Rightarrow> string \<Rightarrow> string list"
  caParseLine :: "bytes \<Rightarrow> stream_event list option"
  caParseLineEvents :: "(bytes \<Rightarrow> string list option) option"

record child_config =
  ccKind :: child_kind
  ccID :: string
  ccCaps :: capabilities
  ccAdapter :: child_adapter
  ccEnviron :: "string list"

fun kind_text :: "child_kind \<Rightarrow> string" where
  "kind_text PtyChild = ''pty''"
| "kind_text StreamingChild = ''streaming-stdio''"
| "kind_text JsonRpcChild = ''jsonrpc-stdio''"

definition binary_not_found :: "child_adapter \<Rightarrow> go_error" where
  "binary_not_found ad = ErrorsNew (''agentsessions: adapter '' @ go_quote (caName ad) @ '' binary not found'')"

definition prepare :: "child_config \<Rightarrow> go_error option" where
  "prepare cfg =
     (if \<not> BinaryRequired (ccCaps cfg) then None
      else case caDetect (ccAdapter cfg) of
        Some b \<Rightarrow> None
      | None \<Rightarrow> Some (binary_not_found (ccAdapter cfg)))"

section \<open>Session state\<close>

datatype act =
    ActSandboxApply
  | ActSandboxCleanup
  | ActLimitCleanup
  | ActCloseStdin
  | ActCloseStdout
  | ActClosePty
  | ActSpawn int cmd
  | ActWrite bytes
  | ActLog bytes
  | ActFanout bytes
  | ActOnSessionID string
  | ActTyped string
  | ActActivity
  | ActSignal int
  | ActWaitChild
  | ActCloseLog
  | ActRemoveBootDir
  | ActBackoff duration
  | ActOnRestart nat exit_error
  | ActAbnormalWait abnormal_wait

record child_session =
  csOpts :: start_options
  csBootDir :: string
  csCmd :: "cmd option"
  csInput :: bool
  csState :: live_state
  csAlive :: bool
  csStartedPID :: int
  csLastPID :: int
  csLastSessionID :: string
  csEvents :: "stream_event chan option"
  csDone :: bool
  csWaitOnce :: bool
  csWaitCode :: int
  csWaitErr :: "go_error option"
  csStopOnce :: bool
  csStopRequested :: bool
  csTrace :: "act list"

definition act :: "act \<Rightarrow> child_session \<Rightarrow> child_session" where
  "act a s = s\<lparr>csTrace := csTrace s @ [a]\<rparr>"

definition acts :: "act list \<Rightarrow> child_session \<Rightarrow> child_session" where
  "acts as s = s\<lparr>csTrace := csTrace s @ as\<rparr>"

definition new_child :: "start_options \<Rightarrow> string \<Rightarrow> stream_event chan option \<Rightarrow> child_session" where
  "new_child opts bootDir events =
     \<lparr>csOpts = opts, csBootDir = bootDir, csCmd = None, csInput = False, csState = LiveStateIdle,
      csAlive = True, csStartedPID = 0, csLastPID = 0, csLastSessionID = optSessionIDPreset opts,
      csEvents = events, csDone = False, csWaitOnce = False, csWaitCode = 0, csWaitErr = None,
      csStopOnce = False, csStopRequested = False, csTrace = []\<rparr>"

text \<open>\<open>tickActivity\<close>: the callback runs only under a supervisor that has one.\<close>

definition tickActivity :: "child_session \<Rightarrow> child_session" where
  "tickActivity s =
     (case optSupervisor (csOpts s) of
        Some so \<Rightarrow> if ActivityCallback so then act ActActivity s else s
      | None \<Rightarrow> s)"

text \<open>\<open>int32(c)\<close>, as the atomic counters store it.\<close>

definition int32 :: "int \<Rightarrow> int" where
  "int32 c = (c + 2 ^ 31) mod 2 ^ 32 - 2 ^ 31"

section \<open>Spawning\<close>

record spawn_oracle =
  spSandbox :: "cmd \<Rightarrow> go_error + cmd"
  spLimits :: "cmd \<Rightarrow> go_error option \<times> cmd"
  spStdin :: "go_error option"
  spStdout :: "go_error option"
  spStart :: "go_error + int"
  spBootWrite :: "go_error option"

definition boot_on_stdin :: "start_options \<Rightarrow> bool" where
  "boot_on_stdin opts \<longleftrightarrow> optBootMode opts = ''stdin'' \<and> optBootPrompt opts \<noteq> ''''"

text \<open>The provider session id given to \<open>BuildArgs\<close> for attempt \<open>n\<close>.\<close>

definition resume_id :: "child_config \<Rightarrow> child_session \<Rightarrow> nat \<Rightarrow> string" where
  "resume_id cfg s attempt =
     (if attempt > 0 \<and> ProviderSessionID (ccCaps cfg) \<and> csLastSessionID s \<noteq> ''''
      then csLastSessionID s else optSessionIDPreset (csOpts s))"

definition spawn_cmd :: "child_config \<Rightarrow> child_session \<Rightarrow> nat \<Rightarrow> string \<Rightarrow> cmd" where
  "spawn_cmd cfg s attempt binary =
     (let opts = csOpts s;
          systemPrompt = (if optBootMode opts = ''stdin'' then '''' else optBootPrompt opts);
          args = caBuildArgs (ccAdapter cfg) '''' systemPrompt (resume_id cfg s attempt) @ optExtraArgs opts;
          c = \<lparr>cmdPath = binary, cmdArgs = binary # args, cmdDir = optWorkdir opts,
               cmdEnv = (if optEnv opts \<noteq> [] then optEnv opts else ccEnviron cfg),
               cmdExtraFiles = optExtraFiles opts, cmdSetpgid = False,
               cmdStderr = (if ccKind cfg = PtyChild then StderrNone else if optStderr opts then StderrCaller else StderrLog),
               cmdPid = None\<rparr>
      in if ccKind cfg = PtyChild then configurePTYCommandProcessGroup c else configureCommandProcessGroup c)"

definition spawn_cleanup :: "start_options \<Rightarrow> act list" where
  "spawn_cleanup opts = ActLimitCleanup # (if optProfileID opts \<noteq> '''' then [ActSandboxCleanup] else [])"

definition spawn_err :: "string \<Rightarrow> go_error \<Rightarrow> go_error" where
  "spawn_err what e = Wrapped (''agentsessions: '' @ what) e"

definition spawnAttempt ::
  "child_config \<Rightarrow> spawn_oracle \<Rightarrow> nat \<Rightarrow> child_session \<Rightarrow> (go_error + cmd) \<times> child_session" where
  "spawnAttempt cfg o' attempt s =
     (case caDetect (ccAdapter cfg) of
        None \<Rightarrow> (Inl (binary_not_found (ccAdapter cfg)), s)
      | Some binary \<Rightarrow>
          let opts = csOpts s; c0 = spawn_cmd cfg s attempt binary; pipes = (ccKind cfg \<noteq> PtyChild);
              sandboxed = (optProfileID opts \<noteq> '''') in
          case (if sandboxed then spSandbox o' c0 else Inr c0) of
            Inl e \<Rightarrow> (Inl (spawn_err ''sandbox apply'' e), s)
          | Inr c1 \<Rightarrow>
              let s1 = (if sandboxed then act ActSandboxApply s else s) in
              (case spLimits o' c1 of
                 (Some e, c2) \<Rightarrow>
                   (Inl (spawn_err ''apply resource limits'' e),
                    (if sandboxed then act ActSandboxCleanup s1 else s1))
               | (None, c2) \<Rightarrow>
                   (case (if pipes then spStdin o' else None) of
                      Some e \<Rightarrow> (Inl (spawn_err ''stdin pipe'' e), acts (spawn_cleanup opts) s1)
                    | None \<Rightarrow>
                   (case (if pipes then spStdout o' else None) of
                      Some e \<Rightarrow> (Inl (spawn_err ''stdout pipe'' e),
                                 acts (ActCloseStdin # spawn_cleanup opts) s1)
                    | None \<Rightarrow>
                   (case spStart o' of
                      Inl e \<Rightarrow> (Inl (spawn_err (if pipes then ''start'' else ''pty start'') e),
                                acts ((if pipes then [ActCloseStdin, ActCloseStdout] else []) @ spawn_cleanup opts) s1)
                    | Inr pid \<Rightarrow>
                        let c3 = c2\<lparr>cmdPid := Some pid\<rparr>;
                            s2 = act (ActSpawn pid c3) (s1\<lparr>csCmd := Some c3, csInput := True,
                                   csStartedPID := (if attempt = 0 then int32 pid else csStartedPID s1),
                                   csLastPID := int32 pid\<rparr>)
                        in if pipes \<and> attempt = 0 \<and> boot_on_stdin opts then
                             (case spBootWrite o' of
                                Some e \<Rightarrow>
                                  (Inl (spawn_err ''write boot prompt'' e),
                                   acts ([ActSignal SIGKILL, ActWaitChild, ActCloseStdin, ActCloseStdout] @ spawn_cleanup opts) s2)
                              | None \<Rightarrow> (Inr c3, tickActivity (act (ActWrite (optBootPrompt opts)) s2)))
                           else (Inr c3, s2))))))"

section \<open>The reader\<close>

definition sink_write :: "bytes \<Rightarrow> child_session \<Rightarrow> child_session" where
  "sink_write l s = acts (ActLog l # (if optFanout (csOpts s) \<noteq> None then [ActFanout l] else [])) s"

fun handle_events :: "stream_event list \<Rightarrow> child_session \<Rightarrow> child_session option" where
  "handle_events [] s = Some s"
| "handle_events (ev # evs) s =
     (let s1 = (if evIsSessionID ev \<and> evSessionID ev \<noteq> ''''
                then (let s' = s\<lparr>csLastSessionID := evSessionID ev\<rparr>
                      in if optOnSessionID (csOpts s) then act (ActOnSessionID (evSessionID ev)) s' else s')
                else s)
      in case tryEventFanout (csEvents s1) ev of
           None \<Rightarrow> None
         | Some ch \<Rightarrow> handle_events evs (s1\<lparr>csEvents := ch\<rparr>))"

definition typed_events :: "child_config \<Rightarrow> bytes \<Rightarrow> child_session \<Rightarrow> child_session" where
  "typed_events cfg raw s =
     (if \<not> optTypedEventCallback (csOpts s) then s
      else case caParseLineEvents (ccAdapter cfg) of
        None \<Rightarrow> s
      | Some p \<Rightarrow> (case p raw of None \<Rightarrow> s | Some ts \<Rightarrow> acts (map ActTyped ts) s))"

text \<open>
  One scanned line: activity, log and fanout, then the parsers.  \<open>accepts\<close> tells
  whether the JSON-RPC reader could decode the frame; the other readers accept
  every line.
\<close>

definition reader_line :: "child_config \<Rightarrow> (bytes \<Rightarrow> bool) \<Rightarrow> bytes \<Rightarrow> child_session \<Rightarrow> child_session option" where
  "reader_line cfg accepts raw s =
     (let s1 = sink_write (raw @ [newline]) (tickActivity s) in
      if ccKind cfg = JsonRpcChild \<and> \<not> accepts raw then Some s1
      else map_option (typed_events cfg raw)
        (case caParseLine (ccAdapter cfg) raw of None \<Rightarrow> Some s1 | Some evs \<Rightarrow> handle_events evs s1))"

fun read_lines :: "child_config \<Rightarrow> (bytes \<Rightarrow> bool) \<Rightarrow> bytes list \<Rightarrow> child_session \<Rightarrow> child_session option" where
  "read_lines cfg accepts [] s = Some s"
| "read_lines cfg accepts (l # ls) s =
     (case reader_line cfg accepts l s of None \<Rightarrow> None | Some s' \<Rightarrow> read_lines cfg accepts ls s')"

definition runReaderLoop :: "child_config \<Rightarrow> (bytes \<Rightarrow> bool) \<Rightarrow> bytes \<Rightarrow> child_session \<Rightarrow> child_session option" where
  "runReaderLoop cfg accepts output s = read_lines cfg accepts (fst (scan_lines scannerLimit output)) s"

section \<open>Input\<close>

text \<open>\<open>SendInput\<close>: the lock-free check, and the locked write (\<open>werr\<close>: the pipe's answer).\<close>

definition input_alive :: "child_session \<Rightarrow> bool" where
  "input_alive s = csAlive s"

definition input_write :: "go_error option \<Rightarrow> bytes \<Rightarrow> child_session \<Rightarrow> go_error option \<times> child_session" where
  "input_write werr payload s =
     (if \<not> csInput s then (Some ErrNoInputChannel, s)
      else case werr of Some e \<Rightarrow> (Some e, s) | None \<Rightarrow> (None, tickActivity (act (ActWrite payload) s)))"

definition childSendInput :: "go_error option \<Rightarrow> bytes \<Rightarrow> child_session \<Rightarrow> go_error option \<times> child_session" where
  "childSendInput werr data s =
     (if \<not> input_alive s then (Some ErrNoInputChannel, s) else input_write werr (frame_input data) s)"

definition writeRawInputString :: "go_error option \<Rightarrow> bytes \<Rightarrow> child_session \<Rightarrow> go_error option \<times> child_session" where
  "writeRawInputString werr data s =
     (if \<not> input_alive s then (Some ErrNoInputChannel, s) else input_write werr data s)"

section \<open>Queries\<close>

definition childResize :: "child_config \<Rightarrow> go_error option \<Rightarrow> child_session \<Rightarrow> go_error option" where
  "childResize cfg ioctl s =
     (if ccKind cfg \<noteq> PtyChild \<or> \<not> CapResize (ccCaps cfg) \<or> \<not> csInput s then None else ioctl)"

definition childHealth :: "child_session \<Rightarrow> health_status" where
  "childHealth s =
     \<lparr>hsAlive = csAlive s, hsPID = (if csAlive s then csStartedPID s else 0), hsState = csState s, hsTurnID = ''''\<rparr>"

definition childCheckpointHints :: "child_config \<Rightarrow> child_session \<Rightarrow> bytes option" where
  "childCheckpointHints cfg s =
     (if ccKind cfg = PtyChild \<or> \<not> CheckpointResume (ccCaps cfg) \<or> csLastSessionID s = '''' then None
      else Some (csLastSessionID s))"

definition childLivePID :: "child_session \<Rightarrow> int" where
  "childLivePID s = (if csAlive s then csStartedPID s else 0)"

definition childLastPID :: "child_session \<Rightarrow> int" where
  "childLastPID s = csLastPID s"

definition childProviderSessionID :: "child_session \<Rightarrow> string" where
  "childProviderSessionID s = csLastSessionID s"

section \<open>Ending\<close>

text \<open>\<open>Wait\<close>: None while the session runs.\<close>

definition childWait :: "child_session \<Rightarrow> (int \<times> go_error option) option" where
  "childWait s = (if csDone s then Some (csWaitCode s, csWaitErr s) else None)"

text \<open>The waiter clears the input under the lock before it closes the descriptors.\<close>

fun close_io :: "child_kind \<Rightarrow> act list" where
  "close_io PtyChild = [ActClosePty]"
| "close_io k = [ActCloseStdin, ActCloseStdout]"

definition clear_input :: "child_kind \<Rightarrow> child_session \<Rightarrow> child_session" where
  "clear_input k s = acts (close_io k) (s\<lparr>csInput := False\<rparr>)"

definition finish :: "int \<Rightarrow> go_error option \<Rightarrow> child_session \<Rightarrow> child_session" where
  "finish code err s =
     (let s1 = (act ActCloseLog s)\<lparr>csAlive := False, csState := LiveStateStopped\<rparr>;
          s2 = (if csWaitOnce s1 then s1
                else s1\<lparr>csWaitOnce := True, csWaitCode := int32 code, csWaitErr := err, csDone := True\<rparr>)
      in s2)"

definition remove_boot_dir :: "child_session \<Rightarrow> child_session" where
  "remove_boot_dir s = (if csBootDir s = '''' then s else act ActRemoveBootDir s)"

text \<open>
  The waiter of an unsupervised session, after \<open>cmd.Wait\<close> returned \<open>err\<close> and the
  reader has finished.
\<close>

definition legacy_result :: "go_error option \<Rightarrow> int \<times> go_error option" where
  "legacy_result err =
     (case err of None \<Rightarrow> (0, None)
      | Some e \<Rightarrow> (case as_exec_exit e of Some ps \<Rightarrow> (psExitCode ps, None) | None \<Rightarrow> (-1, Some e)))"

definition spawnWaiterLegacy :: "child_config \<Rightarrow> int \<Rightarrow> go_error option \<Rightarrow> child_session \<Rightarrow> child_session" where
  "spawnWaiterLegacy cfg elapsed err s =
     (let s0 = acts (map ActAbnormalWait (logAbnormalWait (kind_text (ccKind cfg)) (ccID cfg)
                 (case csCmd s of Some c \<Rightarrow> (case cmdPid c of Some p \<Rightarrow> p | None \<Rightarrow> 0) | None \<Rightarrow> 0) elapsed err)) s;
          (code, werr) = legacy_result err;
          s1 = finish code werr (clear_input (ccKind cfg) s0)
      in remove_boot_dir (acts (spawn_cleanup (csOpts s1)) s1))"

text \<open>The deferred part of \<open>runSupervised\<close>.\<close>

definition finish_supervised :: "exit_error option \<Rightarrow> child_session \<Rightarrow> child_session" where
  "finish_supervised lastExit s =
     remove_boot_dir
       (finish (case lastExit of None \<Rightarrow> 0 | Some xe \<Rightarrow> xeCode xe)
               (map_option AsExitError lastExit) s)"

section \<open>Stop\<close>

text \<open>
  \<open>Stop\<close> runs once: mark and signal, then (pipes only) close stdin and give the child
  two seconds, then SIGTERM and five more seconds, then SIGKILL.  The record says
  how the waits and the signals turn out.
\<close>

record stop_oracle =
  stDoneInEofGrace :: bool
  stTermErr :: "go_error option"
  stDoneInGrace :: bool
  stKillErr :: "go_error option"

definition stop_begin :: "child_session \<Rightarrow> child_session" where
  "stop_begin s =
     (if csStopOnce s then s
      else s\<lparr>csStopOnce := True, csAlive := False, csState := LiveStateStopped, csStopRequested := True\<rparr>)"

definition stop_kill :: "child_config \<Rightarrow> stop_oracle \<Rightarrow> child_session \<Rightarrow> go_error option \<times> child_session" where
  "stop_kill cfg o' s =
     (let s1 = (if ccKind cfg \<noteq> PtyChild \<and> csInput s then act ActCloseStdin s else s) in
      case csCmd s1 of
        None \<Rightarrow> (None, s1)
      | Some c \<Rightarrow>
          if cmdPid c = None then (None, s1)
          else if ccKind cfg \<noteq> PtyChild \<and> stDoneInEofGrace o' then (None, s1)
          else
            let s2 = act (ActSignal SIGTERM) s1 in
            if stTermErr o' \<noteq> None then (None, s2)
            else if stDoneInGrace o' then (None, s2)
            else (stKillErr o', act (ActSignal SIGKILL) s2))"

definition childStop :: "child_config \<Rightarrow> stop_oracle \<Rightarrow> child_session \<Rightarrow> go_error option \<times> child_session" where
  "childStop cfg o' s = (if csStopOnce s then (None, s) else stop_kill cfg o' (stop_begin s))"

end
