(* ===== verification/Long_Lived_Run.thy ===== *)
theory Long_Lived_Run imports Long_Lived begin

text \<open>
  \<open>Runtime.Start\<close> of the long-lived runtimes and the restart loop of
  \<open>runSupervised\<close>.
\<close>

section \<open>Start\<close>

definition errLogPath :: "child_kind \<Rightarrow> go_error" where
  "errLogPath k = ErrorsNew (''agentsessions: '' @ kind_text k @
     '' runtime requires StartOptions.LogPath or StartOptions.WorkspaceDir'')"

definition errWorkdir :: "child_kind \<Rightarrow> go_error" where
  "errWorkdir k = ErrorsNew (''agentsessions: StartOptions.Workdir is required for '' @ kind_text k @ '' runtime'')"

definition resolveLogPath ::
  "child_kind \<Rightarrow> fs_oracle \<Rightarrow> start_options \<Rightarrow> file_system \<Rightarrow> (go_error + string) \<times> file_system" where
  "resolveLogPath k io opts fs =
     (if optLogPath opts \<noteq> '''' then (Inr (optLogPath opts), fs)
      else if optWorkspaceDir opts = '''' then (Inl (errLogPath k), fs)
      else
        let p = join_path (join_path (clean_path (optWorkspaceDir opts)) ''logs'') ''session.log'' in
        case os_MkdirAll io (dir_path p) fs of
          (Some e, fs') \<Rightarrow> (Inl (Wrapped ''agentsessions: ensure log dir'' e), fs')
        | (None, fs') \<Rightarrow> (Inr (path_text p), fs'))"

record start_oracle =
  soFs :: fs_oracle
  soCreateLog :: "go_error option"
  soSpawn :: spawn_oracle
  soCtxDone :: bool
  soBootWrite :: "go_error option"
  soFirstTurn :: "go_error option"
  soStop :: stop_oracle

record start_result =
  srError :: "go_error option"
  srSession :: "child_session option"
  srFs :: file_system
  srCfg :: child_config
  srSupervised :: bool

definition failed_start :: "child_config \<Rightarrow> go_error \<Rightarrow> child_session option \<Rightarrow> file_system \<Rightarrow> start_result" where
  "failed_start cfg e s fs =
     \<lparr>srError = Some e, srSession = s, srFs = fs, srCfg = cfg, srSupervised = False\<rparr>"

text \<open>
  \<open>behav\<close> gives the behaviour of an adapter, which planting may replace by a clone.
  A failed start that got as far as a child keeps the session in the result: its
  goroutines run on (\<open>Stop\<close> has been called), though the caller gets the error only.
\<close>

definition childStart ::
  "child_config \<Rightarrow> adapter \<Rightarrow> (adapter \<Rightarrow> child_adapter) \<Rightarrow> start_oracle \<Rightarrow> start_options \<Rightarrow>
   stream_event chan option \<Rightarrow> file_system \<Rightarrow> start_result" where
  "childStart cfg ad behav o' opts0 events fs =
     (let k = ccKind cfg in
      if optWorkdir opts0 = '''' then failed_start cfg (errWorkdir k) None fs
      else case preparePlant (soFs o') opts0 ad (ccID cfg) fs of
        (pr, fs1) \<Rightarrow>
          (case prError pr of
             Some e \<Rightarrow> failed_start cfg e None fs1
           | None \<Rightarrow>
               let opts = prOptions pr; bootDir = prBootDir pr;
                   cfg = cfg\<lparr>ccAdapter := behav (prAdapter pr)\<rparr> in
               (case resolveLogPath k (soFs o') opts fs1 of
                  (Inl e, fs2) \<Rightarrow> failed_start cfg e None (cleanupBootDir (soFs o') bootDir fs2)
                | (Inr logPath, fs2) \<Rightarrow>
               (case soCreateLog o' of
                  Some e \<Rightarrow> failed_start cfg (Wrapped ''agentsessions: open log'' e) None
                              (cleanupBootDir (soFs o') bootDir fs2)
                | None \<Rightarrow>
                    (case spawnAttempt cfg (soSpawn o') 0 (new_child opts bootDir events) of
                       (Inl e, s1) \<Rightarrow> failed_start cfg e (Some (act ActCloseLog s1))
                                       (cleanupBootDir (soFs o') bootDir fs2)
                     | (Inr c, s1) \<Rightarrow>
                         let ok = (\<lambda>s. \<lparr>srError = None, srSession = Some s, srFs = fs2, srCfg = cfg,
                                     srSupervised = (optSupervisor opts \<noteq> None)\<rparr>);
                             fail = (\<lambda>e s. failed_start cfg e (Some (snd (childStop cfg (soStop o') s))) fs2)
                         in if k = PtyChild \<and> boot_on_stdin opts then
                              (if soCtxDone o' then fail ErrContext s1
                               else case writeRawInputString (soBootWrite o') (optBootPrompt opts) s1 of
                                 (Some e, s2) \<Rightarrow> fail (Wrapped ''agentsessions: write boot prompt'' e) s2
                               | (None, s2) \<Rightarrow> ok s2)
                            else if optAutoFireFirstTurn opts \<and> optFirstTurnPayload opts \<noteq> [] \<and> \<not> boot_on_stdin opts then
                              (case childSendInput (soFirstTurn o') (optFirstTurnPayload opts) s1 of
                                 (Some e, s2) \<Rightarrow> fail (Wrapped ''agentsessions: auto-fire first turn'' e) s2
                               | (None, s2) \<Rightarrow> ok s2)
                            else ok s1)))))"

section \<open>The restart loop\<close>

text \<open>
  What happens around attempt \<open>n\<close>: how the child ends, with the events its two
  supervisors see meanwhile; what the reader sees; whether the context or a \<open>Stop\<close>
  is noticed after the exit or during the backoff; how the next spawn goes.
\<close>

record attempt_oracle =
  aoState :: "process_state option"
  aoWaitErr :: "go_error option"
  aoSupEvents :: "sup_event list"
  aoStartedAt :: int
  aoOutput :: bytes
  aoElapsed :: int
  aoStopAfter :: bool
  aoStopInBackoff :: bool
  aoSpawn :: spawn_oracle

definition attempt_cause :: "supervisor_options \<Rightarrow> attempt_oracle \<Rightarrow> string" where
  "attempt_cause so a =
     getCause (asCause (sup_run so (aoStartedAt a) (aoSupEvents a) (attempt_start (aoStartedAt a) so)))"

definition attempt_exit :: "supervisor_options \<Rightarrow> attempt_oracle \<Rightarrow> exit_error option" where
  "attempt_exit so a = buildExitError (aoState a) (aoWaitErr a) (attempt_cause so a)"

text \<open>
  \<open>waitOnceSupervised\<close>: the reader runs over the child's output, the wait is
  diagnosed, the input cleared, the exit classified.  None is a panic of the event
  fanout.
\<close>

definition waitOnceSupervised ::
  "child_config \<Rightarrow> (bytes \<Rightarrow> bool) \<Rightarrow> supervisor_options \<Rightarrow> attempt_oracle \<Rightarrow> child_session \<Rightarrow>
   (exit_error option \<times> child_session) option" where
  "waitOnceSupervised cfg accepts so a s =
     (case runReaderLoop cfg accepts (aoOutput a) s of
        None \<Rightarrow> None
      | Some s1 \<Rightarrow>
          let pid = (case csCmd s1 of Some c \<Rightarrow> (case cmdPid c of Some p \<Rightarrow> p | None \<Rightarrow> 0) | None \<Rightarrow> 0);
              s2 = acts (map ActAbnormalWait
                     (logAbnormalWait (kind_text (ccKind cfg)) (ccID cfg) pid (aoElapsed a) (aoWaitErr a))) s1
          in Some (attempt_exit so a, clear_input (ccKind cfg) s2))"

definition maxRestarts :: "supervisor_options \<Rightarrow> nat" where
  "maxRestarts so = nat (RestartOnCrash so)"

text \<open>The loop from attempt \<open>n\<close>, with \<open>left\<close> restarts left.\<close>

fun restart_loop ::
  "child_config \<Rightarrow> (bytes \<Rightarrow> bool) \<Rightarrow> supervisor_options \<Rightarrow> (nat \<Rightarrow> attempt_oracle) \<Rightarrow> nat \<Rightarrow> nat \<Rightarrow> child_session \<Rightarrow>
   (exit_error option \<times> child_session) option" where
  "restart_loop cfg accepts so env left attempt s =
     (case waitOnceSupervised cfg accepts so (env attempt) s of
        None \<Rightarrow> None
      | Some (exit, s0) \<Rightarrow>
          let s1 = acts (spawn_cleanup (csOpts s0)) s0 in
          if aoStopAfter (env attempt) then Some (exit, s1)
          else case exit of
            None \<Rightarrow> Some (None, s1)
          | Some xe \<Rightarrow>
              if \<not> restartEligible (Some xe) then Some (Some xe, s1)
              else (case left of
                0 \<Rightarrow> Some (Some (with_cause CauseRestartExhausted xe), s1)
              | Suc left' \<Rightarrow>
                  let backoff = computeRestartBackoff (word_of_nat (Suc attempt)) (MaxRestartBackoff so);
                      s2 = act (ActBackoff backoff) s1
                  in if aoStopInBackoff (env attempt) then Some (Some xe, s2)
                     else
                       let s3 = (if OnRestart so then act (ActOnRestart (Suc attempt) xe) s2 else s2) in
                       (case spawnAttempt cfg (aoSpawn (env attempt)) (Suc attempt) s3 of
                          (Inl e, s4) \<Rightarrow>
                            Some (Some (ExitError (-1) 0 False None CauseRestartExhausted (Some e)), s4)
                        | (Inr c, s4) \<Rightarrow> restart_loop cfg accepts so env left' (Suc attempt) s4)))"

definition runSupervised ::
  "child_config \<Rightarrow> (bytes \<Rightarrow> bool) \<Rightarrow> supervisor_options \<Rightarrow> (nat \<Rightarrow> attempt_oracle) \<Rightarrow> child_session \<Rightarrow>
   child_session option" where
  "runSupervised cfg accepts so env s =
     (case restart_loop cfg accepts so env (maxRestarts so) 0 s of
        None \<Rightarrow> None
      | Some (lastExit, s') \<Rightarrow> Some (finish_supervised lastExit s'))"

end
