(* ===== verification/Long_Lived_Spec.thy ===== *)
theory Long_Lived_Spec imports Long_Lived_Run begin

text \<open>
  What the long-lived sessions guarantee: framing of input and output lines, the
  spawn discipline, the restart policy and its bounds.
\<close>

section \<open>Lines\<close>

definition clean_line :: "nat \<Rightarrow> bytes \<Rightarrow> bool" where
  "clean_line limit d \<longleftrightarrow> newline \<notin> set d \<and> length d < limit \<and> (d = [] \<or> last d \<noteq> CHR 0x0D)"

lemma takeWhile_line: "newline \<notin> set d \<Longrightarrow> takeWhile (\<lambda>c. c \<noteq> newline) (d @ newline # t) = d"
  by (induction d) auto

lemma scan_lines_Nil [simp]: "scan_lines limit [] = ([], False)"
  by (simp add: scan_lines.simps)

lemma scan_lines_line:
  assumes "newline \<notin> set d" "length d < limit"
  shows "scan_lines limit (d @ newline # t) =
     (case scan_lines limit t of (ls, e) \<Rightarrow> (drop_cr d # ls, e))"
  using assms by (subst scan_lines.simps) (simp add: takeWhile_line Let_def)

lemma scan_lines_long:
  assumes "newline \<notin> set d" "limit \<le> length d" "d \<noteq> []"
  shows "scan_lines limit (d @ newline # t) = ([], True)"
  using assms by (subst scan_lines.simps) (simp add: takeWhile_line Let_def)

lemma frame_input_clean:
  assumes "clean_line limit d"
  shows "frame_input d = d @ [newline]"
proof -
  have "d = [] \<or> last d \<noteq> newline" using assms last_in_set[of d] by (metis clean_line_def)
  then show ?thesis by (simp add: frame_input_def)
qed

lemma clean_line_drop_cr: "clean_line limit d \<Longrightarrow> drop_cr d = d"
  by (auto simp: clean_line_def drop_cr_def)

text \<open>C26.
  Framing round trip: whatever is sent with \<open>SendInput\<close> ends in exactly the newline it
  had or got, and a peer that scans lines as this library does reads back, in order,
  exactly the inputs that were sent, one line each, whatever follows them.
\<close>

theorem input_framing_roundtrip:
  assumes "\<forall>d \<in> set ds. clean_line limit d"
  shows "scan_lines limit (concat (map frame_input ds) @ rest) =
     (case scan_lines limit rest of (ls, e) \<Rightarrow> (ds @ ls, e))"
  using assms
proof (induction ds)
  case Nil
  then show ?case by (simp split: prod.split)
next
  case (Cons d ds)
  then have c: "clean_line limit d" by simp
  then have "scan_lines limit (d @ newline # (concat (map frame_input ds) @ rest)) =
     (case scan_lines limit (concat (map frame_input ds) @ rest) of (ls, e) \<Rightarrow> (drop_cr d # ls, e))"
    by (intro scan_lines_line) (auto simp: clean_line_def)
  then show ?case using Cons c by (simp add: frame_input_clean clean_line_drop_cr split: prod.split)
qed

lemma input_framing_roundtrip_witness:
  "scan_lines 100 (concat (map frame_input [''hello'', ''world''])) = ([''hello'', ''world''], False)"
  using input_framing_roundtrip[of "[''hello'', ''world'']" 100 "[]"]
  by (simp add: clean_line_def newline_def)

section \<open>What one section adds to the trace\<close>

text \<open>Acts that are no part of the restart protocol.\<close>

fun plain_act :: "act \<Rightarrow> bool" where
  "plain_act (ActSpawn p c) = False"
| "plain_act (ActBackoff d) = False"
| "plain_act (ActOnRestart n e) = False"
| "plain_act a = True"

definition adds :: "(act list \<Rightarrow> bool) \<Rightarrow> child_session \<Rightarrow> child_session \<Rightarrow> bool" where
  "adds P s s' \<longleftrightarrow> csOpts s' = csOpts s \<and> (\<exists>t. csTrace s' = csTrace s @ t \<and> P t)"

abbreviation adds_plain :: "child_session \<Rightarrow> child_session \<Rightarrow> bool" where
  "adds_plain \<equiv> adds (\<lambda>t. \<forall>a \<in> set t. plain_act a)"

lemma adds_plain_refl [simp]: "adds_plain s s"
  by (simp add: adds_def)

lemma adds_plain_trans: "adds_plain a b \<Longrightarrow> adds_plain b c \<Longrightarrow> adds_plain a c"
  unfolding adds_def by (metis Un_iff append_assoc set_append)

lemma act_sel [simp]:
  "csOpts (act a s) = csOpts s" "csTrace (act a s) = csTrace s @ [a]" "csLastSessionID (act a s) = csLastSessionID s"
  "csAlive (act a s) = csAlive s" "csInput (act a s) = csInput s" "csState (act a s) = csState s"
  "csDone (act a s) = csDone s" "csWaitCode (act a s) = csWaitCode s" "csWaitErr (act a s) = csWaitErr s"
  "csWaitOnce (act a s) = csWaitOnce s" "csStopOnce (act a s) = csStopOnce s" "csCmd (act a s) = csCmd s"
  "csStartedPID (act a s) = csStartedPID s" "csLastPID (act a s) = csLastPID s" "csEvents (act a s) = csEvents s"
  "csStopRequested (act a s) = csStopRequested s" "csBootDir (act a s) = csBootDir s"
  by (simp_all add: act_def)

lemma acts_sel [simp]:
  "csOpts (acts as s) = csOpts s" "csTrace (acts as s) = csTrace s @ as" "csLastSessionID (acts as s) = csLastSessionID s"
  "csAlive (acts as s) = csAlive s" "csInput (acts as s) = csInput s" "csState (acts as s) = csState s"
  "csDone (acts as s) = csDone s" "csWaitCode (acts as s) = csWaitCode s" "csWaitErr (acts as s) = csWaitErr s"
  "csWaitOnce (acts as s) = csWaitOnce s" "csStopOnce (acts as s) = csStopOnce s" "csCmd (acts as s) = csCmd s"
  "csStartedPID (acts as s) = csStartedPID s" "csLastPID (acts as s) = csLastPID s" "csEvents (acts as s) = csEvents s"
  "csStopRequested (acts as s) = csStopRequested s" "csBootDir (acts as s) = csBootDir s"
  by (simp_all add: acts_def)

lemma tickActivity_sel [simp]:
  "csOpts (tickActivity s) = csOpts s" "csLastSessionID (tickActivity s) = csLastSessionID s"
  "csAlive (tickActivity s) = csAlive s" "csInput (tickActivity s) = csInput s" "csState (tickActivity s) = csState s"
  "csDone (tickActivity s) = csDone s" "csWaitCode (tickActivity s) = csWaitCode s" "csWaitErr (tickActivity s) = csWaitErr s"
  "csWaitOnce (tickActivity s) = csWaitOnce s" "csStopOnce (tickActivity s) = csStopOnce s"
  "csStartedPID (tickActivity s) = csStartedPID s" "csLastPID (tickActivity s) = csLastPID s"
  "csStopRequested (tickActivity s) = csStopRequested s" "csBootDir (tickActivity s) = csBootDir s"
  "csCmd (tickActivity s) = csCmd s" "csEvents (tickActivity s) = csEvents s"
  by (simp_all add: tickActivity_def split: option.split)

lemma tickActivity_trace: "\<exists>t. csTrace (tickActivity s) = csTrace s @ t \<and> set t \<subseteq> {ActActivity}"
  by (auto simp: tickActivity_def split: option.split)

lemma adds_plain_tick [simp]: "adds_plain s (tickActivity s)"
  using tickActivity_trace[of s] by (fastforce simp: adds_def)

lemma adds_plain_sink [simp]: "adds_plain s (sink_write l s)"
  by (auto simp: adds_def sink_write_def)

lemma adds_plain_events: "handle_events evs s = Some s' \<Longrightarrow> adds_plain s s'"
proof (induction evs arbitrary: s)
  case Nil
  then show ?case by simp
next
  case (Cons ev evs)
  let ?s1 = "if evIsSessionID ev \<and> evSessionID ev \<noteq> ''''
       then (let s' = s\<lparr>csLastSessionID := evSessionID ev\<rparr>
             in if optOnSessionID (csOpts s) then act (ActOnSessionID (evSessionID ev)) s' else s') else s"
  have one: "adds_plain s (?s1\<lparr>csEvents := ch\<rparr>)" for ch by (auto simp: adds_def Let_def)
  obtain ch where "handle_events evs (?s1\<lparr>csEvents := ch\<rparr>) = Some s'"
    using Cons.prems by (auto simp: Let_def split: option.splits)
  then show ?case using Cons.IH one adds_plain_trans by blast
qed

lemma adds_plain_typed [simp]: "adds_plain s (typed_events cfg raw s)"
  by (auto simp: adds_def typed_events_def split: option.splits)

lemma adds_plain_line: "reader_line cfg acc raw s = Some s' \<Longrightarrow> adds_plain s s'"
proof -
  assume r: "reader_line cfg acc raw s = Some s'"
  let ?s1 = "sink_write (raw @ [newline]) (tickActivity s)"
  have one: "adds_plain s ?s1" using adds_plain_trans[OF adds_plain_tick adds_plain_sink] .
  show ?thesis
  proof (cases "ccKind cfg = JsonRpcChild \<and> \<not> acc raw")
    case True
    then show ?thesis using r one by (simp add: reader_line_def Let_def)
  next
    case False
    then obtain s2 where "s' = typed_events cfg raw s2" "adds_plain ?s1 s2"
      using r adds_plain_events[of _ ?s1]
      by (auto simp: reader_line_def Let_def split: option.splits if_splits)
    then show ?thesis using one adds_plain_trans adds_plain_typed by blast
  qed
qed

lemma adds_plain_read: "read_lines cfg acc ls s = Some s' \<Longrightarrow> adds_plain s s'"
  by (induction ls arbitrary: s) (auto split: option.splits dest: adds_plain_line intro: adds_plain_trans)

section \<open>The reader\<close>

definition log_of :: "act list \<Rightarrow> bytes" where
  "log_of t = concat (map (\<lambda>a. case a of ActLog l \<Rightarrow> l | _ \<Rightarrow> []) t)"

definition fanout_of :: "act list \<Rightarrow> bytes" where
  "fanout_of t = concat (map (\<lambda>a. case a of ActFanout l \<Rightarrow> l | _ \<Rightarrow> []) t)"

lemma log_of_append [simp]: "log_of (a @ b) = log_of a @ log_of b" "fanout_of (a @ b) = fanout_of a @ fanout_of b"
  by (simp_all add: log_of_def fanout_of_def)

lemma log_of_simps [simp]:
  "log_of [] = []" "fanout_of [] = []"
  "log_of (a # t) = (case a of ActLog l \<Rightarrow> l | _ \<Rightarrow> []) @ log_of t"
  "fanout_of (a # t) = (case a of ActFanout l \<Rightarrow> l | _ \<Rightarrow> []) @ fanout_of t"
  by (simp_all add: log_of_def fanout_of_def)

definition unlogged :: "child_session \<Rightarrow> child_session \<Rightarrow> bool" where
  "unlogged s s' \<longleftrightarrow> csOpts s' = csOpts s \<and> log_of (csTrace s') = log_of (csTrace s) \<and>
     fanout_of (csTrace s') = fanout_of (csTrace s)"

lemma unlogged_trans: "unlogged a b \<Longrightarrow> unlogged b c \<Longrightarrow> unlogged a c"
  by (simp add: unlogged_def)

lemma unlogged_tick: "unlogged s (tickActivity s)"
  by (auto simp: unlogged_def tickActivity_def split: option.split)

lemma unlogged_events: "handle_events evs s = Some s' \<Longrightarrow> unlogged s s'"
proof (induction evs arbitrary: s)
  case Nil
  then show ?case by (simp add: unlogged_def)
next
  case (Cons ev evs)
  let ?s1 = "if evIsSessionID ev \<and> evSessionID ev \<noteq> ''''
       then (let s' = s\<lparr>csLastSessionID := evSessionID ev\<rparr>
             in if optOnSessionID (csOpts s) then act (ActOnSessionID (evSessionID ev)) s' else s') else s"
  have one: "unlogged s (?s1\<lparr>csEvents := ch\<rparr>)" for ch by (auto simp: unlogged_def Let_def)
  obtain ch where "handle_events evs (?s1\<lparr>csEvents := ch\<rparr>) = Some s'"
    using Cons.prems by (auto simp: Let_def split: option.splits)
  then show ?case using Cons.IH one unlogged_trans by blast
qed

lemma log_of_typed: "log_of (map ActTyped ts) = []" "fanout_of (map ActTyped ts) = []"
  by (induction ts) auto

lemma unlogged_typed: "unlogged s (typed_events cfg raw s)"
  by (auto simp: unlogged_def typed_events_def log_of_typed split: option.splits)

lemma reader_line_log:
  assumes "reader_line cfg acc raw s = Some s'"
  shows "csOpts s' = csOpts s \<and> log_of (csTrace s') = log_of (csTrace s) @ raw @ [newline] \<and>
     fanout_of (csTrace s') = fanout_of (csTrace s) @ (if optFanout (csOpts s) \<noteq> None then raw @ [newline] else [])"
proof -
  let ?s1 = "sink_write (raw @ [newline]) (tickActivity s)"
  have one: "log_of (csTrace ?s1) = log_of (csTrace s) @ raw @ [newline]" "csOpts ?s1 = csOpts s"
    "fanout_of (csTrace ?s1) = fanout_of (csTrace s) @ (if optFanout (csOpts s) \<noteq> None then raw @ [newline] else [])"
    using unlogged_tick[of s] by (auto simp: unlogged_def sink_write_def)
  have "unlogged ?s1 s'"
  proof (cases "ccKind cfg = JsonRpcChild \<and> \<not> acc raw")
    case True
    then show ?thesis using assms by (simp add: reader_line_def Let_def unlogged_def)
  next
    case False
    then obtain s2 where "s' = typed_events cfg raw s2" "unlogged ?s1 s2"
      using assms unlogged_events[of _ ?s1]
      by (auto simp: reader_line_def Let_def unlogged_def split: option.splits if_splits)
    then show ?thesis using unlogged_trans unlogged_typed by blast
  qed
  then show ?thesis using one by (simp add: unlogged_def)
qed

text \<open>
  The log is complete and in order: whatever the adapter makes of the lines, the
  reader appends to the session log exactly the scanned lines of the child's
  output, each with its newline, and to the caller's fanout the same bytes if there
  is one.
\<close>

theorem reader_logs_every_line:
  assumes "runReaderLoop cfg acc output s = Some s'"
  shows "log_of (csTrace s') = log_of (csTrace s) @
           concat (map (\<lambda>l. l @ [newline]) (fst (scan_lines scannerLimit output))) \<and>
     fanout_of (csTrace s') = fanout_of (csTrace s) @
       (if optFanout (csOpts s) \<noteq> None
        then concat (map (\<lambda>l. l @ [newline]) (fst (scan_lines scannerLimit output))) else [])"
proof -
  have "csOpts s' = csOpts s \<and> log_of (csTrace s') = log_of (csTrace s) @ concat (map (\<lambda>l. l @ [newline]) ls) \<and>
     fanout_of (csTrace s') = fanout_of (csTrace s) @
       (if optFanout (csOpts s) \<noteq> None then concat (map (\<lambda>l. l @ [newline]) ls) else [])"
    if "read_lines cfg acc ls s = Some s'" for ls
    using that
  proof (induction ls arbitrary: s)
    case (Cons l ls)
    then obtain s1 where s1: "reader_line cfg acc l s = Some s1" "read_lines cfg acc ls s1 = Some s'"
      by (auto split: option.splits)
    show ?case using Cons.IH[OF s1(2)] reader_line_log[OF s1(1)] by auto
  qed auto
  then show ?thesis using assms by (auto simp: runReaderLoop_def)
qed

text \<open>A small session for the witnesses: one parser that knows a session-id line.\<close>

definition sample_child_adapter :: child_adapter where
  "sample_child_adapter = \<lparr>caName = ''cat'', caDetect = Some ''/bin/cat'',
     caBuildArgs = (\<lambda>p sp sid. if sid = '''' then [] else [''--resume'', sid]),
     caParseLine = (\<lambda>l. if l = ''id'' then Some [\<lparr>evIsSessionID = True, evSessionID = ''s1'', evPayload = ''''\<rparr>] else Some []),
     caParseLineEvents = None\<rparr>"

definition sample_cfg :: child_config where
  "sample_cfg = \<lparr>ccKind = StreamingChild, ccID = ''r'', ccCaps = \<lparr>PTY = False, StreamingStdio = True,
     JsonRpcStdio = False, ServeHTTP = False, CapResize = False, ProviderSessionID = True,
     CheckpointResume = False, BinaryRequired = False\<rparr>, ccAdapter = sample_child_adapter, ccEnviron = [''HOME=/h'']\<rparr>"

definition sample_child :: child_session where
  "sample_child = new_child (plant_options\<lparr>optAutoPlantBootDir := False\<rparr>) '''' None"

lemma sample_reads:
  "\<exists>s'. runReaderLoop sample_cfg (\<lambda>l. True) [CHR ''i'', CHR ''d'', newline] sample_child = Some s'"
  by (simp add: runReaderLoop_def scan_lines.simps scannerLimit_def newline_def drop_cr_def Let_def
      reader_line_def sample_cfg_def sample_child_adapter_def sample_child_def new_child_def
      sink_write_def tickActivity_def plant_options_def acts_def act_def typed_events_def tryEventFanout_def
      split: option.splits)

lemma reader_logs_every_line_witness:
  "\<exists>s'. runReaderLoop sample_cfg (\<lambda>l. True) [CHR ''i'', CHR ''d'', newline] sample_child = Some s' \<and>
     log_of (csTrace s') = log_of (csTrace sample_child) @
       concat (map (\<lambda>l. l @ [newline]) (fst (scan_lines scannerLimit [CHR ''i'', CHR ''d'', newline])))"
  using sample_reads reader_logs_every_line by blast

section \<open>Spawning\<close>

definition count_act :: "act \<Rightarrow> act list \<Rightarrow> nat" where
  "count_act a t = length (filter (\<lambda>b. b = a) t)"

definition spawns :: "act list \<Rightarrow> nat" where
  "spawns t = length (filter (\<lambda>a. case a of ActSpawn p c \<Rightarrow> True | _ \<Rightarrow> False) t)"

lemma count_simps [simp]:
  "count_act a [] = 0" "count_act a (b # t) = of_bool (b = a) + count_act a t"
  "count_act a (t @ u) = count_act a t + count_act a u"
  "spawns [] = 0" "spawns (b # t) = (case b of ActSpawn p c \<Rightarrow> 1 | _ \<Rightarrow> 0) + spawns t"
  "spawns (t @ u) = spawns t + spawns u"
  by (auto simp: count_act_def spawns_def split: act.split)

definition spawn_balanced :: "(go_error + cmd) \<Rightarrow> act list \<Rightarrow> bool" where
  "spawn_balanced r t =
     (case r of
       Inl e \<Rightarrow> count_act ActSandboxApply t = count_act ActSandboxCleanup t \<and>
         count_act ActLimitCleanup t \<le> 1 \<and> spawns t \<le> 1 \<and>
         (0 < spawns t \<longrightarrow> count_act (ActSignal SIGKILL) t = 1 \<and> count_act ActWaitChild t = 1 \<and>
            count_act ActCloseStdin t = 1 \<and> count_act ActCloseStdout t = 1 \<and> count_act ActLimitCleanup t = 1)
     | Inr c \<Rightarrow> spawns t = 1 \<and> count_act ActSandboxCleanup t = 0 \<and> count_act ActLimitCleanup t = 0 \<and>
         count_act (ActSignal SIGKILL) t = 0)"


section \<open>The restart policy\<close>

text \<open>
  The policy without its state: \<open>crash\<close> says an attempt's exit is restart eligible;
  the loop ends at the first attempt whose exit is not, that is followed by a stop,
  or that exhausts the restarts, or whose successor cannot be spawned.
\<close>

definition on_restarts :: "act list \<Rightarrow> (nat \<times> exit_error) list" where
  "on_restarts t = concat (map (\<lambda>a. case a of ActOnRestart k e \<Rightarrow> [(k, e)] | _ \<Rightarrow> []) t)"

definition backoffs :: "act list \<Rightarrow> duration list" where
  "backoffs t = concat (map (\<lambda>a. case a of ActBackoff d \<Rightarrow> [d] | _ \<Rightarrow> []) t)"

lemma proj_simps [simp]:
  "on_restarts [] = []" "backoffs [] = []"
  "on_restarts (a # t) = (case a of ActOnRestart k e \<Rightarrow> [(k, e)] | _ \<Rightarrow> []) @ on_restarts t"
  "backoffs (a # t) = (case a of ActBackoff d \<Rightarrow> [d] | _ \<Rightarrow> []) @ backoffs t"
  "on_restarts (t @ u) = on_restarts t @ on_restarts u" "backoffs (t @ u) = backoffs t @ backoffs u"
  by (simp_all add: on_restarts_def backoffs_def)

lemma plain_no_restart: "\<forall>a \<in> set t. plain_act a \<Longrightarrow> on_restarts t = [] \<and> backoffs t = [] \<and> spawns t = 0"
  by (induction t) (auto split: act.split)

definition restarts_of ::
  "supervisor_options \<Rightarrow> (nat \<Rightarrow> attempt_oracle) \<Rightarrow> nat \<Rightarrow> nat \<Rightarrow> (nat \<times> exit_error) list" where
  "restarts_of so env a n =
     (if OnRestart so then map (\<lambda>k. (Suc k, the (attempt_exit so (env k)))) [a..<n] else [])"

definition backoff_of :: "supervisor_options \<Rightarrow> nat \<Rightarrow> duration" where
  "backoff_of so k = computeRestartBackoff (word_of_nat (Suc k)) (MaxRestartBackoff so)"

definition exhausted_spawn :: "go_error \<Rightarrow> exit_error" where
  "exhausted_spawn e = ExitError (-1) 0 False None CauseRestartExhausted (Some e)"

text \<open>
  How the loop can end after the restarts \<open>a .. n - 1\<close> have taken place: the exit it
  reports, the number of backoffs and of restart notifications and spawns.
\<close>

definition restart_end ::
  "supervisor_options \<Rightarrow> (nat \<Rightarrow> attempt_oracle) \<Rightarrow> nat \<Rightarrow> nat \<Rightarrow> exit_error option \<Rightarrow> nat \<Rightarrow> nat \<Rightarrow> bool" where
  "restart_end so env bound n exit nb nr \<longleftrightarrow>
     (let x = attempt_exit so (env n); crash = restartEligible x in
      ((aoStopAfter (env n) \<or> \<not> crash) \<and> exit = x \<and> nb = n \<and> nr = n) \<or>
      (\<not> aoStopAfter (env n) \<and> crash \<and> n = bound \<and>
         exit = map_option (with_cause CauseRestartExhausted) x \<and> nb = n \<and> nr = n) \<or>
      (\<not> aoStopAfter (env n) \<and> crash \<and> n < bound \<and> aoStopInBackoff (env n) \<and> exit = x \<and> nb = Suc n \<and> nr = n) \<or>
      (\<not> aoStopAfter (env n) \<and> crash \<and> n < bound \<and> \<not> aoStopInBackoff (env n) \<and>
         (\<exists>e. exit = Some (exhausted_spawn e)) \<and> nb = Suc n \<and> nr = Suc n))"

lemma plain_close_io [simp]: "\<forall>a \<in> set (close_io k). plain_act a"
  by (cases k) simp_all

lemma waitOnce_plain:
  assumes "waitOnceSupervised cfg acc so a s = Some (x, s')"
  shows "x = attempt_exit so a \<and> adds_plain s s' \<and> \<not> csInput s'"
proof -
  obtain s1 where s1: "runReaderLoop cfg acc (aoOutput a) s = Some s1"
    using assms by (auto simp: waitOnceSupervised_def split: option.splits)
  then have "adds_plain s s1" by (auto simp: runReaderLoop_def dest: adds_plain_read)
  moreover have "adds_plain s1 s'" using assms s1
    by (auto simp: waitOnceSupervised_def Let_def clear_input_def adds_def split: option.splits)
  ultimately have "adds_plain s s'" by (rule adds_plain_trans)
  then show ?thesis using assms s1 by (auto simp: waitOnceSupervised_def Let_def clear_input_def split: option.splits)
qed

lemma spawn_trace_restart:
  assumes "spawnAttempt cfg o' n s = (r, s')" "0 < n"
  shows "\<exists>t. csTrace s' = csTrace s @ t \<and> on_restarts t = [] \<and> backoffs t = [] \<and>
     spawns t = (case r of Inl e \<Rightarrow> 0 | Inr c \<Rightarrow> 1)"
  using assms
  by (cases "caDetect (ccAdapter cfg)")
    (auto simp: spawnAttempt_def Let_def spawn_cleanup_def split: option.splits sum.splits prod.splits if_splits)

lemma spawn_cleanup_plain: "on_restarts (spawn_cleanup o') = [] \<and> backoffs (spawn_cleanup o') = [] \<and> spawns (spawn_cleanup o') = 0"
  by (simp add: spawn_cleanup_def)

lemma restart_loop_spec:
  assumes "restart_loop cfg acc so env left a s = Some (exit, s')"
  shows "\<exists>n t nb nr. a \<le> n \<and> n \<le> a + left \<and> csTrace s' = csTrace s @ t \<and>
     (\<forall>k. a \<le> k \<and> k < n \<longrightarrow> restartEligible (attempt_exit so (env k)) \<and> \<not> aoStopAfter (env k) \<and> \<not> aoStopInBackoff (env k)) \<and>
     restart_end so env (a + left) n exit nb nr \<and>
     on_restarts t = restarts_of so env a nr \<and> backoffs t = map (backoff_of so) [a..<nb] \<and> spawns t = n - a"
  using assms
proof (induction left arbitrary: a s)
  case 0
  obtain x s0 where w: "waitOnceSupervised cfg acc so (env a) s = Some (x, s0)"
    using "0.prems" by (auto split: option.splits)
  note p = waitOnce_plain[OF w]
  obtain t where t: "csTrace s0 = csTrace s @ t" "\<forall>b \<in> set t. plain_act b" "csOpts s0 = csOpts s"
    using p by (auto simp: adds_def)
  let ?s1 = "acts (spawn_cleanup (csOpts s0)) s0"
  have tr: "csTrace ?s1 = csTrace s @ (t @ spawn_cleanup (csOpts s0))" using t by simp
  note pl = plain_no_restart[OF t(2)] spawn_cleanup_plain[of "csOpts s0"]
  have "s' = ?s1 \<and> restart_end so env a a exit a a"
    using "0.prems" w p
    by (auto simp: restart_end_def Let_def restartEligible_def split: if_splits option.splits)
  then show ?case using tr pl
    by (intro exI[of _ a] exI[of _ "t @ spawn_cleanup (csOpts s0)"]) (auto simp: restarts_of_def)
next
  case (Suc left)
  obtain x s0 where w: "waitOnceSupervised cfg acc so (env a) s = Some (x, s0)"
    using Suc.prems by (auto split: option.splits)
  note p = waitOnce_plain[OF w]
  obtain t where t: "csTrace s0 = csTrace s @ t" "\<forall>b \<in> set t. plain_act b" "csOpts s0 = csOpts s"
    using p by (auto simp: adds_def)
  let ?s1 = "acts (spawn_cleanup (csOpts s0)) s0"
  have tr: "csTrace ?s1 = csTrace s @ (t @ spawn_cleanup (csOpts s0))" using t by simp
  note pl = plain_no_restart[OF t(2)] spawn_cleanup_plain[of "csOpts s0"]
  show ?case
  proof (cases "aoStopAfter (env a) \<or> \<not> restartEligible x")
    case True
    then have "s' = ?s1 \<and> restart_end so env (a + Suc left) a exit a a"
      using Suc.prems w p
      by (auto simp: restart_end_def Let_def restartEligible_def split: if_splits option.splits)
    then show ?thesis using tr pl
      by (intro exI[of _ a] exI[of _ "t @ spawn_cleanup (csOpts s0)"]) (auto simp: restarts_of_def)
  next
    case False
    then obtain xe where xe: "x = Some xe" "restartEligible (Some xe)" "\<not> aoStopAfter (env a)"
      by (cases x) (auto simp: restartEligible_def)
    have xa: "attempt_exit so (env a) = Some xe" and wx: "waitOnceSupervised cfg acc so (env a) s = Some (Some xe, s0)"
      using p w xe(1) by auto
    let ?s2 = "act (ActBackoff (backoff_of so a)) ?s1"
    show ?thesis
    proof (cases "aoStopInBackoff (env a)")
      case True
      then have "s' = ?s2 \<and> restart_end so env (a + Suc left) a exit (Suc a) a"
        using Suc.prems wx xa xe(2,3) by (auto simp: restart_end_def Let_def backoff_of_def)
      then show ?thesis using tr pl
        by (intro exI[of _ a] exI[of _ "t @ spawn_cleanup (csOpts s0) @ [ActBackoff (backoff_of so a)]"]
            exI[of _ "Suc a"] exI[of _ a])
           (auto simp: restarts_of_def)
    next
      case nob: False
      let ?s3 = "if OnRestart so then act (ActOnRestart (Suc a) xe) ?s2 else ?s2"
      obtain r s4 where sp: "spawnAttempt cfg (aoSpawn (env a)) (Suc a) ?s3 = (r, s4)" by fastforce
      obtain ts where ts: "csTrace s4 = csTrace ?s3 @ ts" "on_restarts ts = []" "backoffs ts = []"
        "spawns ts = (case r of Inl e \<Rightarrow> 0 | Inr c \<Rightarrow> 1)"
        using spawn_trace_restart[OF sp] by auto
      let ?pre = "t @ spawn_cleanup (csOpts s0) @ [ActBackoff (backoff_of so a)] @
         (if OnRestart so then [ActOnRestart (Suc a) xe] else []) @ ts"
      have tr4: "csTrace s4 = csTrace s @ ?pre" using tr ts by auto
      show ?thesis
      proof (cases r)
        case (Inl e)
        then have "s' = s4 \<and> restart_end so env (a + Suc left) a exit (Suc a) (Suc a)"
          using Suc.prems wx xa xe(2,3) nob sp
          by (auto simp: restart_end_def Let_def backoff_of_def[symmetric] exhausted_spawn_def simp del: of_nat_Suc)
        then show ?thesis using tr4 pl ts Inl xa
          by (intro exI[of _ a] exI[of _ ?pre] exI[of _ "Suc a"]) (auto simp: restarts_of_def)
      next
        case (Inr c)
        then have "restart_loop cfg acc so env left (Suc a) s4 = Some (exit, s')"
          using Suc.prems wx xe(2,3) nob sp by (simp add: backoff_of_def[symmetric] Let_def del: of_nat_Suc)
        from Suc.IH[OF this] obtain n t' nb nr where ih: "Suc a \<le> n" "n \<le> Suc a + left" "csTrace s' = csTrace s4 @ t'"
          "\<forall>k. Suc a \<le> k \<and> k < n \<longrightarrow> restartEligible (attempt_exit so (env k)) \<and> \<not> aoStopAfter (env k) \<and> \<not> aoStopInBackoff (env k)"
          "restart_end so env (Suc a + left) n exit nb nr"
          "on_restarts t' = restarts_of so env (Suc a) nr" "backoffs t' = map (backoff_of so) [Suc a..<nb]"
          "spawns t' = n - Suc a" by blast
        have nn: "n \<le> nb" "n \<le> nr" using ih(5) by (auto simp: restart_end_def Let_def)
        have re: "restart_end so env (a + Suc left) n exit nb nr"
          using ih(5) by (simp add: restart_end_def)
        have "\<forall>k. a \<le> k \<and> k < n \<longrightarrow> restartEligible (attempt_exit so (env k)) \<and> \<not> aoStopAfter (env k) \<and> \<not> aoStopInBackoff (env k)"
          using ih(4) xe(2,3) xa nob by (metis Suc_leI le_neq_implies_less)
        moreover have "on_restarts (?pre @ t') = restarts_of so env a nr"
          using pl ts ih(1,6) nn xa by (auto simp: restarts_of_def upt_conv_Cons)
        moreover have "backoffs (?pre @ t') = map (backoff_of so) [a..<nb]"
          using pl ts ih(1,7) nn by (auto simp: upt_conv_Cons)
        moreover have "spawns (?pre @ t') = n - a" using pl ts ih(1,8) Inr by auto
        ultimately show ?thesis using ih(1-3) tr4 re
          by (intro exI[of _ n] exI[of _ "?pre @ t'"] exI[of _ nb] exI[of _ nr]) auto
      qed
    qed
  qed
qed

lemma finish_sel [simp]:
  "csTrace (finish code err s) = csTrace s @ [ActCloseLog]" "csAlive (finish code err s) = False"
  "csState (finish code err s) = LiveStateStopped" "csOpts (finish code err s) = csOpts s"
  "csBootDir (finish code err s) = csBootDir s" "csDone (finish code err s) = (csDone s \<or> \<not> csWaitOnce s)"
  by (simp_all add: finish_def Let_def)

lemma childWait_finish:
  "\<not> csWaitOnce s \<Longrightarrow> childWait (remove_boot_dir (finish code err s)) = Some (int32 code, err)"
  by (simp add: childWait_def remove_boot_dir_def finish_def Let_def)

definition exit_result :: "exit_error option \<Rightarrow> int \<times> go_error option" where
  "exit_result x = (case x of None \<Rightarrow> (0, None) | Some xe \<Rightarrow> (int32 (xeCode xe), Some (AsExitError xe)))"

lemma int32_0 [simp]: "int32 0 = 0"
  by (simp add: int32_def)

text \<open>The restart loop never touches the result: only \<open>finish\<close> records it.\<close>

definition same_wait :: "child_session \<Rightarrow> child_session \<Rightarrow> bool" where
  "same_wait s s' \<longleftrightarrow> csWaitOnce s' = csWaitOnce s \<and> csDone s' = csDone s \<and> csBootDir s' = csBootDir s"

lemma same_wait_trans: "same_wait a b \<Longrightarrow> same_wait b c \<Longrightarrow> same_wait a c"
  by (simp add: same_wait_def)

lemma same_wait_events: "handle_events evs s = Some s' \<Longrightarrow> same_wait s s'"
proof (induction evs arbitrary: s)
  case Nil
  then show ?case by (simp add: same_wait_def)
next
  case (Cons ev evs)
  let ?s1 = "if evIsSessionID ev \<and> evSessionID ev \<noteq> ''''
       then (let s' = s\<lparr>csLastSessionID := evSessionID ev\<rparr>
             in if optOnSessionID (csOpts s) then act (ActOnSessionID (evSessionID ev)) s' else s') else s"
  have one: "same_wait s (?s1\<lparr>csEvents := ch\<rparr>)" for ch by (auto simp: same_wait_def Let_def)
  obtain ch where "handle_events evs (?s1\<lparr>csEvents := ch\<rparr>) = Some s'"
    using Cons.prems by (auto simp: Let_def split: option.splits)
  then show ?case using Cons.IH one same_wait_trans by blast
qed

lemma same_wait_typed: "same_wait s (typed_events cfg raw s)"
  by (simp add: same_wait_def typed_events_def split: option.split)

lemma same_wait_sink: "same_wait s (sink_write l (tickActivity s))"
  by (simp add: same_wait_def sink_write_def)

lemma same_wait_line:
  assumes "reader_line cfg acc raw s = Some s'"
  shows "same_wait s s'"
proof (cases "ccKind cfg = JsonRpcChild \<and> \<not> acc raw")
  case True
  then have "s' = sink_write (raw @ [newline]) (tickActivity s)"
    using assms by (simp add: reader_line_def Let_def)
  then show ?thesis using same_wait_sink by simp
next
  case False
  let ?s1 = "sink_write (raw @ [newline]) (tickActivity s)"
  obtain s2 where s2: "s' = typed_events cfg raw s2" "same_wait ?s1 s2"
  proof (cases "caParseLine (ccAdapter cfg) raw")
    case None
    then show ?thesis using that[of ?s1] assms False by (auto simp: reader_line_def Let_def same_wait_def)
  next
    case (Some evs)
    then obtain s2 where "handle_events evs ?s1 = Some s2" "s' = typed_events cfg raw s2"
      using assms False by (auto simp: reader_line_def Let_def)
    then show ?thesis using that same_wait_events by blast
  qed
  then show ?thesis using same_wait_sink same_wait_typed same_wait_trans by blast
qed

lemma same_wait_read: "read_lines cfg acc ls s = Some s' \<Longrightarrow> same_wait s s'"
proof (induction ls arbitrary: s)
  case Nil
  then show ?case by (simp add: same_wait_def)
next
  case (Cons l ls)
  then obtain s1 where s1: "reader_line cfg acc l s = Some s1" "read_lines cfg acc ls s1 = Some s'"
    by (auto split: option.splits)
  show ?case by (rule same_wait_trans[OF same_wait_line[OF s1(1)] Cons.IH[OF s1(2)]])
qed

lemma same_wait_once: "waitOnceSupervised cfg acc so a s = Some (x, s') \<Longrightarrow> same_wait s s'"
  by (auto simp: waitOnceSupervised_def runReaderLoop_def Let_def clear_input_def same_wait_def
      split: option.splits dest!: same_wait_read)

lemma same_wait_spawn: "spawnAttempt cfg o' n s = (r, s') \<Longrightarrow> same_wait s s'"
  by (cases "caDetect (ccAdapter cfg)")
    (auto simp: spawnAttempt_def Let_def same_wait_def split: option.splits sum.splits prod.splits if_splits)

lemma same_wait_loop: "restart_loop cfg acc so env left a s = Some (x, s') \<Longrightarrow> same_wait s s'"
proof (induction left arbitrary: a s)
  case 0
  obtain y s0 where w: "waitOnceSupervised cfg acc so (env a) s = Some (y, s0)"
    using "0.prems" by (auto split: option.splits)
  have "s' = acts (spawn_cleanup (csOpts s0)) s0"
    using "0.prems" w by (auto simp: Let_def split: option.splits if_splits)
  then show ?case using same_wait_once[OF w] by (simp add: same_wait_def)
next
  case (Suc left)
  obtain y s0 where w: "waitOnceSupervised cfg acc so (env a) s = Some (y, s0)"
    using Suc.prems by (auto split: option.splits)
  note w0 = same_wait_once[OF w]
  let ?s1 = "acts (spawn_cleanup (csOpts s0)) s0"
  show ?case
  proof (cases "aoStopAfter (env a) \<or> \<not> restartEligible y \<or> aoStopInBackoff (env a)")
    case True
    then show ?thesis using Suc.prems w w0
      by (auto simp: same_wait_def Let_def restartEligible_def split: option.splits if_splits)
  next
    case False
    then obtain xe where xe: "y = Some xe" "restartEligible (Some xe)"
      by (cases y) (auto simp: restartEligible_def)
    let ?s2 = "act (ActBackoff (backoff_of so a)) ?s1"
    let ?s3 = "if OnRestart so then act (ActOnRestart (Suc a) xe) ?s2 else ?s2"
    obtain r s4 where sp: "spawnAttempt cfg (aoSpawn (env a)) (Suc a) ?s3 = (r, s4)" by fastforce
    have s4: "same_wait s s4" using w0 same_wait_spawn[OF sp] by (auto simp: same_wait_def)
    show ?thesis
    proof (cases r)
      case (Inl e)
      then show ?thesis using Suc.prems w xe False sp s4
        by (simp add: backoff_of_def[symmetric] Let_def del: of_nat_Suc)
    next
      case (Inr c)
      then have "restart_loop cfg acc so env left (Suc a) s4 = Some (x, s')"
        using Suc.prems w xe False sp by (simp add: backoff_of_def[symmetric] Let_def del: of_nat_Suc)
      then show ?thesis using Suc.IH s4 same_wait_trans by blast
    qed
  qed
qed

text \<open>C14.
  The restart policy of a supervised session, from its first child to the result of
  \<open>Wait\<close>.  There is an attempt \<open>n \<le> max 0 RestartOnCrash\<close>, the last one that ran:
  every earlier attempt crashed and was not followed by a stop; exactly \<open>n\<close>
  children are spawned after the first; before child \<open>k\<close> the loop backed off for the
  backoff of \<open>k\<close> and called \<open>OnRestart\<close> with \<open>k\<close> and the exit of attempt \<open>k - 1\<close>, in
  this order; and \<open>Wait\<close> reports the exit of attempt \<open>n\<close>, labelled
  \<open>restart_exhausted\<close> exactly when it crashed with no restart left, or the spawn error
  of its successor (\<open>restart_end\<close>).
\<close>

theorem restart_policy:
  assumes "runSupervised cfg acc so env s = Some s'" "\<not> csWaitOnce s"
  shows "\<exists>n t nb nr exit. n \<le> nat (RestartOnCrash so) \<and> csTrace s' = csTrace s @ t \<and>
     (\<forall>k < n. restartEligible (attempt_exit so (env k)) \<and> \<not> aoStopAfter (env k) \<and> \<not> aoStopInBackoff (env k)) \<and>
     restart_end so env (nat (RestartOnCrash so)) n exit nb nr \<and>
     on_restarts t = restarts_of so env 0 nr \<and> backoffs t = map (backoff_of so) [0..<nb] \<and> spawns t = n \<and>
     childWait s' = Some (exit_result exit)"
proof -
  obtain exit s1 where l: "restart_loop cfg acc so env (maxRestarts so) 0 s = Some (exit, s1)"
    "s' = finish_supervised exit s1"
    using assms(1) by (auto simp: runSupervised_def split: option.splits)
  have once: "\<not> csWaitOnce s1" using same_wait_loop[OF l(1)] assms(2) by (simp add: same_wait_def)
  obtain n t nb nr where r: "n \<le> maxRestarts so" "csTrace s1 = csTrace s @ t"
     "\<forall>k < n. restartEligible (attempt_exit so (env k)) \<and> \<not> aoStopAfter (env k) \<and> \<not> aoStopInBackoff (env k)"
     "restart_end so env (maxRestarts so) n exit nb nr"
     "on_restarts t = restarts_of so env 0 nr" "backoffs t = map (backoff_of so) [0..<nb]" "spawns t = n"
    using restart_loop_spec[OF l(1)] by auto
  have "childWait s' = Some (exit_result exit)"
    using childWait_finish[OF once] l(2)
    by (auto simp: finish_supervised_def exit_result_def split: option.splits)
  moreover let ?u = "ActCloseLog # (if csBootDir s1 = '''' then [] else [ActRemoveBootDir])"
  have "csTrace s' = csTrace s1 @ ?u" using l(2) by (simp add: finish_supervised_def remove_boot_dir_def)
  moreover have "on_restarts ?u = []" "backoffs ?u = []" "spawns ?u = 0" by simp_all
  ultimately show ?thesis using r
    by (intro exI[of _ n] exI[of _ "t @ ?u"] exI[of _ nb] exI[of _ nr] exI[of _ exit])
       (auto simp: maxRestarts_def)
qed

definition crash_oracle :: attempt_oracle where
  "crash_oracle = \<lparr>aoState = Some (Exited 1), aoWaitErr = Some (AsExecExitError (Exited 1)), aoSupEvents = [],
     aoStartedAt = 5, aoOutput = [], aoElapsed = 2 * second, aoStopAfter = False, aoStopInBackoff = False,
     aoSpawn = \<lparr>spSandbox = Inr, spLimits = (\<lambda>c. (None, c)), spStdin = None, spStdout = None,
       spStart = Inr 8, spBootWrite = None\<rparr>\<rparr>"

definition sample_sup :: "int \<Rightarrow> supervisor_options" where
  "sample_sup k = \<lparr>IdleKill = 0, RestartOnCrash = k, MaxRestartBackoff = 0, WatchdogTimeout = 0,
     ActivityCallback = False, OnRestart = True\<rparr>"

lemma crash_exit: "attempt_exit (sample_sup k) crash_oracle =
    Some (ExitError 1 0 False (Some (Exited 1)) '''' (Some (AsExecExitError (Exited 1))))"
  by (simp add: attempt_exit_def attempt_cause_def crash_oracle_def sample_sup_def attempt_start_def
      getCause_def buildExitError_def Let_def)

lemma crash_run: "\<exists>s'. runSupervised sample_cfg acc (sample_sup 0) (\<lambda>k. crash_oracle) sample_child = Some s'"
  using crash_exit[of 0]
  by (simp add: runSupervised_def maxRestarts_def sample_sup_def waitOnceSupervised_def runReaderLoop_def
      crash_oracle_def restartEligible_def Let_def)

lemma restart_policy_witness:
  "\<exists>s' n. runSupervised sample_cfg (\<lambda>l. True) (sample_sup 0) (\<lambda>k. crash_oracle) sample_child = Some s' \<and>
     n \<le> nat (RestartOnCrash (sample_sup 0))"
proof -
  obtain s' where s': "runSupervised sample_cfg (\<lambda>l. True) (sample_sup 0) (\<lambda>k. crash_oracle) sample_child = Some s'"
    using crash_run by blast
  moreover have "\<not> csWaitOnce sample_child" by (simp add: sample_child_def new_child_def)
  ultimately show ?thesis using restart_policy by blast
qed

text \<open>C33.
  With no restarts configured, an ordinary crash of a supervised child is still
  labelled \<open>restart_exhausted\<close>: the exit that \<open>Wait\<close> reports has that cause, though no
  restart was ever allowed.
\<close>

theorem crash_without_restarts_labelled_exhausted:
  assumes "runSupervised cfg acc so env s = Some s'" "\<not> csWaitOnce s" "RestartOnCrash so \<le> 0"
    and "restartEligible (attempt_exit so (env 0))" "\<not> aoStopAfter (env 0)"
  shows "\<exists>xe. attempt_exit so (env 0) = Some xe \<and> xeCause xe = '''' \<and>
     childWait s' = Some (int32 (xeCode xe), Some (AsExitError (with_cause CauseRestartExhausted xe)))"
proof -
  obtain xe where xe: "attempt_exit so (env 0) = Some xe" "xeCause xe = ''''"
    using assms(4) by (auto simp: restartEligible_def split: option.splits if_splits)
  have m: "maxRestarts so = 0" using assms(3) by (simp add: maxRestarts_def)
  obtain exit s1 where l: "restart_loop cfg acc so env 0 0 s = Some (exit, s1)" "s' = finish_supervised exit s1"
    using assms(1) m by (auto simp: runSupervised_def split: option.splits)
  have once: "\<not> csWaitOnce s1" using same_wait_loop[OF l(1)] assms(2) by (simp add: same_wait_def)
  have "exit = Some (with_cause CauseRestartExhausted xe)"
    using restart_loop_spec[OF l(1)] assms(4,5) xe by (auto simp: restart_end_def Let_def)
  then show ?thesis using xe l(2) childWait_finish[OF once]
    by (simp add: finish_supervised_def)
qed

lemma crash_without_restarts_labelled_exhausted_witness:
  "\<exists>s'. runSupervised sample_cfg (\<lambda>l. True) (sample_sup 0) (\<lambda>k. crash_oracle) sample_child = Some s' \<and>
     (\<exists>xe. childWait s' = Some (int32 (xeCode xe), Some (AsExitError (with_cause CauseRestartExhausted xe))))"
proof -
  obtain s' where s': "runSupervised sample_cfg (\<lambda>l. True) (sample_sup 0) (\<lambda>k. crash_oracle) sample_child = Some s'"
    using crash_run by blast
  have a: "\<not> csWaitOnce sample_child" "RestartOnCrash (sample_sup 0) \<le> 0" "\<not> aoStopAfter crash_oracle"
    by (simp_all add: sample_child_def new_child_def sample_sup_def crash_oracle_def)
  have e: "restartEligible (attempt_exit (sample_sup 0) crash_oracle)" by (simp add: crash_exit restartEligible_def)
  show ?thesis using crash_without_restarts_labelled_exhausted[OF s' a(1,2) e a(3)] s' by blast
qed

end
