(* ===== verification/Long_Lived_Props.thy ===== *)
theory Long_Lived_Props imports Long_Lived_Spec begin

text \<open>
  What a long-lived session observes and reports: provider session ids and their use
  for a resume, the result of an unsupervised session, process ids after a restart,
  and the environment of a child with a planted boot directory.
\<close>

section \<open>Session ids\<close>

definition line_ids :: "child_config \<Rightarrow> (bytes \<Rightarrow> bool) \<Rightarrow> bytes \<Rightarrow> string list" where
  "line_ids cfg acc raw =
     (if ccKind cfg = JsonRpcChild \<and> \<not> acc raw then []
      else case caParseLine (ccAdapter cfg) raw of None \<Rightarrow> []
        | Some evs \<Rightarrow> map evSessionID (filter (\<lambda>e. evIsSessionID e \<and> evSessionID e \<noteq> '''') evs))"

definition observed_ids :: "child_config \<Rightarrow> (bytes \<Rightarrow> bool) \<Rightarrow> bytes \<Rightarrow> string list" where
  "observed_ids cfg acc output = concat (map (line_ids cfg acc) (fst (scan_lines scannerLimit output)))"

definition on_ids :: "act list \<Rightarrow> string list" where
  "on_ids t = concat (map (\<lambda>a. case a of ActOnSessionID i \<Rightarrow> [i] | _ \<Rightarrow> []) t)"

lemma on_ids_simps [simp]:
  "on_ids [] = []" "on_ids (a # t) = (case a of ActOnSessionID i \<Rightarrow> [i] | _ \<Rightarrow> []) @ on_ids t"
  "on_ids (t @ u) = on_ids t @ on_ids u"
  by (simp_all add: on_ids_def)

text \<open>\<open>sees ids s s'\<close>: from \<open>s\<close> to \<open>s'\<close> exactly these ids were observed.\<close>

definition sees :: "string list \<Rightarrow> child_session \<Rightarrow> child_session \<Rightarrow> bool" where
  "sees ids s s' \<longleftrightarrow> csOpts s' = csOpts s \<and> csLastSessionID s' = last (csLastSessionID s # ids) \<and>
     on_ids (csTrace s') = on_ids (csTrace s) @ (if optOnSessionID (csOpts s) then ids else [])"

lemma sees_trans: "sees a s t \<Longrightarrow> sees b t u \<Longrightarrow> sees (a @ b) s u"
  by (auto simp: sees_def)

lemma sees_sink: "sees [] s (sink_write l (tickActivity s))"
  by (auto simp: sees_def sink_write_def tickActivity_def split: option.split)

lemma on_ids_typed: "on_ids (map ActTyped ts) = []"
  by (induction ts) auto

lemma sees_typed: "sees [] s (typed_events cfg raw s)"
  by (simp add: sees_def typed_events_def on_ids_typed split: option.split)

lemma sees_events:
  "handle_events evs s = Some s' \<Longrightarrow>
     sees (map evSessionID (filter (\<lambda>e. evIsSessionID e \<and> evSessionID e \<noteq> '''') evs)) s s'"
proof (induction evs arbitrary: s)
  case Nil
  then show ?case by (simp add: sees_def)
next
  case (Cons ev evs)
  let ?s1 = "if evIsSessionID ev \<and> evSessionID ev \<noteq> ''''
       then (let s' = s\<lparr>csLastSessionID := evSessionID ev\<rparr>
             in if optOnSessionID (csOpts s) then act (ActOnSessionID (evSessionID ev)) s' else s') else s"
  let ?i = "if evIsSessionID ev \<and> evSessionID ev \<noteq> '''' then [evSessionID ev] else []"
  have one: "sees ?i s (?s1\<lparr>csEvents := ch\<rparr>)" for ch by (simp add: sees_def Let_def)
  obtain ch where ch: "handle_events evs (?s1\<lparr>csEvents := ch\<rparr>) = Some s'"
    using Cons.prems by (auto simp: Let_def split: option.splits)
  show ?case using sees_trans[OF one Cons.IH[OF ch]] by (auto split: if_splits)
qed

lemma sees_line:
  assumes "reader_line cfg acc raw s = Some s'"
  shows "sees (line_ids cfg acc raw) s s'"
proof (cases "ccKind cfg = JsonRpcChild \<and> \<not> acc raw")
  case True
  then have "s' = sink_write (raw @ [newline]) (tickActivity s)"
    using assms by (simp add: reader_line_def Let_def)
  then show ?thesis using sees_sink True by (simp add: line_ids_def)
next
  case False
  let ?s1 = "sink_write (raw @ [newline]) (tickActivity s)"
  obtain s2 where s2: "s' = typed_events cfg raw s2" "sees (line_ids cfg acc raw) ?s1 s2"
  proof (cases "caParseLine (ccAdapter cfg) raw")
    case None
    then show ?thesis using that[of ?s1] assms False
      by (auto simp: reader_line_def Let_def line_ids_def sees_def)
  next
    case (Some evs)
    then obtain s2 where s2: "handle_events evs ?s1 = Some s2" "s' = typed_events cfg raw s2"
      using assms False by (auto simp: reader_line_def Let_def)
    show ?thesis using that[of s2] sees_events[OF s2(1)] s2(2) Some False by (simp add: line_ids_def)
  qed
  show ?thesis using sees_trans[OF sees_trans[OF sees_sink s2(2)] sees_typed] s2(1) by simp
qed

lemma sees_read:
  "read_lines cfg acc ls s = Some s' \<Longrightarrow> sees (concat (map (line_ids cfg acc) ls)) s s'"
proof (induction ls arbitrary: s)
  case Nil
  then show ?case by (simp add: sees_def)
next
  case (Cons l ls)
  then obtain s1 where s1: "reader_line cfg acc l s = Some s1" "read_lines cfg acc ls s1 = Some s'"
    by (auto split: option.splits)
  show ?case using sees_trans[OF sees_line[OF s1(1)] Cons.IH[OF s1(2)]] by simp
qed

text \<open>C16.
  A restarted child resumes the conversation of its predecessor.  After the reader
  has run over a child's output, the session reports the last provider session id
  seen so far (the preset if none was), \<open>OnSessionID\<close> has been called once per
  session-id event, in order, and the argument vector of attempt \<open>n\<close> asks the adapter
  to resume that id when the runtime declares provider session ids and \<open>n > 0\<close>,
  and the caller's preset otherwise.
\<close>

theorem restart_resumes_last_session:
  assumes "runReaderLoop cfg acc output s = Some s1"
  shows "let ids = observed_ids cfg acc output; sid = last (csLastSessionID s # ids);
             preset = optSessionIDPreset (csOpts s);
             prompt = (if optBootMode (csOpts s) = ''stdin'' then '''' else optBootPrompt (csOpts s)) in
     childProviderSessionID s1 = sid \<and>
     on_ids (csTrace s1) = on_ids (csTrace s) @ (if optOnSessionID (csOpts s) then ids else []) \<and>
     cmdArgs (spawn_cmd cfg s1 n binary) =
       binary # caBuildArgs (ccAdapter cfg) '''' prompt
         (if 0 < n \<and> ProviderSessionID (ccCaps cfg) \<and> sid \<noteq> '''' then sid else preset)
       @ optExtraArgs (csOpts s)"
proof -
  have "sees (observed_ids cfg acc output) s s1"
    using assms sees_read by (simp add: runReaderLoop_def observed_ids_def)
  then show ?thesis
    by (simp add: sees_def Let_def childProviderSessionID_def spawn_cmd_def resume_id_def
        configurePTYCommandProcessGroup_def configureCommandProcessGroup_def)
qed

lemma sample_ids: "observed_ids sample_cfg (\<lambda>l. True) [CHR ''i'', CHR ''d'', newline] = [''s1'']"
  by (simp add: observed_ids_def line_ids_def scan_lines.simps scannerLimit_def newline_def drop_cr_def
      sample_cfg_def sample_child_adapter_def)

lemma restart_resumes_last_session_witness:
  "\<exists>s1. runReaderLoop sample_cfg (\<lambda>l. True) [CHR ''i'', CHR ''d'', newline] sample_child = Some s1 \<and>
     cmdArgs (spawn_cmd sample_cfg s1 1 ''/bin/cat'') = [''/bin/cat'', ''--resume'', ''s1'']"
proof -
  obtain s1 where s1: "runReaderLoop sample_cfg (\<lambda>l. True) [CHR ''i'', CHR ''d'', newline] sample_child = Some s1"
    using sample_reads by blast
  show ?thesis using restart_resumes_last_session[OF s1, of 1 "''/bin/cat''"] s1
    by (simp add: Let_def sample_ids)
       (simp add: sample_cfg_def sample_child_adapter_def sample_child_def new_child_def plant_options_def)
qed

section \<open>Results and process ids\<close>

text \<open>C27.
  The result of an unsupervised session: the waiter makes \<open>Wait\<close> return 0 and no
  error after a clean exit, the exit code \<^emph>\<open>and no error\<close> after an unclean exit, and
  -1 with the error only when waiting itself failed; it also ends the session and
  removes its boot directory, once, after the log is closed.
\<close>

theorem unsupervised_result:
  assumes "\<not> csWaitOnce s"
  shows "childWait (spawnWaiterLegacy cfg elapsed err s) =
     Some (case err of None \<Rightarrow> (0, None)
       | Some e \<Rightarrow> (case as_exec_exit e of Some ps \<Rightarrow> (int32 (psExitCode ps), None) | None \<Rightarrow> (-1, Some e))) \<and>
   \<not> csAlive (spawnWaiterLegacy cfg elapsed err s) \<and>
   csState (spawnWaiterLegacy cfg elapsed err s) = LiveStateStopped \<and>
   fst (childSendInput w d (spawnWaiterLegacy cfg elapsed err s)) = Some ErrNoInputChannel \<and>
   (\<exists>t. csTrace (spawnWaiterLegacy cfg elapsed err s) =
      csTrace s @ t @ close_io (ccKind cfg) @ ActCloseLog # spawn_cleanup (csOpts s) @ (if csBootDir s = '''' then [] else [ActRemoveBootDir]) \<and>
      (\<forall>a \<in> set t. \<exists>w. a = ActAbnormalWait w))"
proof -
  have "int32 (-1) = -1" by (simp add: int32_def)
  then show ?thesis using assms
    by (auto simp: spawnWaiterLegacy_def legacy_result_def Let_def childWait_def remove_boot_dir_def finish_def
        clear_input_def childSendInput_def input_alive_def split: option.splits)
qed

lemma unsupervised_result_witness:
  "childWait (spawnWaiterLegacy sample_cfg 5 (Some (AsExecExitError (Exited 3))) sample_child) = Some (3, None)"
  using unsupervised_result[of sample_child sample_cfg 5 "Some (AsExecExitError (Exited 3))"]
  by (simp add: sample_child_def new_child_def int32_def)

text \<open>C34.
  Process ids after a restart: the spawn of a later attempt changes \<open>LastPID\<close> to the
  pid of the new child, but \<open>LivePID\<close> and \<open>Health\<close> keep reporting the pid of the
  session's first child, which no longer runs.
\<close>

theorem live_pid_is_first_child:
  assumes "spawnAttempt cfg o' (Suc n) s = (Inr c, s')"
  shows "(\<exists>pid. cmdPid c = Some pid \<and> spStart o' = Inr pid \<and> childLastPID s' = int32 pid) \<and>
     childLivePID s' = childLivePID s \<and> hsPID (childHealth s') = hsPID (childHealth s)"
  using assms
  by (cases "caDetect (ccAdapter cfg)")
    (auto simp: spawnAttempt_def Let_def childLastPID_def childLivePID_def childHealth_def
      split: option.splits sum.splits prod.splits if_splits)

lemma live_pid_is_first_child_witness:
  "childLivePID (snd (spawnAttempt sample_cfg (aoSpawn crash_oracle) 1 (sample_child\<lparr>csStartedPID := 7\<rparr>))) = 7"
proof -
  obtain c s' where sp: "spawnAttempt sample_cfg (aoSpawn crash_oracle) (Suc 0) (sample_child\<lparr>csStartedPID := 7\<rparr>) = (Inr c, s')"
    by (simp add: spawnAttempt_def sample_cfg_def sample_child_adapter_def crash_oracle_def sample_child_def
        new_child_def plant_options_def Let_def)
  then show ?thesis using live_pid_is_first_child[OF sp]
    by (simp add: childLivePID_def sample_child_def new_child_def)
qed

section \<open>The environment\<close>

text \<open>C35.
  The environment of a child.  Without a planted boot directory a session with no
  \<open>Env\<close> inherits the environment of the parent.  With one whose adapter amends the
  environment, the same session's child gets the amendments only: nothing of the
  parent's environment (no \<open>PATH\<close>, no \<open>HOME\<close>) is passed on.
\<close>

theorem planted_env_drops_parent:
  assumes "optAutoPlantBootDir opts" "adBootDirSpec ad = Some spec" "bsPlantedFiles spec \<noteq> []"
    and "preparePlant io opts ad i fs = (r, fs')" "prError r = None" "optEnv opts = []" "bsEnvAmendments spec \<noteq> []"
    and "csOpts s = prOptions r" "csOpts s0 = opts"
  shows "cmdEnv (spawn_cmd cfg s n b) =
       substituteTemplates (bsEnvAmendments spec) (prBootDir r) (optWorkdir opts) \<and>
     cmdEnv (spawn_cmd cfg s0 n b) = ccEnviron cfg"
proof -
  have "optEnv (prOptions r) = substituteTemplates (bsEnvAmendments spec) (prBootDir r) (optWorkdir opts)"
    using assms(1-7)
    by (auto simp: preparePlant_def no_plant_def Let_def planted_options_def substituteTemplates_def
        split: sum.splits option.splits prod.splits if_splits)
  moreover have "substituteTemplates (bsEnvAmendments spec) (prBootDir r) (optWorkdir opts) \<noteq> []"
    using assms(7) by (simp add: substituteTemplates_def)
  ultimately show ?thesis using assms(6,8,9)
    by (simp add: spawn_cmd_def Let_def configurePTYCommandProcessGroup_def configureCommandProcessGroup_def)
qed

lemma planted_env_drops_parent_witness:
  "\<exists>r fs'. preparePlant sample_io plant_options (sample_adapter fine_render) '''' empty_fs = (r, fs') \<and>
     length (cmdEnv (spawn_cmd sample_cfg (sample_child\<lparr>csOpts := prOptions r\<rparr>) 0 ''/bin/cat'')) = 1 \<and>
     ccEnviron sample_cfg = [''HOME=/h'']"
proof -
  obtain r fs' where p: "preparePlant sample_io plant_options (sample_adapter fine_render) '''' empty_fs = (r, fs')"
    by fastforce
  have e: "prError r = None" using sample_error(2) p by simp
  have a: "optAutoPlantBootDir plant_options" "adBootDirSpec (sample_adapter fine_render) = Some (sample_spec fine_render)"
    "bsPlantedFiles (sample_spec fine_render) \<noteq> []" "optEnv plant_options = []"
    "bsEnvAmendments (sample_spec fine_render) \<noteq> []"
    by (simp_all add: plant_options_def sample_adapter_def sample_spec_def)
  from planted_env_drops_parent[OF a(1-3) p e a(4,5), of "sample_child\<lparr>csOpts := prOptions r\<rparr>"
      "sample_child\<lparr>csOpts := plant_options\<rparr>" sample_cfg 0 "''/bin/cat''"]
  show ?thesis using p by (simp add: substituteTemplates_def sample_spec_def sample_cfg_def)
qed

section \<open>Termination\<close>

definition events_open :: "child_session \<Rightarrow> bool" where
  "events_open s \<longleftrightarrow> (\<forall>c. csEvents s = Some c \<longrightarrow> \<not> chClosed c)"

lemma events_open_cong: "csEvents s' = csEvents s \<Longrightarrow> events_open s' = events_open s"
  by (simp add: events_open_def)

lemma fanout_open:
  assumes "\<forall>c. ch = Some c \<longrightarrow> \<not> chClosed c"
  shows "\<exists>ch'. tryEventFanout ch ev = Some ch' \<and> (\<forall>c. ch' = Some c \<longrightarrow> \<not> chClosed c)"
  using assms by (cases ch) (auto simp: tryEventFanout_def chan_try_send_def)

lemma handle_events_total: "events_open s \<Longrightarrow> \<exists>s'. handle_events evs s = Some s' \<and> events_open s'"
proof (induction evs arbitrary: s)
  case (Cons ev evs)
  let ?s1 = "if evIsSessionID ev \<and> evSessionID ev \<noteq> ''''
       then (let s' = s\<lparr>csLastSessionID := evSessionID ev\<rparr>
             in if optOnSessionID (csOpts s) then act (ActOnSessionID (evSessionID ev)) s' else s') else s"
  have "csEvents ?s1 = csEvents s" by (simp add: Let_def)
  then have "\<forall>c. csEvents ?s1 = Some c \<longrightarrow> \<not> chClosed c" using Cons.prems unfolding events_open_def by (rule ssubst)
  from fanout_open[OF this, of ev] obtain ch where ch: "tryEventFanout (csEvents ?s1) ev = Some ch"
    "\<forall>c. ch = Some c \<longrightarrow> \<not> chClosed c" by blast
  have "events_open (?s1\<lparr>csEvents := ch\<rparr>)" using ch(2) by (simp add: events_open_def)
  then obtain s' where "handle_events evs (?s1\<lparr>csEvents := ch\<rparr>) = Some s'" "events_open s'" using Cons.IH by blast
  then show ?case using ch(1) by (simp add: Let_def)
qed simp

lemma typed_events_open: "events_open (typed_events cfg raw s) = events_open s"
  by (rule events_open_cong) (simp add: typed_events_def split: option.split)

lemma reader_line_total:
  assumes "events_open s"
  shows "\<exists>s'. reader_line cfg acc raw s = Some s' \<and> events_open s'"
proof -
  let ?s1 = "sink_write (raw @ [newline]) (tickActivity s)"
  have o: "events_open ?s1" using assms by (simp add: sink_write_def events_open_def)
  show ?thesis
  proof (cases "caParseLine (ccAdapter cfg) raw")
    case None
    then show ?thesis using o by (simp add: reader_line_def Let_def typed_events_open)
  next
    case (Some evs)
    obtain s' where "handle_events evs ?s1 = Some s'" "events_open s'" using handle_events_total[OF o] by blast
    then show ?thesis using Some o by (simp add: reader_line_def Let_def typed_events_open)
  qed
qed

lemma read_lines_total: "events_open s \<Longrightarrow> \<exists>s'. read_lines cfg acc ls s = Some s' \<and> events_open s'"
proof (induction ls arbitrary: s)
  case (Cons l ls)
  then show ?case using reader_line_total[OF Cons.prems, of cfg acc l] by fastforce
qed simp

lemma wait_once_total:
  assumes "events_open s"
  shows "\<exists>x s'. waitOnceSupervised cfg acc so a s = Some (x, s') \<and> events_open s'"
proof -
  obtain s1 where s1: "runReaderLoop cfg acc (aoOutput a) s = Some s1" "events_open s1"
    unfolding runReaderLoop_def using read_lines_total[OF assms] by blast
  have "events_open (clear_input k (acts t s1))" for k t using s1(2) by (simp add: clear_input_def events_open_def)
  then show ?thesis using s1(1) by (simp add: waitOnceSupervised_def Let_def)
qed

lemma spawn_events: "spawnAttempt cfg o' n s = (r, s') \<Longrightarrow> csEvents s' = csEvents s"
  by (auto simp: spawnAttempt_def Let_def split: option.splits sum.splits prod.splits if_splits)

lemma restart_loop_total: "events_open s \<Longrightarrow> \<exists>r. restart_loop cfg acc so env left a s = Some r"
proof (induction left arbitrary: a s)
  case 0
  obtain x s0 where w: "waitOnceSupervised cfg acc so (env a) s = Some (x, s0)"
    using wait_once_total[OF 0] by blast
  then show ?case by (subst restart_loop.simps) (simp add: Let_def split: option.split)
next
  case (Suc left)
  obtain x s0 where w: "waitOnceSupervised cfg acc so (env a) s = Some (x, s0)" "events_open s0"
    using wait_once_total[OF Suc.prems] by blast
  let ?s1 = "acts (spawn_cleanup (csOpts s0)) s0"
  show ?case
  proof (cases "aoStopAfter (env a) \<or> \<not> restartEligible x \<or> aoStopInBackoff (env a)")
    case True
    then show ?thesis using w(1) by (auto simp: Let_def restartEligible_def split: option.splits)
  next
    case False
    then obtain xe where xe: "x = Some xe" "restartEligible (Some xe)"
      by (cases x) (auto simp: restartEligible_def)
    let ?s2 = "act (ActBackoff (backoff_of so a)) ?s1"
    let ?s3 = "if OnRestart so then act (ActOnRestart (Suc a) xe) ?s2 else ?s2"
    obtain r s4 where sp: "spawnAttempt cfg (aoSpawn (env a)) (Suc a) ?s3 = (r, s4)" by fastforce
    have "events_open s4" using w(2) spawn_events[OF sp] by (auto simp: events_open_def)
    from Suc.IH[OF this] show ?thesis using w(1) xe False sp
      by (cases r) (auto simp: backoff_of_def[symmetric] Let_def simp del: of_nat_Suc)
  qed
qed



end
