(* ===== verification/Jsonrpc.thy ===== *)
theory Jsonrpc imports Go_Json Session_Types begin

text \<open>
  The JSON-RPC client of \<open>jsonrpc_stdio_session.go\<close>: frames, the pending-request
  table, \<open>Call\<close>, the routing of inbound frames and the answers to requests of the
  child.  The process lifecycle around it is the one of \<open>Long_Lived\<close>.

  Go's \<open>map[int64]chan jsonRpcResponse\<close> is an association list from ids to indices
  of a store of channels.  Every operation is cut where it releases \<open>pendMu\<close> or
  \<open>ioLock\<close> or blocks; \<open>rpc_exec\<close> runs one section of one goroutine, so that any
  sequence of events is an interleaving.  A response taken out of the table and not
  yet sent is in \<open>rpInflight\<close>.
\<close>

section \<open>Frames\<close>

record rpc_frame =
  frJsonrpc :: string
  frID :: "json option"
  frMethod :: string
  frParams :: "json option"
  frResult :: "json option"
  frError :: "jsonrpc_error option"

definition zero_frame :: rpc_frame where
  "zero_frame = \<lparr>frJsonrpc = '''', frID = None, frMethod = '''', frParams = None, frResult = None, frError = None\<rparr>"

definition error_member :: "string \<times> json \<Rightarrow> jsonrpc_error \<Rightarrow> jsonrpc_error option" where
  "error_member m e =
     (let k = fold_key (fst m); j = snd m in
      if k = ''code'' then map_option (\<lambda>c. JsonRpcError c (rpcMessage e) (rpcData e)) (decode_int j (rpcCode e))
      else if k = ''message'' then map_option (\<lambda>t. JsonRpcError (rpcCode e) t (rpcData e)) (decode_string j (rpcMessage e))
      else if k = ''data'' then Some (JsonRpcError (rpcCode e) (rpcMessage e) (json_text j))
      else Some e)"

text \<open>\<open>*JsonRpcError\<close>: \<open>null\<close> makes it nil, an object is decoded into the one there.\<close>

definition decode_error :: "json \<Rightarrow> jsonrpc_error option \<Rightarrow> jsonrpc_error option option" where
  "decode_error j old =
     (case j of
        JNull \<Rightarrow> Some None
      | JObj ms \<Rightarrow> map_option Some (decode_members error_member ms
          (case old of None \<Rightarrow> JsonRpcError 0 '''' [] | Some e \<Rightarrow> e))
      | _ \<Rightarrow> None)"

definition frame_member :: "string \<times> json \<Rightarrow> rpc_frame \<Rightarrow> rpc_frame option" where
  "frame_member m fr =
     (let k = fold_key (fst m); j = snd m in
      if k = ''jsonrpc'' then map_option (\<lambda>t. fr\<lparr>frJsonrpc := t\<rparr>) (decode_string j (frJsonrpc fr))
      else if k = ''id'' then Some (fr\<lparr>frID := (if j = JNull then None else Some j)\<rparr>)
      else if k = ''method'' then map_option (\<lambda>t. fr\<lparr>frMethod := t\<rparr>) (decode_string j (frMethod fr))
      else if k = ''params'' then Some (fr\<lparr>frParams := Some j\<rparr>)
      else if k = ''result'' then Some (fr\<lparr>frResult := Some j\<rparr>)
      else if k = ''error'' then map_option (\<lambda>e. fr\<lparr>frError := e\<rparr>) (decode_error j (frError fr))
      else Some fr)"

definition decode_frame :: "bytes \<Rightarrow> rpc_frame option" where
  "decode_frame raw =
     (case json_parse raw of
        Some (JObj ms) \<Rightarrow> decode_members frame_member ms zero_frame
      | Some JNull \<Rightarrow> Some zero_frame
      | _ \<Rightarrow> None)"

definition num :: "64 word \<Rightarrow> json" where
  "num w = JNum (dec_int (sint w))"

definition request_json :: "64 word \<Rightarrow> string \<Rightarrow> json option \<Rightarrow> json" where
  "request_json i meth params =
     JObj ([(''jsonrpc'', JStr ''2.0''), (''id'', num i), (''method'', JStr meth)] @
       (case params of None \<Rightarrow> [] | Some p \<Rightarrow> [(''params'', p)]))"

text \<open>\<open>json.Marshal\<close> of a \<open>*JsonRpcError\<close>: \<open>data\<close> is omitted when empty and must be JSON.\<close>

definition error_json :: "jsonrpc_error \<Rightarrow> json option" where
  "error_json e =
     (let base = [(''code'', num (rpcCode e)), (''message'', JStr (rpcMessage e))] in
      if rpcData e = [] then Some (JObj base)
      else map_option (\<lambda>j. JObj (base @ [(''data'', j)])) (json_parse (rpcData e)))"

section \<open>State\<close>

datatype rpc_response = RpcResponse (rsResult: "json option") (rsErr: "jsonrpc_error option")

text \<open>Where a \<open>Call\<close> is; its id and the index of its response channel.\<close>

datatype call_pc =
    CallAllocated "64 word" nat
  | CallRegistered "64 word" nat
  | CallEncoded "64 word" nat bytes
  | CallHasStdin "64 word" nat bytes
  | CallWaiting "64 word" nat
  | CallReturned "go_error + json option"

record rpc_call =
  rcMethod :: string
  rcParams :: "go_error + json option"
  rcPc :: call_pc

record rpc_state =
  rpNext :: "64 word"
  rpPending :: "(64 word \<times> nat) list"
  rpChans :: "rpc_response chan list"
  rpInflight :: "(nat \<times> rpc_response) list"
  rpCalls :: "rpc_call list"
  rpAlive :: bool
  rpStdin :: bool
  rpReader :: bool
  rpStopOnce :: bool
  rpOut :: "bytes list"
  rpNotes :: "(string \<times> json option) list"

definition new_rpc :: rpc_state where
  "new_rpc = \<lparr>rpNext = 0, rpPending = [], rpChans = [], rpInflight = [], rpCalls = [], rpAlive = True,
     rpStdin = True, rpReader = True, rpStopOnce = False, rpOut = [], rpNotes = []\<rparr>"

datatype rpc_fault = SendOnClosed | SendBlocks | CloseOfClosed

section \<open>Sending to a pending call\<close>

definition send_response :: "nat \<Rightarrow> rpc_response \<Rightarrow> rpc_state \<Rightarrow> rpc_fault + rpc_state" where
  "send_response ch r s =
     (case chan_try_send r (rpChans s ! ch) of
        None \<Rightarrow> Inl SendOnClosed
      | Some (False, c) \<Rightarrow> Inl SendBlocks
      | Some (True, c) \<Rightarrow>
          (case chan_close c of None \<Rightarrow> Inl CloseOfClosed
           | Some c' \<Rightarrow> Inr (s\<lparr>rpChans := (rpChans s)[ch := c']\<rparr>)))"

text \<open>\<open>deliverResponse\<close>: decode the id, take the entry out of the table.\<close>

definition deliver_take :: "json \<Rightarrow> json option \<Rightarrow> jsonrpc_error option \<Rightarrow> rpc_state \<Rightarrow> rpc_state" where
  "deliver_take idRaw result err s =
     (case decode_int idRaw 0 of
        None \<Rightarrow> s
      | Some i \<Rightarrow>
          (case map_of (rpPending s) i of
             None \<Rightarrow> s
           | Some ch \<Rightarrow> s\<lparr>rpPending := al_del i (rpPending s),
                            rpInflight := rpInflight s @ [(ch, RpcResponse result err)]\<rparr>))"

text \<open>\<open>failPendingOnClose\<close>: swap the table, then send the error to every channel.\<close>

definition local_failure :: "string \<Rightarrow> rpc_response" where
  "local_failure msg = RpcResponse None (Some (JsonRpcError (- 32000) msg []))"

definition fail_take :: "string \<Rightarrow> rpc_state \<Rightarrow> rpc_state" where
  "fail_take msg s =
     s\<lparr>rpPending := [], rpInflight := rpInflight s @ map (\<lambda>p. (snd p, local_failure msg)) (rpPending s)\<rparr>"

section \<open>Call\<close>

definition pend_delete :: "64 word \<Rightarrow> rpc_state \<Rightarrow> rpc_state" where
  "pend_delete i s = s\<lparr>rpPending := al_del i (rpPending s)\<rparr>"

definition set_pc :: "nat \<Rightarrow> call_pc \<Rightarrow> rpc_state \<Rightarrow> rpc_state" where
  "set_pc n pc s = s\<lparr>rpCalls := (rpCalls s)[n := (rpCalls s ! n)\<lparr>rcPc := pc\<rparr>]\<rparr>"

definition call_begin :: "string \<Rightarrow> (go_error + json option) \<Rightarrow> rpc_state \<Rightarrow> rpc_state" where
  "call_begin meth params s =
     (let c = (\<lambda>pc. \<lparr>rcMethod = meth, rcParams = params, rcPc = pc\<rparr>) in
      if \<not> rpAlive s then s\<lparr>rpCalls := rpCalls s @ [c (CallReturned (Inl ErrNoInputChannel))]\<rparr>
      else s\<lparr>rpNext := rpNext s + 1, rpChans := rpChans s @ [new_chan 1],
             rpCalls := rpCalls s @ [c (CallAllocated (rpNext s + 1) (length (rpChans s)))]\<rparr>)"

definition call_register :: "nat \<Rightarrow> 64 word \<Rightarrow> nat \<Rightarrow> rpc_state \<Rightarrow> rpc_state" where
  "call_register n i ch s =
     set_pc n (CallRegistered i ch) (s\<lparr>rpPending := (i, ch) # al_del i (rpPending s)\<rparr>)"

definition call_encode :: "nat \<Rightarrow> 64 word \<Rightarrow> nat \<Rightarrow> rpc_state \<Rightarrow> rpc_state" where
  "call_encode n i ch s =
     (case rcParams (rpCalls s ! n) of
        Inl e \<Rightarrow> set_pc n (CallReturned (Inl (Wrapped ''agentsessions: jsonrpc encode'' e))) (pend_delete i s)
      | Inr p \<Rightarrow> set_pc n (CallEncoded i ch (json_text (request_json i (rcMethod (rpCalls s ! n)) p))) s)"

definition call_stdin :: "nat \<Rightarrow> 64 word \<Rightarrow> nat \<Rightarrow> bytes \<Rightarrow> rpc_state \<Rightarrow> rpc_state" where
  "call_stdin n i ch enc s =
     (if \<not> rpStdin s then set_pc n (CallReturned (Inl ErrNoInputChannel)) (pend_delete i s)
      else set_pc n (CallHasStdin i ch enc) s)"

definition call_write :: "nat \<Rightarrow> 64 word \<Rightarrow> nat \<Rightarrow> bytes \<Rightarrow> go_error option \<Rightarrow> rpc_state \<Rightarrow> rpc_state" where
  "call_write n i ch enc werr s =
     (case werr of
        Some e \<Rightarrow> set_pc n (CallReturned (Inl (Wrapped ''agentsessions: jsonrpc write'' e))) (pend_delete i s)
      | None \<Rightarrow> set_pc n (CallWaiting i ch) (s\<lparr>rpOut := rpOut s @ [enc @ [CHR 0x0A]]\<rparr>))"

text \<open>The received value; a closed and drained channel gives the zero response.\<close>

definition call_result :: "rpc_response \<Rightarrow> go_error + json option" where
  "call_result r = (case rsErr r of Some e \<Rightarrow> Inl (AsJsonRpcError e) | None \<Rightarrow> Inr (rsResult r))"

definition call_receive :: "nat \<Rightarrow> nat \<Rightarrow> rpc_state \<Rightarrow> rpc_state option" where
  "call_receive n ch s =
     (let c = rpChans s ! ch in
      case chQueue c of
        r # rs \<Rightarrow> Some (set_pc n (CallReturned (call_result r)) (s\<lparr>rpChans := (rpChans s)[ch := chan_recv c]\<rparr>))
      | [] \<Rightarrow> if chClosed c then Some (set_pc n (CallReturned (call_result (RpcResponse None None))) s) else None)"

definition call_cancel :: "nat \<Rightarrow> 64 word \<Rightarrow> rpc_state \<Rightarrow> rpc_state" where
  "call_cancel n i s = set_pc n (CallReturned (Inl ErrContext)) (pend_delete i s)"

section \<open>Inbound frames\<close>

text \<open>
  The request hook: the marshalled result (or why it cannot be marshalled) and the
  error it returns.
\<close>

type_synonym request_hook = "(string \<Rightarrow> json option \<Rightarrow> (go_error + json) \<times> jsonrpc_error option) option"

definition no_hook_error :: "string \<Rightarrow> jsonrpc_error" where
  "no_hook_error meth =
     JsonRpcError (- 32601)
       (''agentsessions: no JsonRpcRequestHook configured for server-initiated request '' @ meth) []"

text \<open>The keys of the Go map are marshalled in sorted order.\<close>

definition response_json :: "request_hook \<Rightarrow> rpc_frame \<Rightarrow> json option" where
  "response_json hook fr =
     (let idj = (case frID fr of None \<Rightarrow> JNull | Some j \<Rightarrow> j);
          with_err = (\<lambda>e. map_option (\<lambda>ej. JObj [(''error'', ej), (''id'', idj), (''jsonrpc'', JStr ''2.0'')]) (error_json e))
      in case hook of
           None \<Rightarrow> with_err (no_hook_error (frMethod fr))
         | Some h \<Rightarrow>
             (case h (frMethod fr) (frParams fr) of
                (r, Some e) \<Rightarrow> with_err e
              | (Inr j, None) \<Rightarrow> Some (JObj [(''id'', idj), (''jsonrpc'', JStr ''2.0''), (''result'', j)])
              | (Inl e, None) \<Rightarrow> None))"

definition respondToServerRequest :: "request_hook \<Rightarrow> rpc_frame \<Rightarrow> rpc_state \<Rightarrow> rpc_state" where
  "respondToServerRequest hook fr s =
     (case response_json hook fr of
        None \<Rightarrow> s
      | Some j \<Rightarrow> if rpStdin s then s\<lparr>rpOut := rpOut s @ [json_text j @ [CHR 0x0A]]\<rparr> else s)"

definition route_frame :: "bool \<Rightarrow> request_hook \<Rightarrow> rpc_frame \<Rightarrow> rpc_state \<Rightarrow> rpc_state" where
  "route_frame notify hook fr s =
     (if frMethod fr \<noteq> '''' \<and> frID fr \<noteq> None then respondToServerRequest hook fr s
      else if frMethod fr \<noteq> '''' then
        (if notify then s\<lparr>rpNotes := rpNotes s @ [(frMethod fr, frParams fr)]\<rparr> else s)
      else case frID fr of
        Some j \<Rightarrow> deliver_take j (frResult fr) (frError fr) s
      | None \<Rightarrow> s)"

definition reader_frame :: "bool \<Rightarrow> request_hook \<Rightarrow> bytes \<Rightarrow> rpc_state \<Rightarrow> rpc_state" where
  "reader_frame notify hook raw s =
     (case decode_frame raw of None \<Rightarrow> s | Some fr \<Rightarrow> route_frame notify hook fr s)"

definition reader_exit :: "rpc_state \<Rightarrow> rpc_state" where
  "reader_exit s = (fail_take ''agentsessions: jsonrpc reader exited before response'' s)\<lparr>rpReader := False\<rparr>"

text \<open>\<open>Stop\<close>, as far as it concerns the client: dead, and the pending calls fail.\<close>

definition rpc_stop :: "rpc_state \<Rightarrow> rpc_state" where
  "rpc_stop s =
     (if rpStopOnce s then s
      else (fail_take ''agentsessions: session stopped'' s)\<lparr>rpAlive := False, rpStopOnce := True\<rparr>)"

section \<open>Interleaving\<close>

datatype rpc_event =
    EvCall string "go_error + json option"
  | EvRegister nat
  | EvEncode nat
  | EvStdin nat
  | EvWrite nat "go_error option"
  | EvReceive nat
  | EvCancel nat
  | EvLine bytes
  | EvSend nat
  | EvReaderExit
  | EvReaderStart
  | EvStdinNil
  | EvDead
  | EvStop

definition call_at :: "nat \<Rightarrow> rpc_state \<Rightarrow> call_pc option" where
  "call_at n s = (if n < length (rpCalls s) then Some (rcPc (rpCalls s ! n)) else None)"

text \<open>None: the event is not enabled.\<close>

definition rpc_exec :: "bool \<Rightarrow> request_hook \<Rightarrow> rpc_event \<Rightarrow> rpc_state \<Rightarrow> (rpc_fault + rpc_state) option" where
  "rpc_exec notify hook ev s =
     (case ev of
        EvCall m p \<Rightarrow> Some (Inr (call_begin m p s))
      | EvRegister n \<Rightarrow> (case call_at n s of Some (CallAllocated i ch) \<Rightarrow> Some (Inr (call_register n i ch s)) | _ \<Rightarrow> None)
      | EvEncode n \<Rightarrow> (case call_at n s of Some (CallRegistered i ch) \<Rightarrow> Some (Inr (call_encode n i ch s)) | _ \<Rightarrow> None)
      | EvStdin n \<Rightarrow> (case call_at n s of Some (CallEncoded i ch e) \<Rightarrow> Some (Inr (call_stdin n i ch e s)) | _ \<Rightarrow> None)
      | EvWrite n w \<Rightarrow> (case call_at n s of Some (CallHasStdin i ch e) \<Rightarrow> Some (Inr (call_write n i ch e w s)) | _ \<Rightarrow> None)
      | EvReceive n \<Rightarrow> (case call_at n s of Some (CallWaiting i ch) \<Rightarrow> map_option Inr (call_receive n ch s) | _ \<Rightarrow> None)
      | EvCancel n \<Rightarrow> (case call_at n s of Some (CallWaiting i ch) \<Rightarrow> Some (Inr (call_cancel n i s)) | _ \<Rightarrow> None)
      | EvLine raw \<Rightarrow> if rpReader s then Some (Inr (reader_frame notify hook raw s)) else None
      | EvSend k \<Rightarrow>
          if k < length (rpInflight s)
          then Some (send_response (fst (rpInflight s ! k)) (snd (rpInflight s ! k))
                 (s\<lparr>rpInflight := take k (rpInflight s) @ drop (Suc k) (rpInflight s)\<rparr>))
          else None
      | EvReaderExit \<Rightarrow> if rpReader s then Some (Inr (reader_exit s)) else None
      | EvReaderStart \<Rightarrow> if rpReader s \<or> rpStdin s then None else Some (Inr (s\<lparr>rpReader := True, rpStdin := True\<rparr>))
      | EvStdinNil \<Rightarrow> Some (Inr (s\<lparr>rpStdin := False\<rparr>))
      | EvDead \<Rightarrow> if rpReader s then None else Some (Inr (s\<lparr>rpAlive := False\<rparr>))
      | EvStop \<Rightarrow> Some (Inr (rpc_stop s)))"

fun rpc_run :: "bool \<Rightarrow> request_hook \<Rightarrow> rpc_event list \<Rightarrow> rpc_state \<Rightarrow> (rpc_fault + rpc_state) option" where
  "rpc_run notify hook [] s = Some (Inr s)"
| "rpc_run notify hook (ev # evs) s =
     (case rpc_exec notify hook ev s of
        Some (Inr s') \<Rightarrow> rpc_run notify hook evs s'
      | r \<Rightarrow> r)"

text \<open>The same as a step relation, for rule induction.\<close>

inductive rpc_reach :: "bool \<Rightarrow> request_hook \<Rightarrow> rpc_event list \<Rightarrow> rpc_state \<Rightarrow> bool"
  for notify :: bool and hook :: request_hook where
  init: "rpc_reach notify hook [] new_rpc"
| step: "rpc_reach notify hook evs s \<Longrightarrow> rpc_exec notify hook ev s = Some (Inr s') \<Longrightarrow>
     rpc_reach notify hook (evs @ [ev]) s'"

inductive_cases rpc_reach_NilE: "rpc_reach notify hook [] s"
inductive_cases rpc_reach_snocE: "rpc_reach notify hook (evs @ [ev]) s"

end
