(* ===== verification/Jsonrpc_Inv.thy ===== *)
theory Jsonrpc_Inv imports Jsonrpc begin

text \<open>
  The invariant of the JSON-RPC client and its preservation by every section: each
  response channel is owned by one call, is in the pending table or in flight at
  most once and only while nothing was sent on it, and a call that waits has an
  entry, a response in flight or a response queued.
\<close>

named_theorems rpc_simps \<open>projections of the client sections\<close>

definition id_of :: "nat \<Rightarrow> 64 word" where
  "id_of ch = word_of_nat (Suc ch)"

lemma id_of_inj: "id_of a = id_of b \<Longrightarrow> Suc a < 2 ^ 64 \<Longrightarrow> Suc b < 2 ^ 64 \<Longrightarrow> a = b"
  unfolding id_of_def by (simp add: word_of_nat_eq_iff take_bit_nat_eq_self_iff flip: of_nat_Suc) (simp add: take_bit_nat_eq_self)

fun pc_chan :: "call_pc \<Rightarrow> (64 word \<times> nat) option" where
  "pc_chan (CallAllocated i ch) = Some (i, ch)"
| "pc_chan (CallRegistered i ch) = Some (i, ch)"
| "pc_chan (CallEncoded i ch e) = Some (i, ch)"
| "pc_chan (CallHasStdin i ch e) = Some (i, ch)"
| "pc_chan (CallWaiting i ch) = Some (i, ch)"
| "pc_chan (CallReturned r) = None"

definition is_allocated :: "call_pc \<Rightarrow> bool" where
  "is_allocated pc \<longleftrightarrow> (case pc of CallAllocated i ch \<Rightarrow> True | _ \<Rightarrow> False)"

lemma is_allocated_simps [simp]:
  "is_allocated (CallAllocated i ch)" "\<not> is_allocated (CallRegistered i ch)" "\<not> is_allocated (CallEncoded i ch e)"
  "\<not> is_allocated (CallHasStdin i ch e)" "\<not> is_allocated (CallWaiting i ch)" "\<not> is_allocated (CallReturned r)"
  by (simp_all add: is_allocated_def)

lemma call_at_set_pc [rpc_simps]:
  "call_at m (set_pc n pc s) = (if m = n \<and> n < length (rpCalls s) then Some pc else call_at m s)"
  by (auto simp: call_at_def set_pc_def)

lemma call_at_cong: "rpCalls s' = rpCalls s \<Longrightarrow> call_at n s' = call_at n s"
  by (simp add: call_at_def)

lemma set_pc_sel [simp, rpc_simps]:
  "rpNext (set_pc n pc s) = rpNext s" "rpPending (set_pc n pc s) = rpPending s" "rpChans (set_pc n pc s) = rpChans s"
  "rpInflight (set_pc n pc s) = rpInflight s" "rpAlive (set_pc n pc s) = rpAlive s" "rpStdin (set_pc n pc s) = rpStdin s"
  "rpReader (set_pc n pc s) = rpReader s" "rpOut (set_pc n pc s) = rpOut s" "rpStopOnce (set_pc n pc s) = rpStopOnce s"
  "length (rpCalls (set_pc n pc s)) = length (rpCalls s)" "rpNotes (set_pc n pc s) = rpNotes s"
  by (simp_all add: set_pc_def)

lemma pend_delete_sel [simp, rpc_simps]:
  "rpNext (pend_delete i s) = rpNext s" "rpPending (pend_delete i s) = al_del i (rpPending s)"
  "rpChans (pend_delete i s) = rpChans s" "rpInflight (pend_delete i s) = rpInflight s"
  "rpCalls (pend_delete i s) = rpCalls s" "rpAlive (pend_delete i s) = rpAlive s" "rpStdin (pend_delete i s) = rpStdin s"
  "rpReader (pend_delete i s) = rpReader s" "rpOut (pend_delete i s) = rpOut s"
  by (simp_all add: pend_delete_def)

definition fresh :: "rpc_response chan \<Rightarrow> bool" where
  "fresh c \<longleftrightarrow> chQueue c = [] \<and> chCap c = 1 \<and> \<not> chClosed c"

definition settled :: "rpc_response chan \<Rightarrow> bool" where
  "settled c \<longleftrightarrow> chClosed c \<and> length (chQueue c) \<le> 1"

definition held :: "rpc_state \<Rightarrow> nat set" where
  "held s = snd ` set (rpPending s) \<union> fst ` set (rpInflight s)"

text \<open>The table and the channels.\<close>

definition table_inv :: "rpc_state \<Rightarrow> bool" where
  "table_inv s \<longleftrightarrow>
     rpNext s = word_of_nat (length (rpChans s)) \<and>
     (\<forall>p \<in> set (rpPending s). fst p = id_of (snd p)) \<and> distinct (map fst (rpPending s)) \<and>
     distinct (map snd (rpPending s) @ map fst (rpInflight s)) \<and>
     (\<forall>ch \<in> held s. ch < length (rpChans s) \<and> fresh (rpChans s ! ch)) \<and>
     (\<forall>ch < length (rpChans s). fresh (rpChans s ! ch) \<or> settled (rpChans s ! ch))"

text \<open>The calls: each owns its channel, and finds its answer there.\<close>

definition calls_inv :: "rpc_state \<Rightarrow> bool" where
  "calls_inv s \<longleftrightarrow>
     (\<forall>n pc i ch. call_at n s = Some pc \<longrightarrow> pc_chan pc = Some (i, ch) \<longrightarrow>
        i = id_of ch \<and> ch < length (rpChans s) \<and>
        (is_allocated pc \<longrightarrow> fresh (rpChans s ! ch) \<and> ch \<notin> held s) \<and>
        (chClosed (rpChans s ! ch) \<longrightarrow> chQueue (rpChans s ! ch) \<noteq> []) \<and>
        (\<forall>m pc' j. call_at m s = Some pc' \<longrightarrow> pc_chan pc' = Some (j, ch) \<longrightarrow> m = n))"

text \<open>Nobody is forgotten, while ids have not wrapped around.\<close>

definition waiters_inv :: "rpc_state \<Rightarrow> bool" where
  "waiters_inv s \<longleftrightarrow>
     (length (rpChans s) < 2 ^ 64 - 1 \<longrightarrow>
      (\<forall>n pc i ch. call_at n s = Some pc \<longrightarrow> pc_chan pc = Some (i, ch) \<longrightarrow> \<not> is_allocated pc \<longrightarrow>
         ch \<in> held s \<or> chQueue (rpChans s ! ch) \<noteq> []))"

definition rpc_inv :: "rpc_state \<Rightarrow> bool" where
  "rpc_inv s \<longleftrightarrow> table_inv s \<and> calls_inv s \<and> waiters_inv s"

lemma rpc_inv_new: "rpc_inv new_rpc"
  by (simp add: rpc_inv_def table_inv_def calls_inv_def waiters_inv_def new_rpc_def held_def call_at_def)

lemma calls_invD:
  assumes "calls_inv s" "call_at n s = Some pc" "pc_chan pc = Some (i, ch)"
  shows "i = id_of ch" "ch < length (rpChans s)" "is_allocated pc \<Longrightarrow> fresh (rpChans s ! ch) \<and> ch \<notin> held s"
    "chClosed (rpChans s ! ch) \<Longrightarrow> chQueue (rpChans s ! ch) \<noteq> []"
    "call_at m s = Some pc' \<Longrightarrow> pc_chan pc' = Some (j, ch) \<Longrightarrow> m = n"
  using assms unfolding calls_inv_def by blast+

lemma calls_invI:
  assumes "\<And>n pc i ch. call_at n s = Some pc \<Longrightarrow> pc_chan pc = Some (i, ch) \<Longrightarrow> i = id_of ch \<and> ch < length (rpChans s)"
    and "\<And>n pc i ch. call_at n s = Some pc \<Longrightarrow> pc_chan pc = Some (i, ch) \<Longrightarrow> is_allocated pc \<Longrightarrow>
       fresh (rpChans s ! ch) \<and> ch \<notin> held s"
    and "\<And>n pc i ch. call_at n s = Some pc \<Longrightarrow> pc_chan pc = Some (i, ch) \<Longrightarrow> chClosed (rpChans s ! ch) \<Longrightarrow>
       chQueue (rpChans s ! ch) \<noteq> []"
    and "\<And>n pc i ch m pc' j. call_at n s = Some pc \<Longrightarrow> pc_chan pc = Some (i, ch) \<Longrightarrow> call_at m s = Some pc' \<Longrightarrow>
       pc_chan pc' = Some (j, ch) \<Longrightarrow> m = n"
  shows "calls_inv s"
  using assms unfolding calls_inv_def by blast

lemma waiters_invD:
  assumes "waiters_inv s" "length (rpChans s) < 2 ^ 64 - 1" "call_at n s = Some pc" "pc_chan pc = Some (i, ch)"
    "\<not> is_allocated pc"
  shows "ch \<in> held s \<or> chQueue (rpChans s ! ch) \<noteq> []"
  using assms unfolding waiters_inv_def by blast

lemma waiters_invI:
  assumes "\<And>n pc i ch. length (rpChans s) < 2 ^ 64 - 1 \<Longrightarrow> call_at n s = Some pc \<Longrightarrow> pc_chan pc = Some (i, ch) \<Longrightarrow>
     \<not> is_allocated pc \<Longrightarrow> ch \<in> held s \<or> chQueue (rpChans s ! ch) \<noteq> []"
  shows "waiters_inv s"
  using assms unfolding waiters_inv_def by blast

section \<open>A call moves\<close>

text \<open>A call that moves keeps its channel or returns; the other calls stay.\<close>

definition moves :: "nat \<Rightarrow> call_pc \<Rightarrow> call_pc \<Rightarrow> rpc_state \<Rightarrow> bool" where
  "moves n pc pc' s \<longleftrightarrow> call_at n s = Some pc \<and> (pc_chan pc' = pc_chan pc \<or> pc_chan pc' = None) \<and> \<not> is_allocated pc'"

lemma moves_origin:
  assumes "moves n pc pc' s" "call_at m (set_pc n pc' s) = Some pm" "pc_chan pm = Some x"
  shows "\<exists>qm. call_at m s = Some qm \<and> pc_chan qm = Some x \<and> (is_allocated pm \<longrightarrow> is_allocated qm) \<and>
     (m \<noteq> n \<longrightarrow> qm = pm) \<and> (m = n \<longrightarrow> qm = pc)"
proof (cases "m = n")
  case True
  have "n < length (rpCalls s)" using assms(1) by (simp add: moves_def call_at_def split: if_splits)
  then have "pm = pc'" using assms(2) True by (simp add: call_at_set_pc)
  then show ?thesis using True assms(1,3) by (auto simp: moves_def)
next
  case False
  then show ?thesis using assms by (simp add: call_at_set_pc)
qed

lemma calls_inv_set_pc:
  assumes "calls_inv s" "moves n pc pc' s"
  shows "calls_inv (set_pc n pc' s)"
proof (rule calls_invI)
  have h: "held (set_pc n pc' s) = held s" by (simp add: held_def)
  fix m pm i ch
  assume a: "call_at m (set_pc n pc' s) = Some pm" "pc_chan pm = Some (i, ch)"
  obtain qm where q: "call_at m s = Some qm" "pc_chan qm = Some (i, ch)" "is_allocated pm \<longrightarrow> is_allocated qm"
    using moves_origin[OF assms(2) a] by blast
  note d = calls_invD[OF assms(1) q(1,2)]
  show "i = id_of ch \<and> ch < length (rpChans (set_pc n pc' s))" using d by simp
  show "fresh (rpChans (set_pc n pc' s) ! ch) \<and> ch \<notin> held (set_pc n pc' s)" if "is_allocated pm"
    using d(3) q(3) that h by simp
  show "chQueue (rpChans (set_pc n pc' s) ! ch) \<noteq> []" if "chClosed (rpChans (set_pc n pc' s) ! ch)"
    using d(4) that by simp
  fix k pk j
  assume b: "call_at k (set_pc n pc' s) = Some pk" "pc_chan pk = Some (j, ch)"
  then show "k = m" using moves_origin[OF assms(2) b] d(5) by blast
qed

lemma table_inv_set_pc [simp]: "table_inv (set_pc n pc s) = table_inv s"
  by (simp add: table_inv_def held_def)

lemma waiters_inv_set_pc:
  assumes "waiters_inv s" "moves n pc pc' s" "\<not> is_allocated pc"
  shows "waiters_inv (set_pc n pc' s)"
proof (rule waiters_invI)
  fix m pm i ch
  assume a: "length (rpChans (set_pc n pc' s)) < 2 ^ 64 - 1" "call_at m (set_pc n pc' s) = Some pm"
    "pc_chan pm = Some (i, ch)" "\<not> is_allocated pm"
  obtain qm where "call_at m s = Some qm" "pc_chan qm = Some (i, ch)" "\<not> is_allocated qm"
    using moves_origin[OF assms(2) a(2,3)] assms(3) a(4) by blast
  then show "ch \<in> held (set_pc n pc' s) \<or> chQueue (rpChans (set_pc n pc' s) ! ch) \<noteq> []"
    using waiters_invD[OF assms(1)] a(1) by (simp add: held_def)
qed

section \<open>The table changes\<close>

lemma table_invD:
  assumes "table_inv s"
  shows "rpNext s = word_of_nat (length (rpChans s))" "p \<in> set (rpPending s) \<Longrightarrow> fst p = id_of (snd p)"
    "distinct (map fst (rpPending s))" "distinct (map snd (rpPending s))" "distinct (map fst (rpInflight s))"
    "snd ` set (rpPending s) \<inter> fst ` set (rpInflight s) = {}"
    "ch \<in> held s \<Longrightarrow> ch < length (rpChans s) \<and> fresh (rpChans s ! ch)"
    "ch < length (rpChans s) \<Longrightarrow> fresh (rpChans s ! ch) \<or> settled (rpChans s ! ch)"
proof -
  have a: "rpNext s = word_of_nat (length (rpChans s))" "\<forall>p \<in> set (rpPending s). fst p = id_of (snd p)"
    "distinct (map fst (rpPending s))" "distinct (map snd (rpPending s) @ map fst (rpInflight s))"
    "\<forall>ch \<in> held s. ch < length (rpChans s) \<and> fresh (rpChans s ! ch)"
    "\<forall>ch < length (rpChans s). fresh (rpChans s ! ch) \<or> settled (rpChans s ! ch)"
    using assms unfolding table_inv_def by - (elim conjE, assumption)+
  show "rpNext s = word_of_nat (length (rpChans s))" "distinct (map fst (rpPending s))" by (fact a)+
  show "p \<in> set (rpPending s) \<Longrightarrow> fst p = id_of (snd p)" using a(2) by (rule bspec)
  show "ch \<in> held s \<Longrightarrow> ch < length (rpChans s) \<and> fresh (rpChans s ! ch)" using a(5) by (rule bspec)
  show "ch < length (rpChans s) \<Longrightarrow> fresh (rpChans s ! ch) \<or> settled (rpChans s ! ch)" using a(6) by blast
  show "distinct (map snd (rpPending s))" "distinct (map fst (rpInflight s))"
    "snd ` set (rpPending s) \<inter> fst ` set (rpInflight s) = {}"
    using a(4) by (simp_all only: distinct_append set_map)
qed

lemma table_invI:
  assumes "rpNext s = word_of_nat (length (rpChans s))" "\<And>p. p \<in> set (rpPending s) \<Longrightarrow> fst p = id_of (snd p)"
    "distinct (map fst (rpPending s))" "distinct (map snd (rpPending s) @ map fst (rpInflight s))"
    "\<And>ch. ch \<in> held s \<Longrightarrow> ch < length (rpChans s) \<and> fresh (rpChans s ! ch)"
    "\<And>ch. ch < length (rpChans s) \<Longrightarrow> fresh (rpChans s ! ch) \<or> settled (rpChans s ! ch)"
  shows "table_inv s"
  unfolding table_inv_def using assms by blast

lemma rpc_inv_cong:
  assumes "rpNext s' = rpNext s" "rpPending s' = rpPending s" "rpChans s' = rpChans s"
    "rpInflight s' = rpInflight s" "rpCalls s' = rpCalls s"
  shows "rpc_inv s' = rpc_inv s"
proof -
  have "held s' = held s" "\<And>n. call_at n s' = call_at n s" using assms by (simp_all add: held_def call_at_def)
  then show ?thesis using assms by (simp add: rpc_inv_def table_inv_def calls_inv_def waiters_inv_def)
qed

text \<open>Channels move within the table: the held ones stay the same.\<close>

lemma rpc_inv_rearrange:
  assumes "rpc_inv s" "rpNext s' = rpNext s" "rpChans s' = rpChans s" "rpCalls s' = rpCalls s" "held s' = held s"
    "\<And>p. p \<in> set (rpPending s') \<Longrightarrow> p \<in> set (rpPending s)" "distinct (map fst (rpPending s'))"
    "distinct (map snd (rpPending s') @ map fst (rpInflight s'))"
  shows "rpc_inv s'"
proof -
  have c: "call_at n s' = call_at n s" for n using assms(4) by (simp add: call_at_def)
  have t: "table_inv s" using assms(1) by (simp add: rpc_inv_def)
  have "table_inv s'"
  proof (rule table_invI)
    show "rpNext s' = word_of_nat (length (rpChans s'))" using table_invD(1)[OF t] assms(2,3) by simp
    show "fst p = id_of (snd p)" if "p \<in> set (rpPending s')" for p using table_invD(2)[OF t] assms(6) that by blast
    show "ch < length (rpChans s') \<and> fresh (rpChans s' ! ch)" if "ch \<in> held s'" for ch
      using table_invD(7)[OF t] assms(3,5) that by simp
    show "fresh (rpChans s' ! ch) \<or> settled (rpChans s' ! ch)" if "ch < length (rpChans s')" for ch
      using table_invD(8)[OF t] assms(3) that by simp
  qed (fact assms)+
  moreover have "calls_inv s'" using assms(1) unfolding rpc_inv_def calls_inv_def c assms(3,5) by blast
  moreover have "waiters_inv s'" using assms(1) unfolding rpc_inv_def waiters_inv_def c assms(3,5) by blast
  ultimately show ?thesis unfolding rpc_inv_def by blast
qed

lemma held_fail_take [simp]: "held (fail_take m s) = held s"
  by (auto simp: held_def fail_take_def image_Un image_image)

lemma fail_take_sel [simp]:
  "rpNext (fail_take m s) = rpNext s" "rpChans (fail_take m s) = rpChans s" "rpCalls (fail_take m s) = rpCalls s"
  "rpPending (fail_take m s) = []" "rpAlive (fail_take m s) = rpAlive s" "rpStdin (fail_take m s) = rpStdin s"
  "rpReader (fail_take m s) = rpReader s" "rpOut (fail_take m s) = rpOut s"
  "rpInflight (fail_take m s) = rpInflight s @ map (\<lambda>p. (snd p, local_failure m)) (rpPending s)"
  by (simp_all add: fail_take_def)

lemma rpc_inv_fail_take:
  assumes "rpc_inv s"
  shows "rpc_inv (fail_take m s)"
proof (rule rpc_inv_rearrange[OF assms])
  have "table_inv s" using assms by (simp add: rpc_inv_def)
  note t = table_invD(4-6)[OF this]
  have "map fst (map (\<lambda>p. (snd p, local_failure m)) (rpPending s)) = map snd (rpPending s)" by (simp add: comp_def)
  then show "distinct (map snd (rpPending (fail_take m s)) @ map fst (rpInflight (fail_take m s)))"
    using t by (simp add: Int_commute comp_def image_image)
qed simp_all

lemma rpc_inv_deliver_take:
  assumes "rpc_inv s"
  shows "rpc_inv (deliver_take j r e s)"
proof (cases "decode_int j 0")
  case None
  then show ?thesis using assms by (simp add: deliver_take_def)
next
  case (Some i)
  show ?thesis
  proof (cases "map_of (rpPending s) i")
    case None
    then show ?thesis using assms Some by (simp add: deliver_take_def)
  next
    case ch: (Some ch)
    have t: "table_inv s" using assms by (simp add: rpc_inv_def)
    note td = table_invD[OF t]
    have mem: "(i, ch) \<in> set (rpPending s)" using ch by (rule map_of_SomeD)
    have only: "p = (i, ch)" if "p \<in> set (rpPending s)" "fst p = i" for p
      using that mem td(3) by (metis eq_key_imp_eq_value prod.collapse)
    have only': "fst p = i" if "p \<in> set (rpPending s)" "snd p = ch" for p
      using that mem td(4) by (metis distinct_map fst_conv inj_onD snd_conv)
    let ?s = "deliver_take j r e s"
    have s': "rpPending ?s = al_del i (rpPending s)" "rpInflight ?s = rpInflight s @ [(ch, RpcResponse r e)]"
      "rpNext ?s = rpNext s" "rpChans ?s = rpChans s" "rpCalls ?s = rpCalls s"
      using Some ch by (simp_all add: deliver_take_def)
    show ?thesis
    proof (rule rpc_inv_rearrange[OF assms s'(3-5)])
      have "snd ` set (rpPending s) = insert ch (snd ` set (al_del i (rpPending s)))"
      proof
        show "snd ` set (rpPending s) \<subseteq> insert ch (snd ` set (al_del i (rpPending s)))"
          using only by (auto simp: image_iff)
        show "insert ch (snd ` set (al_del i (rpPending s))) \<subseteq> snd ` set (rpPending s)"
          using mem by (auto simp: image_iff intro: bexI[of _ "(i, ch)"])
      qed
      then show "held ?s = held s" by (auto simp: held_def s')
      show "p \<in> set (rpPending s)" if "p \<in> set (rpPending ?s)" for p using that by (simp add: s')
      show "distinct (map fst (rpPending ?s))" using td(3) by (simp add: s')
      have a: "ch \<notin> snd ` set (al_del i (rpPending s))" using only' by auto
      have "ch \<in> snd ` set (rpPending s)" using mem by (metis imageI snd_conv)
      then have b: "ch \<notin> fst ` set (rpInflight s)" using td(6) by blast
      have c: "snd ` set (al_del i (rpPending s)) \<inter> fst ` set (rpInflight s) = {}" using td(6) by auto
      have "distinct (map snd (al_del i (rpPending s)))" using td(4) by (rule distinct_snd_al_del)
      then show "distinct (map snd (rpPending ?s) @ map fst (rpInflight ?s))"
        using td(5) a b c by (simp add: s' del: set_al_del)
    qed
  qed
qed

section \<open>A call returns and drops its entry\<close>

lemma held_pend_delete: "held (pend_delete i s) \<subseteq> held s"
  by (auto simp: held_def)

lemma table_inv_pend_delete:
  assumes "table_inv s"
  shows "table_inv (pend_delete i s)"
proof (rule table_invI)
  note t = table_invD[OF assms]
  have "set (map snd (al_del i (rpPending s))) \<subseteq> set (map snd (rpPending s))" by auto
  then have "set (map snd (al_del i (rpPending s))) \<inter> set (map fst (rpInflight s)) = {}"
    using t(6) by (simp only: set_map) blast
  then show "distinct (map snd (rpPending (pend_delete i s)) @ map fst (rpInflight (pend_delete i s)))"
    using distinct_snd_al_del[OF t(4)] t(5) by simp
  show "ch < length (rpChans (pend_delete i s)) \<and> fresh (rpChans (pend_delete i s) ! ch)" if "ch \<in> held (pend_delete i s)" for ch
    using that held_pend_delete t(7) by (metis pend_delete_sel(3) subsetD)
  show "distinct (map fst (rpPending (pend_delete i s)))" using t(3) by simp
  show "rpNext (pend_delete i s) = word_of_nat (length (rpChans (pend_delete i s)))" using t(1) by simp
  show "fst p = id_of (snd p)" if "p \<in> set (rpPending (pend_delete i s))" for p using t(2) that by simp
  show "fresh (rpChans (pend_delete i s) ! ch) \<or> settled (rpChans (pend_delete i s) ! ch)"
    if "ch < length (rpChans (pend_delete i s))" for ch using t(8) that by simp
qed

lemma call_at_pend_delete [simp]: "call_at n (pend_delete i s) = call_at n s"
  by (simp add: call_at_def)

text \<open>Fewer calls and fewer held channels: the calls stay well.\<close>

lemma calls_inv_sub:
  assumes "calls_inv s" "\<And>n pc x. call_at n s' = Some pc \<Longrightarrow> pc_chan pc = Some x \<Longrightarrow> call_at n s = Some pc"
    "rpChans s' = rpChans s" "held s' \<subseteq> held s"
  shows "calls_inv s'"
proof (rule calls_invI)
  fix n pc j ch
  assume a': "call_at n s' = Some pc" and c: "pc_chan pc = Some (j, ch)"
  have a: "call_at n s = Some pc" by (rule assms(2)[OF a' c])
  note d = calls_invD[OF assms(1) a c]
  show "j = id_of ch \<and> ch < length (rpChans s')" using d(1,2) assms(3) by simp
  show "fresh (rpChans s' ! ch) \<and> ch \<notin> held s'" if "is_allocated pc"
    using d(3)[OF that] assms(3,4) by auto
  show "chQueue (rpChans s' ! ch) \<noteq> []" if "chClosed (rpChans s' ! ch)"
    using d(4) that assms(3) by simp
  fix m pc' k
  assume "call_at m s' = Some pc'" and c': "pc_chan pc' = Some (k, ch)"
  then show "m = n" using d(5)[OF assms(2) c'] by blast
qed

lemma calls_inv_pend_delete: "calls_inv s \<Longrightarrow> calls_inv (pend_delete i s)"
  by (rule calls_inv_sub) (use held_pend_delete in auto)

lemma rpc_inv_return:
  assumes "rpc_inv s" "call_at n s = Some pc" "pc_chan pc = Some (i, ch)" "pc' = CallReturned r"
  shows "rpc_inv (set_pc n pc' (pend_delete i s))"
proof -
  let ?s = "pend_delete i s"
  have inv: "table_inv s" "calls_inv s" "waiters_inv s" using assms(1) by (simp_all add: rpc_inv_def)
  have at: "call_at m ?s = call_at m s" for m by simp
  have m: "moves n pc pc' ?s" using assms by (simp add: moves_def)
  have len: "n < length (rpCalls s)" using assms(2) by (simp add: call_at_def split: if_splits)
  have "waiters_inv (set_pc n pc' ?s)"
  proof (rule waiters_invI)
    fix k pk j c
    assume a: "length (rpChans (set_pc n pc' ?s)) < 2 ^ 64 - 1" "call_at k (set_pc n pc' ?s) = Some pk"
      "pc_chan pk = Some (j, c)" "\<not> is_allocated pk"
    have kn: "k \<noteq> n"
    proof
      assume "k = n"
      then have "pk = CallReturned r" using a(2) len assms(4) by (simp add: call_at_set_pc)
      then show False using a(3) by simp
    qed
    then have k: "call_at k s = Some pk" using moves_origin[OF m a(2,3)] at by auto
    have w: "c \<in> held s \<or> chQueue (rpChans s ! c) \<noteq> []"
      using waiters_invD[OF inv(3) _ k a(3,4)] a(1) by simp
    have "c \<noteq> ch" using calls_invD(5)[OF inv(2) k a(3), of n pc i] assms(2,3) kn by auto
    moreover have "c < length (rpChans s)" "ch < length (rpChans s)" "i = id_of ch"
      using calls_invD(1,2)[OF inv(2) k a(3)] calls_invD(1,2)[OF inv(2) assms(2,3)] by auto
    ultimately have "id_of c \<noteq> i" using id_of_inj[of c ch] a(1) by auto
    then have "c \<in> held s \<Longrightarrow> c \<in> held ?s"
      using table_invD(2)[OF inv(1)] by (fastforce simp: held_def image_iff)
    then show "c \<in> held (set_pc n pc' ?s) \<or> chQueue (rpChans (set_pc n pc' ?s) ! c) \<noteq> []"
      using w by (auto simp: held_def)
  qed
  then show ?thesis
    using table_inv_pend_delete[OF inv(1)] calls_inv_set_pc[OF calls_inv_pend_delete[OF inv(2)] m]
    by (simp add: rpc_inv_def)
qed

lemma rpc_inv_move:
  assumes "rpc_inv s" "moves n pc pc' s" "\<not> is_allocated pc"
  shows "rpc_inv (set_pc n pc' s)"
  using assms calls_inv_set_pc waiters_inv_set_pc by (simp add: rpc_inv_def)

section \<open>A call starts and registers\<close>

lemma rpc_inv_begin:
  assumes "rpc_inv s"
  shows "rpc_inv (call_begin meth params s)"
proof (cases "rpAlive s")
  case False
  let ?s = "call_begin meth params s"
  have f: "rpNext ?s = rpNext s" "rpPending ?s = rpPending s" "rpChans ?s = rpChans s" "rpInflight ?s = rpInflight s"
    "held ?s = held s" using False by (simp_all add: call_begin_def held_def)
  have at: "call_at n ?s = Some pc \<Longrightarrow> pc_chan pc = Some x \<Longrightarrow> call_at n s = Some pc" for n pc x
    using False by (auto simp: call_begin_def call_at_def nth_append split: if_splits)
  have "table_inv ?s" using assms f by (simp add: rpc_inv_def table_inv_def)
  moreover have "calls_inv ?s"
    by (rule calls_inv_sub[of s]) (use assms at f in \<open>auto simp: rpc_inv_def\<close>)
  moreover have "waiters_inv ?s"
  proof (rule waiters_invI)
    fix n pc i ch
    assume a: "length (rpChans ?s) < 2 ^ 64 - 1" "call_at n ?s = Some pc" "pc_chan pc = Some (i, ch)" "\<not> is_allocated pc"
    have w: "waiters_inv s" using assms by (simp add: rpc_inv_def)
    show "ch \<in> held ?s \<or> chQueue (rpChans ?s ! ch) \<noteq> []"
      using waiters_invD[OF w _ at[OF a(2,3)] a(3,4)] a(1) f by simp
  qed
  ultimately show ?thesis by (simp add: rpc_inv_def)
next
  case True
  let ?s = "call_begin meth params s" and ?L = "length (rpChans s)"
  have inv: "table_inv s" "calls_inv s" "waiters_inv s" using assms by (simp_all add: rpc_inv_def)
  note t = table_invD[OF inv(1)]
  have f: "rpNext ?s = rpNext s + 1" "rpPending ?s = rpPending s" "rpChans ?s = rpChans s @ [new_chan 1]"
    "rpInflight ?s = rpInflight s" "held ?s = held s" using True by (simp_all add: call_begin_def held_def)
  have id: "rpNext s + 1 = id_of ?L" using t(1) by (simp add: id_of_def)
  have new: "fresh (new_chan 1)" by (simp add: fresh_def)
  have nh: "?L \<notin> held s" using t(7) by blast
  have at: "call_at n s = Some pc \<or> (n = length (rpCalls s) \<and> pc = CallAllocated (id_of ?L) ?L)"
    if "call_at n ?s = Some pc" for n pc
    using that True id by (auto simp: call_begin_def call_at_def nth_append Let_def split: if_splits)
  have old: "call_at n s = Some pc \<Longrightarrow> n \<noteq> length (rpCalls s)" for n pc by (auto simp: call_at_def split: if_splits)
  have nth: "c < ?L \<Longrightarrow> (rpChans s @ [new_chan 1]) ! c = rpChans s ! c" for c by (simp add: nth_append)
  have "table_inv ?s"
  proof (rule table_invI)
    show "rpNext ?s = word_of_nat (length (rpChans ?s))" using t(1) f by simp
    show "ch < length (rpChans ?s) \<and> fresh (rpChans ?s ! ch)" if "ch \<in> held ?s" for ch
    proof -
      have "ch < ?L \<and> fresh (rpChans s ! ch)" using t(7) that f by simp
      then show ?thesis using f nth by simp
    qed
    show "fresh (rpChans ?s ! ch) \<or> settled (rpChans ?s ! ch)" if "ch < length (rpChans ?s)" for ch
      using t(8)[of ch] that new unfolding f by (cases "ch < ?L") (auto simp: nth_append)
  qed (use t f in auto)
  moreover have "calls_inv ?s"
  proof (rule calls_invI)
    fix n pc i ch
    assume a: "call_at n ?s = Some pc" "pc_chan pc = Some (i, ch)"
    have "(i = id_of ch \<and> ch < length (rpChans ?s)) \<and>
      (is_allocated pc \<longrightarrow> fresh (rpChans ?s ! ch) \<and> ch \<notin> held ?s) \<and>
      (chClosed (rpChans ?s ! ch) \<longrightarrow> chQueue (rpChans ?s ! ch) \<noteq> [])"
      using at[OF a(1)]
    proof
      assume "call_at n s = Some pc"
      note d = calls_invD(1-4)[OF inv(2) this a(2)]
      then show ?thesis using f nth by auto
    next
      assume "n = length (rpCalls s) \<and> pc = CallAllocated (id_of ?L) ?L"
      then have e: "i = id_of ch" "ch = ?L" using a(2) by auto
      then have "rpChans ?s ! ch = new_chan 1" using f by simp
      then show ?thesis using e f nh new by (simp add: fresh_def)
    qed
    then show "i = id_of ch \<and> ch < length (rpChans ?s)"
      "is_allocated pc \<Longrightarrow> fresh (rpChans ?s ! ch) \<and> ch \<notin> held ?s"
      "chClosed (rpChans ?s ! ch) \<Longrightarrow> chQueue (rpChans ?s ! ch) \<noteq> []" by blast+
    fix m pc' j
    assume b: "call_at m ?s = Some pc'" "pc_chan pc' = Some (j, ch)"
    have lt: "c < ?L" if "call_at k s = Some q" "pc_chan q = Some (i', c)" for k q i' c
      using calls_invD(2)[OF inv(2) that] .
    show "m = n"
      using at[OF a(1)] at[OF b(1)]
    proof (elim disjE conjE)
      assume "call_at n s = Some pc" "call_at m s = Some pc'"
      then show ?thesis using calls_invD(5)[OF inv(2)] a(2) b(2) by blast
    qed (use a(2) b(2) lt in fastforce)+
  qed
  moreover have "waiters_inv ?s"
  proof (rule waiters_invI)
    fix n pc i ch
    assume a: "length (rpChans ?s) < 2 ^ 64 - 1" "call_at n ?s = Some pc" "pc_chan pc = Some (i, ch)" "\<not> is_allocated pc"
    then have n: "call_at n s = Some pc" using at[OF a(2)] by auto
    have "length (rpChans s) < 2 ^ 64 - 1" using a(1) f by simp
    then show "ch \<in> held ?s \<or> chQueue (rpChans ?s ! ch) \<noteq> []"
      using waiters_invD[OF inv(3) _ n a(3,4)] calls_invD(2)[OF inv(2) n a(3)] f nth by simp
  qed
  ultimately show ?thesis by (simp add: rpc_inv_def)
qed

lemma rpc_inv_register:
  assumes "rpc_inv s" "call_at n s = Some (CallAllocated i ch)"
  shows "rpc_inv (call_register n i ch s)"
proof -
  let ?s1 = "s\<lparr>rpPending := (i, ch) # al_del i (rpPending s)\<rparr>" and ?pc = "CallAllocated i ch" and ?pc' = "CallRegistered i ch"
  have inv: "table_inv s" "calls_inv s" "waiters_inv s" using assms(1) by (simp_all add: rpc_inv_def)
  note t = table_invD[OF inv(1)] and d = calls_invD[OF inv(2) assms(2), of i ch, simplified]
  have del: "table_inv (pend_delete i s)" by (rule table_inv_pend_delete[OF inv(1)])
  note td = table_invD[OF del]
  have at: "call_at m ?s1 = call_at m s" for m by (simp add: call_at_def)
  have h: "held ?s1 = insert ch (held (pend_delete i s))" by (auto simp: held_def)
  have hsub: "held ?s1 \<subseteq> insert ch (held s)" using h held_pend_delete by blast
  have nh: "ch \<notin> held s" using d(3) by blast
  have tab: "table_inv ?s1"
  proof (rule table_invI)
    show "fst p = id_of (snd p)" if "p \<in> set (rpPending ?s1)" for p using that t(2) d(1) by auto
    show "distinct (map fst (rpPending ?s1))" using t(3) by (auto simp: image_iff)
    have "ch \<notin> snd ` set (al_del i (rpPending s))" "ch \<notin> fst ` set (rpInflight s)"
      using nh by (auto simp: held_def)
    then show "distinct (map snd (rpPending ?s1) @ map fst (rpInflight ?s1))"
      using td(4-6) by (simp del: set_al_del)
    show "c < length (rpChans ?s1) \<and> fresh (rpChans ?s1 ! c)" if "c \<in> held ?s1" for c
    proof (cases "c = ch")
      case True
      then show ?thesis using d(2,3) by simp
    next
      case False
      then have "c \<in> held s" using that hsub by blast
      then show ?thesis using t(7) by simp
    qed
    show "fresh (rpChans ?s1 ! c) \<or> settled (rpChans ?s1 ! c)" if "c < length (rpChans ?s1)" for c
      using t(8) that by simp
  qed (use t(1) in simp)
  have mv: "moves n ?pc ?pc' ?s1" using assms(2) by (simp add: moves_def at)
  have len: "n < length (rpCalls ?s1)" using assms(2) by (simp add: call_at_def split: if_splits)
  have same_n: "m = n" if "call_at m s = Some q" "pc_chan q = Some (j, ch)" for m q j
    using d(5)[OF that] .
  have calls: "calls_inv (set_pc n ?pc' ?s1)"
  proof (rule calls_invI)
    have hp: "held (set_pc n ?pc' ?s1) = held ?s1" by (simp add: held_def)
    fix m pm j c
    assume a: "call_at m (set_pc n ?pc' ?s1) = Some pm" "pc_chan pm = Some (j, c)"
    obtain qm where q: "call_at m s = Some qm" "pc_chan qm = Some (j, c)" "is_allocated pm \<longrightarrow> is_allocated qm"
      "m = n \<longrightarrow> \<not> is_allocated pm"
      using moves_origin[OF mv a] a(1) len at by (auto simp: call_at_set_pc split: if_splits)
    note e = calls_invD[OF inv(2) q(1,2)]
    show "j = id_of c \<and> c < length (rpChans (set_pc n ?pc' ?s1))" using e(1,2) by simp
    show "fresh (rpChans (set_pc n ?pc' ?s1) ! c) \<and> c \<notin> held (set_pc n ?pc' ?s1)" if "is_allocated pm"
    proof -
      have "c \<noteq> ch" using same_n q that by blast
      then show ?thesis using e(3) q(3) that hsub unfolding hp by auto
    qed
    show "chQueue (rpChans (set_pc n ?pc' ?s1) ! c) \<noteq> []" if "chClosed (rpChans (set_pc n ?pc' ?s1) ! c)"
      using e(4) that by simp
    fix k pk l
    assume b: "call_at k (set_pc n ?pc' ?s1) = Some pk" "pc_chan pk = Some (l, c)"
    show "k = m" using moves_origin[OF mv b] e(5) at by auto
  qed
  have waiters: "waiters_inv (set_pc n ?pc' ?s1)"
  proof (rule waiters_invI)
    fix m pm j c
    assume a: "length (rpChans (set_pc n ?pc' ?s1)) < 2 ^ 64 - 1" "call_at m (set_pc n ?pc' ?s1) = Some pm"
      "pc_chan pm = Some (j, c)" "\<not> is_allocated pm"
    have hp: "held (set_pc n ?pc' ?s1) = held ?s1" by (simp add: held_def)
    show "c \<in> held (set_pc n ?pc' ?s1) \<or> chQueue (rpChans (set_pc n ?pc' ?s1) ! c) \<noteq> []"
    proof (cases "m = n")
      case True
      then have "c = ch" using a(2,3) len by (auto simp: call_at_set_pc)
      then show ?thesis unfolding hp h by simp
    next
      case False
      then have q: "call_at m s = Some pm" using a(2) at by (simp add: call_at_set_pc)
      have "c \<noteq> ch" using same_n[OF q] a(3) False by blast
      then have "id_of c \<noteq> i"
        using id_of_inj[of c ch] a(1) d(1,2) calls_invD(2)[OF inv(2) q a(3)] by auto
      then have "c \<in> held s \<Longrightarrow> c \<in> held (pend_delete i s)"
        using t(2) by (fastforce simp: held_def image_iff)
      then show ?thesis using waiters_invD[OF inv(3) _ q a(3,4)] a(1) unfolding hp h by auto
    qed
  qed
  show ?thesis using tab calls waiters by (simp add: rpc_inv_def call_register_def)
qed

section \<open>A response is sent or received\<close>

definition sent_chan :: "rpc_response \<Rightarrow> rpc_response chan \<Rightarrow> rpc_response chan" where
  "sent_chan r c = c\<lparr>chQueue := [r], chClosed := True\<rparr>"

lemma send_fresh:
  assumes "fresh (rpChans s ! ch)"
  shows "send_response ch r s = Inr (s\<lparr>rpChans := (rpChans s)[ch := sent_chan r (rpChans s ! ch)]\<rparr>)"
  using assms by (simp add: send_response_def chan_try_send_def chan_close_def fresh_def sent_chan_def)

lemma rpc_inv_send:
  assumes "rpc_inv s" "k < length (rpInflight s)" "rpInflight s ! k = (ch, r)"
  shows "\<exists>s'. send_response ch r (s\<lparr>rpInflight := take k (rpInflight s) @ drop (Suc k) (rpInflight s)\<rparr>) = Inr s' \<and>
     rpc_inv s' \<and> rpCalls s' = rpCalls s \<and>
     rpChans s' = (rpChans s)[ch := sent_chan r (rpChans s ! ch)] \<and>
     rpInflight s' = take k (rpInflight s) @ drop (Suc k) (rpInflight s)"
proof -
  let ?I = "take k (rpInflight s) @ drop (Suc k) (rpInflight s)"
  let ?c = "sent_chan r (rpChans s ! ch)"
  let ?s' = "s\<lparr>rpInflight := ?I, rpChans := (rpChans s)[ch := ?c]\<rparr>"
  have inv: "table_inv s" "calls_inv s" "waiters_inv s" using assms(1) by (simp_all add: rpc_inv_def)
  note t = table_invD[OF inv(1)]
  have split: "rpInflight s = take k (rpInflight s) @ (ch, r) # drop (Suc k) (rpInflight s)"
    using id_take_nth_drop[OF assms(2)] assms(3) by simp
  have mem: "(ch, r) \<in> set (rpInflight s)" using nth_mem[OF assms(2)] assms(3) by simp
  then have heldch: "ch \<in> held s" by (force simp: held_def)
  have fr: "fresh (rpChans s ! ch)" "ch < length (rpChans s)" using t(7)[OF heldch] by auto
  have dI: "distinct (map fst ?I)" "ch \<notin> fst ` set ?I" "fst ` set (rpInflight s) = insert ch (fst ` set ?I)"
  proof -
    have "distinct (map fst (take k (rpInflight s) @ (ch, r) # drop (Suc k) (rpInflight s)))"
      using t(5) split by metis
    then show "distinct (map fst ?I)" "ch \<notin> fst ` set ?I" by auto
    have "fst ` set (take k (rpInflight s) @ (ch, r) # drop (Suc k) (rpInflight s)) = insert ch (fst ` set ?I)" by auto
    then show "fst ` set (rpInflight s) = insert ch (fst ` set ?I)" using split by metis
  qed
  have np: "ch \<notin> snd ` set (rpPending s)" using t(6) dI(3) by blast
  have h: "held s = insert ch (held ?s')" "ch \<notin> held ?s'"
    using dI(2,3) np by (auto simp: held_def simp del: set_append)
  have sc: "chClosed ?c" "chQueue ?c = [r]" "settled ?c" by (simp_all add: sent_chan_def settled_def)
  have tab: "table_inv ?s'"
  proof (rule table_invI)
    show "distinct (map snd (rpPending ?s') @ map fst (rpInflight ?s'))"
      using t(4,6) dI(1,3) by (auto simp del: map_append set_append)
    show "c < length (rpChans ?s') \<and> fresh (rpChans ?s' ! c)" if "c \<in> held ?s'" for c
      using t(7)[of c] that h by (cases "c = ch") auto
    show "fresh (rpChans ?s' ! c) \<or> settled (rpChans ?s' ! c)" if "c < length (rpChans ?s')" for c
      using t(8)[of c] that sc(3) by (cases "c = ch") auto
  qed (use t in auto)
  have at: "call_at m ?s' = call_at m s" for m by (simp add: call_at_def)
  have calls: "calls_inv ?s'"
  proof (rule calls_invI)
    fix n pc i c
    assume a: "call_at n ?s' = Some pc" and pc: "pc_chan pc = Some (i, c)"
    have a': "call_at n s = Some pc" using a at by simp
    note d = calls_invD[OF inv(2) a' pc]
    show "i = id_of c \<and> c < length (rpChans ?s')" using d(1,2) by simp
    show "fresh (rpChans ?s' ! c) \<and> c \<notin> held ?s'" if "is_allocated pc"
      using d(3)[OF that] h heldch by (cases "c = ch") auto
    show "chQueue (rpChans ?s' ! c) \<noteq> []" if "chClosed (rpChans ?s' ! c)"
      using d(2,4) that sc by (cases "c = ch") auto
    show "m = n" if "call_at m ?s' = Some pc'" "pc_chan pc' = Some (j, c)" for m pc' j
      using d(5) that at by simp
  qed
  have waiters: "waiters_inv ?s'"
  proof (rule waiters_invI)
    fix n pc i c
    assume a: "length (rpChans ?s') < 2 ^ 64 - 1" "call_at n ?s' = Some pc" "pc_chan pc = Some (i, c)" "\<not> is_allocated pc"
    have a': "call_at n s = Some pc" using a(2) at by simp
    have "c \<in> held s \<or> chQueue (rpChans s ! c) \<noteq> []"
      using waiters_invD[OF inv(3) _ a' a(3,4)] a(1) by simp
    then show "c \<in> held ?s' \<or> chQueue (rpChans ?s' ! c) \<noteq> []"
      using h fr(2) sc by (cases "c = ch") auto
  qed
  have "send_response ch r (s\<lparr>rpInflight := ?I\<rparr>) = Inr ?s'" using fr by (simp add: send_fresh)
  then show ?thesis using tab calls waiters by (simp add: rpc_inv_def)
qed

lemma call_receive_cases:
  assumes "rpc_inv s" "call_at n s = Some (CallWaiting i ch)" "call_receive n ch s = Some s'"
  obtains r where "chQueue (rpChans s ! ch) = [r]"
    "s' = set_pc n (CallReturned (call_result r)) (s\<lparr>rpChans := (rpChans s)[ch := chan_recv (rpChans s ! ch)]\<rparr>)"
proof -
  have inv: "table_inv s" "calls_inv s" using assms(1) by (simp_all add: rpc_inv_def)
  note d = calls_invD[OF inv(2) assms(2), of i ch, simplified]
  have "fresh (rpChans s ! ch) \<or> settled (rpChans s ! ch)" using table_invD(8)[OF inv(1)] d(2) by blast
  then have q: "length (chQueue (rpChans s ! ch)) \<le> 1" by (auto simp: fresh_def settled_def)
  show ?thesis
  proof (cases "chQueue (rpChans s ! ch)")
    case Nil
    then show ?thesis using assms(3) d(4) by (simp add: call_receive_def Let_def split: if_splits)
  next
    case (Cons r rs)
    then have "rs = []" using q by simp
    then show ?thesis using that[of r] Cons assms(3) by (simp add: call_receive_def Let_def)
  qed
qed

lemma rpc_inv_receive:
  assumes "rpc_inv s" "call_at n s = Some (CallWaiting i ch)" "call_receive n ch s = Some s'"
  shows "rpc_inv s'"
proof -
  obtain r where r: "chQueue (rpChans s ! ch) = [r]"
    "s' = set_pc n (CallReturned (call_result r)) (s\<lparr>rpChans := (rpChans s)[ch := chan_recv (rpChans s ! ch)]\<rparr>)"
    by (rule call_receive_cases[OF assms])
  let ?c = "chan_recv (rpChans s ! ch)" and ?pc' = "CallReturned (call_result r)"
  have inv: "table_inv s" "calls_inv s" "waiters_inv s" using assms(1) by (simp_all add: rpc_inv_def)
  note t = table_invD[OF inv(1)] and d = calls_invD[OF inv(2) assms(2), of i ch, simplified]
  have st: "settled ?c" "ch \<notin> held s"
  proof -
    have nf: "\<not> fresh (rpChans s ! ch)" using r(1) by (simp add: fresh_def)
    then show "settled ?c" using t(8)[OF d(2)] by (simp add: settled_def)
    show "ch \<notin> held s" using t(7)[of ch] nf by blast
  qed
  have len: "n < length (rpCalls s)" using assms(2) by (simp add: call_at_def split: if_splits)
  have at: "call_at m s' = (if m = n then Some ?pc' else call_at m s)" for m
    using len r(2) by (simp add: call_at_set_pc) (simp add: call_at_def)
  have s': "rpChans s' = (rpChans s)[ch := ?c]" "held s' = held s" "rpNext s' = rpNext s"
    "rpPending s' = rpPending s" "rpInflight s' = rpInflight s" using r(2) by (simp_all add: held_def)
  have other: "c \<noteq> ch" if "call_at m s = Some pc" "pc_chan pc = Some (j, c)" "m \<noteq> n" for m pc j c
    using d(5) that by blast
  have nth: "(rpChans s)[ch := ?c] ! c = rpChans s ! c" if "c \<noteq> ch" for c using that by simp
  have orig: "call_at m s = Some pc \<and> m \<noteq> n" if "call_at m s' = Some pc" "pc_chan pc = Some x" for m pc x
    using that at by (auto split: if_splits)
  have "table_inv s'"
  proof (rule table_invI)
    show "c < length (rpChans s') \<and> fresh (rpChans s' ! c)" if "c \<in> held s'" for c
    proof -
      have "c \<noteq> ch" using that st(2) s'(2) by blast
      then show ?thesis using t(7)[of c] that s' nth by simp
    qed
    show "fresh (rpChans s' ! c) \<or> settled (rpChans s' ! c)" if "c < length (rpChans s')" for c
      using t(8)[of c] that st(1) d(2) unfolding s' by (cases "c = ch") auto
  qed (use t s' in auto)
  moreover have "calls_inv s'"
  proof (rule calls_invI)
    fix m pc j c
    assume a: "call_at m s' = Some pc" "pc_chan pc = Some (j, c)"
    have b: "call_at m s = Some pc" "m \<noteq> n" using orig[OF a] by auto
    note e = calls_invD[OF inv(2) b(1) a(2)]
    have c: "rpChans s' ! c = rpChans s ! c" using nth[OF other[OF b(1) a(2) b(2)]] s'(1) by simp
    show "j = id_of c \<and> c < length (rpChans s')" using e(1,2) s'(1) by simp
    show "fresh (rpChans s' ! c) \<and> c \<notin> held s'" if "is_allocated pc" using e(3) that c s'(2) by simp
    show "chQueue (rpChans s' ! c) \<noteq> []" if "chClosed (rpChans s' ! c)" using e(4) that c by simp
    show "k = m" if "call_at k s' = Some pk" "pc_chan pk = Some (l, c)" for k pk l
      using e(5) orig[OF that] that(2) by blast
  qed
  moreover have "waiters_inv s'"
  proof (rule waiters_invI)
    fix m pc j c
    assume a: "length (rpChans s') < 2 ^ 64 - 1" "call_at m s' = Some pc" "pc_chan pc = Some (j, c)" "\<not> is_allocated pc"
    have b: "call_at m s = Some pc" "m \<noteq> n" using orig[OF a(2,3)] by auto
    have "rpChans s' ! c = rpChans s ! c" using nth[OF other[OF b(1) a(3) b(2)]] s'(1) by simp
    then show "c \<in> held s' \<or> chQueue (rpChans s' ! c) \<noteq> []"
      using waiters_invD[OF inv(3) _ b(1) a(3,4)] a(1) s' by simp
  qed
  ultimately show ?thesis by (simp add: rpc_inv_def)
qed

section \<open>Every step\<close>

lemma rpc_inv_fields:
  "rpc_inv (s\<lparr>rpOut := a\<rparr>) = rpc_inv s" "rpc_inv (s\<lparr>rpNotes := b\<rparr>) = rpc_inv s"
  "rpc_inv (s\<lparr>rpAlive := c\<rparr>) = rpc_inv s" "rpc_inv (s\<lparr>rpStdin := d\<rparr>) = rpc_inv s"
  "rpc_inv (s\<lparr>rpReader := e\<rparr>) = rpc_inv s" "rpc_inv (s\<lparr>rpStopOnce := f\<rparr>) = rpc_inv s"
  "rpc_inv (s\<lparr>rpReader := e, rpStdin := d\<rparr>) = rpc_inv s" "rpc_inv (s\<lparr>rpAlive := c, rpStopOnce := f\<rparr>) = rpc_inv s"
  by (rule rpc_inv_cong; simp)+

lemma call_at_moves:
  "call_at n s = Some pc \<Longrightarrow> pc_chan pc' = pc_chan pc \<or> pc_chan pc' = None \<Longrightarrow> \<not> is_allocated pc' \<Longrightarrow>
   moves n pc pc' s"
  by (simp add: moves_def)

lemma rpc_inv_route: "rpc_inv s \<Longrightarrow> rpc_inv (route_frame notify hook fr s)"
  using rpc_inv_deliver_take
  by (auto simp: route_frame_def respondToServerRequest_def rpc_inv_fields split: option.split)

lemma rpc_exec_inv:
  assumes "rpc_inv s" "rpc_exec notify hook ev s = Some r"
  shows "\<exists>s'. r = Inr s' \<and> rpc_inv s'"
proof (cases ev)
  case (EvCall m p)
  then show ?thesis using assms rpc_inv_begin by (auto simp: rpc_exec_def)
next
  case (EvRegister n)
  then show ?thesis using assms rpc_inv_register by (auto simp: rpc_exec_def split: option.splits call_pc.splits)
next
  case (EvEncode n)
  then obtain i ch where at: "call_at n s = Some (CallRegistered i ch)" "r = Inr (call_encode n i ch s)"
    using assms by (auto simp: rpc_exec_def split: option.splits call_pc.splits)
  have "rpc_inv (call_encode n i ch s)"
    using rpc_inv_return[OF assms(1) at(1)] rpc_inv_move[OF assms(1) call_at_moves[OF at(1)]]
    by (simp add: call_encode_def split: sum.split)
  then show ?thesis using at by blast
next
  case (EvStdin n)
  then obtain i ch e where at: "call_at n s = Some (CallEncoded i ch e)" "r = Inr (call_stdin n i ch e s)"
    using assms by (auto simp: rpc_exec_def split: option.splits call_pc.splits)
  have "rpc_inv (call_stdin n i ch e s)"
    using rpc_inv_return[OF assms(1) at(1)] rpc_inv_move[OF assms(1) call_at_moves[OF at(1)]]
    by (simp add: call_stdin_def)
  then show ?thesis using at by blast
next
  case (EvWrite n w)
  then obtain i ch e where at: "call_at n s = Some (CallHasStdin i ch e)" "r = Inr (call_write n i ch e w s)"
    using assms by (auto simp: rpc_exec_def split: option.splits call_pc.splits)
  have "rpc_inv (set_pc n (CallWaiting i ch) (s\<lparr>rpOut := rpOut s @ [e @ [CHR 0x0A]]\<rparr>))"
  proof (rule rpc_inv_move)
    show "rpc_inv (s\<lparr>rpOut := rpOut s @ [e @ [CHR 0x0A]]\<rparr>)" using assms(1) by (simp add: rpc_inv_fields)
    show "moves n (CallHasStdin i ch e) (CallWaiting i ch) (s\<lparr>rpOut := rpOut s @ [e @ [CHR 0x0A]]\<rparr>)"
      using at(1) by (auto simp: moves_def call_at_def split: if_splits)
  qed simp
  then have "rpc_inv (call_write n i ch e w s)"
    using rpc_inv_return[OF assms(1) at(1)] by (simp add: call_write_def split: option.split)
  then show ?thesis using at by blast
next
  case (EvReceive n)
  then obtain i ch s' where at: "call_at n s = Some (CallWaiting i ch)" "call_receive n ch s = Some s'" "r = Inr s'"
    using assms by (auto simp: rpc_exec_def split: option.splits call_pc.splits)
  then show ?thesis using rpc_inv_receive[OF assms(1)] by blast
next
  case (EvCancel n)
  then obtain i ch where at: "call_at n s = Some (CallWaiting i ch)" "r = Inr (call_cancel n i s)"
    using assms by (auto simp: rpc_exec_def split: option.splits call_pc.splits)
  then show ?thesis using rpc_inv_return[OF assms(1) at(1)] by (simp add: call_cancel_def)
next
  case (EvLine raw)
  then show ?thesis using assms rpc_inv_route
    by (auto simp: rpc_exec_def reader_frame_def split: option.splits if_splits)
next
  case (EvSend k)
  then have k: "k < length (rpInflight s)" "r = send_response (fst (rpInflight s ! k)) (snd (rpInflight s ! k))
      (s\<lparr>rpInflight := take k (rpInflight s) @ drop (Suc k) (rpInflight s)\<rparr>)"
    using assms(2) by (auto simp: rpc_exec_def split: if_splits)
  obtain ch x where "rpInflight s ! k = (ch, x)" by fastforce
  then show ?thesis using rpc_inv_send[OF assms(1) k(1)] k(2) by fastforce
next
  case EvReaderExit
  then show ?thesis using assms rpc_inv_fail_take
    by (auto simp: rpc_exec_def reader_exit_def rpc_inv_fields split: if_splits)
next
  case EvStop
  then show ?thesis using assms rpc_inv_fail_take by (auto simp: rpc_exec_def rpc_stop_def rpc_inv_fields)
qed (use assms in \<open>auto simp: rpc_exec_def rpc_inv_fields split: if_splits\<close>)

lemma rpc_reach_inv: "rpc_reach notify hook evs s \<Longrightarrow> rpc_inv s"
proof (induction rule: rpc_reach.induct)
  case init
  show ?case by (rule rpc_inv_new)
next
  case (step evs s ev s')
  then show ?case using rpc_exec_inv[of s notify hook ev "Inr s'"] by simp
qed

end
