(* ===== verification/Go_Json_Props.thy ===== *)
theory Go_Json_Props imports Go_Json begin

text \<open>
  The round trip of the JSON text and the parser: what \<open>json_text\<close> writes for a value
  whose strings are valid UTF-8 and whose numbers are literals, \<open>json_parse\<close> reads
  back, and no control character is in it.
\<close>

definition valid_utf8 :: "string \<Rightarrow> bool" where
  "valid_utf8 s = list_all (\<lambda>p. fst p = rune_error \<longrightarrow> length (snd p) \<noteq> 1) (runes s)"

definition num_literal :: "string \<Rightarrow> bool" where
  "num_literal l \<longleftrightarrow> parse_number l = Some (l, [])"

fun json_ok :: "json \<Rightarrow> bool" where
  "json_ok (JNum l) = num_literal l"
| "json_ok (JStr s) = valid_utf8 s"
| "json_ok (JArr js) = list_all json_ok js"
| "json_ok (JObj ms) = list_all (\<lambda>(k, j). valid_utf8 k \<and> json_ok j) ms"
| "json_ok j = True"

fun json_depth :: "json \<Rightarrow> nat" where
  "json_depth (JArr js) = Suc (fold max (map json_depth js) 0)"
| "json_depth (JObj ms) = Suc (fold max (map (\<lambda>(k, j). json_depth j) ms) 0)"
| "json_depth j = 0"

lemma fold_max_le: "fold max xs a \<le> d \<longleftrightarrow> a \<le> d \<and> (\<forall>x \<in> set xs. x \<le> (d :: nat))"
  by (induction xs arbitrary: a) auto

section \<open>Strings\<close>

lemma hex_val_digit:
  assumes "d < 16"
  shows "hex_val (if d < 10 then char_of (48 + d) else char_of (87 + d)) = Some d"
  using assms by (cases "d < 10") (simp_all add: hex_val_def Let_def)

lemma hex_sum:
  assumes "r < (65536 :: nat)"
  shows "r div 4096 mod 16 * 4096 + r div 256 mod 16 * 256 + r div 16 mod 16 * 16 + r mod 16 = r"
proof -
  let ?q = "r div 16" and ?p = "r div 16 div 16" and ?n = "r div 16 div 16 div 16"
  have e: "r div 256 = ?p" "r div 4096 = ?n" by (simp_all flip: div_mult2_eq)
  have "?n < 16" using assms by (simp flip: div_mult2_eq)
  then have "?n mod 16 = ?n" by simp
  moreover have "?n * 16 + ?p mod 16 = ?p" "?p * 16 + ?q mod 16 = ?q" "?q * 16 + r mod 16 = r" by simp_all
  ultimately show ?thesis unfolding e by linarith
qed

lemma parse_hex4_hex4: "r < 65536 \<Longrightarrow> parse_hex4 (hex4 r @ t) = Some r"
  using hex_sum[of r] by (simp add: hex4_def hex_val_digit del: if_image_distrib)

lemma hex4_length [simp]: "length (hex4 r) = 4"
  by (simp add: hex4_def)

lemma str_body_quote: "str_body (quote_char # t) = Some ([], t)"
  by (simp add: str_body.simps)

lemma str_body_hex:
  assumes "r < 65536" "\<not> surrogate r"
  shows "str_body (backslash # CHR ''u'' # hex4 r @ t) =
     map_option (\<lambda>(b, q). (utf8_encode r @ b, q)) (str_body t)"
  using assms by (subst str_body.simps) (simp add: parse_hex4_hex4 take_surrogate_def Let_def)

lemma str_body_short:
  assumes "unescape_char e = Some x" "e \<noteq> CHR ''u''"
  shows "str_body (backslash # e # t) = map_option (\<lambda>(b, q). (x # b, q)) (str_body t)"
  using assms by (subst str_body.simps) simp

lemma escape_chars:
  "char_of (34 :: nat) = quote_char" "char_of (92 :: nat) = backslash" "char_of (8 :: nat) = CHR 0x08"
  "char_of (12 :: nat) = CHR 0x0C" "char_of (10 :: nat) = CHR 0x0A" "char_of (13 :: nat) = CHR 0x0D"
  "char_of (9 :: nat) = CHR 0x09"
  by code_simp+

lemma short_escape_inverse:
  assumes "short_escape r = Some c"
  shows "unescape_char c = Some (char_of r) \<and> c \<noteq> CHR ''u'' \<and> r < 128"
proof -
  have "(r, c) \<in> {(34, quote_char), (92, backslash), (8, CHR ''b''), (12, CHR ''f''), (10, CHR ''n''), (13, CHR ''r''), (9, CHR ''t'')}"
    using assms by (simp add: short_escape_def split: if_splits)
  then show ?thesis by (elim insertE) (simp_all add: unescape_char_def escape_chars)
qed

text \<open>One rune: its escape decodes to its bytes.\<close>

lemma json_escape_step:
  assumes "s \<noteq> []" "valid_rune (decode_rune s)" "d = decode_rune s"
  shows "str_body (json_escape (fst d, take (snd d) s) @ t) =
     map_option (\<lambda>(b, q). (take (snd d) s @ b, q)) (str_body t)"
proof -
  let ?r = "fst d" and ?b = "take (snd d) s"
  note de = decode_encode[OF assms(1,2), folded assms(3)]
  have len: "snd d \<le> length s" using de by blast
  have b: "?b = utf8_encode ?r" "decode_rune (?b @ t) = d" using de by blast+
  have bl: "length ?b = snd d" using len by simp
  have pos: "0 < snd d" using decode_rune_width_pos[OF assms(1)] assms(3) by simp
  show ?thesis
  proof (cases "short_escape ?r")
    case (Some c)
    then have "?r < 128" "unescape_char c = Some (char_of ?r)" "c \<noteq> CHR ''u''"
      using short_escape_inverse by blast+
    moreover have "?b = [char_of ?r]" using b(1) \<open>?r < 128\<close> by (simp add: utf8_encode_def)
    ultimately show ?thesis using Some str_body_short[of c "char_of ?r" t] by (simp add: json_escape_def)
  next
    case None
    show ?thesis
    proof (cases "?r < 32 \<or> ?r = 60 \<or> ?r = 62 \<or> ?r = 38 \<or> ?r = 8232 \<or> ?r = 8233")
      case True
      then have "?r < 65536" "\<not> surrogate ?r" by (auto simp: surrogate_def)
      moreover have "json_escape (?r, ?b) = backslash # CHR ''u'' # hex4 ?r"
        using None True by (auto simp: json_escape_def)
      ultimately show ?thesis using str_body_hex[of ?r t] b(1) by simp
    next
      case False
      have "\<not> (?r = rune_error \<and> length ?b = 1)" using assms(2,3) bl by (simp add: valid_rune_def)
      then have e: "json_escape (?r, ?b) = ?b" using None False by (auto simp: json_escape_def)
      obtain c u where cu: "?b = c # u" using bl pos by (cases ?b) auto
      have r: "32 \<le> ?r" "?r \<noteq> 34" "?r \<noteq> 92" using False None by (auto simp: short_escape_def)
      have c: "c \<noteq> quote_char" "c \<noteq> backslash" "\<not> (of_char c :: nat) < 32"
      proof -
        have h: "hd s = c" using cu by (cases s) (auto simp: take_Cons split: nat.splits)
        have q: "(of_char quote_char :: nat) = 34" "(of_char backslash :: nat) = 92" by simp_all
        have n: "(of_char c :: nat) = ?r \<or> 194 \<le> (of_char c :: nat)"
          using decode_head[OF assms(1,2), folded assms(3)] h by auto
        show "c \<noteq> quote_char" "c \<noteq> backslash" "\<not> (of_char c :: nat) < 32" using n q r by auto
      qed
      have "rune_keep (?r, take (snd d) (?b @ t)) = ?b"
        using b(1) bl by (auto simp: rune_keep_def utf8_encode_def rune_error_def)
      moreover have "drop (snd d) (?b @ t) = t" using bl by simp
      ultimately have "str_body (?b @ t) = map_option (\<lambda>(x, q). (?b @ x, q)) (str_body t)"
        using c b(2) cu by (subst str_body.simps) (simp add: Let_def del: decode_rune.simps)
      then show ?thesis using e by simp
    qed
  qed
qed

lemma str_body_escaped:
  "valid_utf8 s \<Longrightarrow> str_body (concat (map json_escape (runes s)) @ quote_char # t) = Some (s, t)"
proof (induction s rule: runes.induct)
  case (1 s)
  show ?case
  proof (cases "s = []")
    case True
    then show ?thesis by (simp add: str_body_quote)
  next
    case False
    let ?d = "decode_rune s"
    have r: "runes s = (fst ?d, take (snd ?d) s) # runes (drop (snd ?d) s)"
      using False by (subst runes.simps) (simp add: Let_def del: decode_rune.simps)
    have v: "valid_rune ?d" "valid_utf8 (drop (snd ?d) s)"
    proof -
      show "valid_utf8 (drop (snd ?d) s)"
        using "1.prems" unfolding valid_utf8_def r by (simp del: decode_rune.simps)
      have "fst ?d = rune_error \<longrightarrow> length (take (snd ?d) s) \<noteq> 1"
        using "1.prems" unfolding valid_utf8_def r by (simp del: decode_rune.simps)
      moreover have "snd ?d = 1 \<longrightarrow> length (take (snd ?d) s) = 1" using False by (cases s) auto
      ultimately show "valid_rune ?d" unfolding valid_rune_def by blast
    qed
    have "str_body (concat (map json_escape (runes s)) @ quote_char # t) =
        str_body (json_escape (fst ?d, take (snd ?d) s) @
          concat (map json_escape (runes (drop (snd ?d) s))) @ quote_char # t)"
      unfolding r by (simp del: decode_rune.simps)
    also have "\<dots> = map_option (\<lambda>(b, q). (take (snd ?d) s @ b, q)) (Some (drop (snd ?d) s, t))"
      using json_escape_step[OF False v(1) refl] "1.IH"[OF False refl v(2)] by (simp only:)
    finally show ?thesis by (simp del: decode_rune.simps)
  qed
qed

section \<open>Numbers\<close>

definition delim :: "string \<Rightarrow> bool" where
  "delim t \<longleftrightarrow> t = [] \<or> hd t \<in> {CHR '','', CHR '']'', CHR ''}''}"

lemma delim_chars: "delim t \<Longrightarrow> t = c # u \<Longrightarrow> \<not> is_digit c \<and> c \<noteq> CHR ''.'' \<and> c \<noteq> CHR ''e'' \<and> c \<noteq> CHR ''E'' \<and> c \<noteq> CHR ''0''"
  by (auto simp: delim_def is_digit_def)

definition num_char :: "char \<Rightarrow> bool" where
  "num_char c \<longleftrightarrow> is_digit c \<or> c \<in> {CHR ''-'', CHR ''+'', CHR ''.'', CHR ''e'', CHR ''E''}"

lemma num_char_simps [simp]:
  "num_char CHR ''-''" "num_char CHR ''+''" "num_char CHR ''.''" "num_char CHR ''e''" "num_char CHR ''E''"
  "num_char CHR ''0''" "is_digit c \<Longrightarrow> num_char c"
  by (simp_all add: num_char_def is_digit_def)

lemma digits1_delim:
  assumes "digits1 s = Some (d, q)" "delim t"
  shows "digits1 (s @ t) = Some (d, q @ t)" "list_all num_char d" "d \<noteq> []"
proof -
  have d: "d = takeWhile is_digit s" "q = drop (length d) s" "d \<noteq> []"
    using assms(1) by (auto simp: digits1_def Let_def split: if_splits)
  have t0: "takeWhile is_digit t = []"
  proof (cases t)
    case (Cons c u)
    then show ?thesis using delim_chars[OF assms(2) Cons] by simp
  qed simp
  have "takeWhile is_digit (s @ t) = d"
  proof (cases "\<forall>x \<in> set s. is_digit x")
    case True
    then have "takeWhile is_digit (s @ t) = s @ takeWhile is_digit t" "takeWhile is_digit s = s"
      by (simp_all add: takeWhile_eq_all_conv)
    then show ?thesis using t0 d(1) by (simp only: append_Nil2)
  next
    case False
    then have "takeWhile is_digit (s @ t) = takeWhile is_digit s" by (auto simp: takeWhile_append)
    then show ?thesis using d(1) by (simp only:)
  qed
  moreover have "length d \<le> length s" using d(1) by (simp add: length_takeWhile_le)
  ultimately show "digits1 (s @ t) = Some (d, q @ t)" using d by (simp add: digits1_def Let_def)
  show "list_all num_char d" unfolding d(1) list_all_iff using set_takeWhileD by fastforce
  show "d \<noteq> []" by (rule d(3))
qed

lemma int_part_delim:
  assumes "int_part s = Some (i, q)" "delim t"
  shows "int_part (s @ t) = Some (i, q @ t)" "list_all num_char i" "i \<noteq> []"
proof -
  obtain c r where s: "s = c # r" using assms(1) by (cases s) (simp_all add: int_part_def)
  have "int_part (s @ t) = Some (i, q @ t) \<and> list_all num_char i \<and> i \<noteq> []"
  proof (cases "c = CHR ''0''")
    case True
    then have "i = [c]" "r = q" using assms s by (auto simp: int_part_def)
    then show ?thesis using True s by (simp add: int_part_def)
  next
    case False
    then have "digits1 s = Some (i, q)" using assms s by (simp add: int_part_def)
    from digits1_delim[OF this assms(2)] show ?thesis using False s by (simp add: int_part_def)
  qed
  then show "int_part (s @ t) = Some (i, q @ t)" "list_all num_char i" "i \<noteq> []" by auto
qed

lemma frac_part_delim:
  assumes "frac_part s = Some (f, q)" "delim t"
  shows "frac_part (s @ t) = Some (f, q @ t)" "list_all num_char f"
proof -
  have "frac_part (s @ t) = Some (f, q @ t) \<and> list_all num_char f"
  proof (cases s)
    case Nil
    then show ?thesis using assms delim_chars[OF assms(2)] by (cases t) (simp_all add: frac_part_def)
  next
    case (Cons c r)
    show ?thesis
    proof (cases "c = CHR ''.''")
      case True
      then obtain d where "digits1 r = Some (d, q)" "f = c # d" using assms(1) Cons by (auto simp: frac_part_def)
      then show ?thesis using digits1_delim[OF _ assms(2)] True Cons by (simp add: frac_part_def)
    next
      case False
      then have "f = []" "q = c # r" using assms Cons by (auto simp: frac_part_def)
      then show ?thesis using Cons False by (simp add: frac_part_def)
    qed
  qed
  then show "frac_part (s @ t) = Some (f, q @ t)" "list_all num_char f" by auto
qed

lemma exp_part_delim:
  assumes "exp_part s = Some (e, q)" "delim t"
  shows "exp_part (s @ t) = Some (e, q @ t)" "list_all num_char e"
proof -
  have "exp_part (s @ t) = Some (e, q @ t) \<and> list_all num_char e"
  proof (cases s)
    case Nil
    then show ?thesis using assms delim_chars[OF assms(2)] by (cases t) (simp_all add: exp_part_def)
  next
    case (Cons c r)
    show ?thesis
    proof (cases "c = CHR ''e'' \<or> c = CHR ''E''")
      case ce: True
      then have nc: "num_char c" by auto
      obtain g u where r: "r = g # u" using assms(1) Cons ce by (cases r) (simp_all add: exp_part_def)
      show ?thesis
      proof (cases "g = CHR ''+'' \<or> g = CHR ''-''")
        case True
        then have ng: "num_char g" by auto
        obtain d where d: "digits1 u = Some (d, q)" "e = c # g # d"
          using assms(1) Cons ce r True by (auto simp: exp_part_def)
        then show ?thesis using digits1_delim[OF d(1) assms(2)] True Cons ce r nc ng by (simp add: exp_part_def)
      next
        case False
        obtain d where d: "digits1 r = Some (d, q)" "e = c # d"
          using assms(1) Cons ce r False by (auto simp: exp_part_def)
        then show ?thesis using digits1_delim[OF d(1) assms(2)] False Cons ce r nc by (simp add: exp_part_def)
      qed
    next
      case False
      then have "e = []" "q = c # r" using assms Cons by (auto simp: exp_part_def)
      then show ?thesis using Cons False by (simp add: exp_part_def)
    qed
  qed
  then show "exp_part (s @ t) = Some (e, q @ t)" "list_all num_char e" by auto
qed

definition split_sign :: "string \<Rightarrow> string \<times> string" where
  "split_sign s = (case s of c # r \<Rightarrow> if c = CHR ''-'' then ([c], r) else ([], s) | [] \<Rightarrow> ([], s))"

lemma parse_number_delim:
  assumes "parse_number l = Some (m, q)" "delim t"
  shows "parse_number (l @ t) = Some (m, q @ t)" "list_all num_char m" "m \<noteq> []"
proof -
  obtain g s0 where g: "split_sign l = (g, s0)" by fastforce
  have pn: "parse_number x = (case split_sign x of (g, s0) \<Rightarrow>
      case int_part s0 of None \<Rightarrow> None
      | Some (i, s1) \<Rightarrow> (case frac_part s1 of None \<Rightarrow> None
           | Some (f, s2) \<Rightarrow> (case exp_part s2 of None \<Rightarrow> None
                | Some (e, s3) \<Rightarrow> Some (g @ i @ f @ e, s3))))" for x
    by (simp add: parse_number_def split_sign_def split: list.split)
  obtain i s1 f s2 e where p: "int_part s0 = Some (i, s1)" "frac_part s1 = Some (f, s2)"
    "exp_part s2 = Some (e, q)" "m = g @ i @ f @ e"
    using assms(1) unfolding pn g by (auto split: option.splits)
  have "s0 \<noteq> []" using p(1) by (auto simp: int_part_def)
  then have g': "split_sign (l @ t) = (g, s0 @ t)" and ng: "list_all num_char g"
    using g by (auto simp: split_sign_def split: list.splits if_splits)
  note a = int_part_delim[OF p(1) assms(2)] and b = frac_part_delim[OF p(2) assms(2)]
    and c = exp_part_delim[OF p(3) assms(2)]
  show "parse_number (l @ t) = Some (m, q @ t)" unfolding pn g' by (simp add: a(1) b(1) c(1) p(4))
  show "list_all num_char m" "m \<noteq> []" using a b c ng p(4) by simp_all
qed

section \<open>Values\<close>

text \<open>Every character of the text is printable or beyond ASCII: no newline, no space.\<close>

definition plain_char :: "char \<Rightarrow> bool" where
  "plain_char c \<longleftrightarrow> 32 \<le> (of_char c :: nat) \<and> \<not> json_space c"

lemma json_text_nonempty: "json_ok j \<Longrightarrow> \<exists>c r. json_text j = c # r \<and> \<not> json_space c \<and> c \<noteq> CHR '']'' \<and> c \<noteq> CHR ''}''"
proof (cases j)
  case (JNum l)
  assume "json_ok j"
  then have l: "parse_number l = Some (l, [])" using JNum by (simp add: num_literal_def)
  have d: "delim []" by (simp add: delim_def)
  note p = parse_number_delim[OF l d]
  then obtain c r where cr: "l = c # r" by (cases l) auto
  then have "num_char c" using p(2) by simp
  then have "\<not> json_space c \<and> c \<noteq> CHR '']'' \<and> c \<noteq> CHR ''}''"
    by (auto simp: num_char_def is_digit_def json_space_def)
  then show ?thesis using JNum cr by simp
qed (auto simp: json_string_def json_space_def)

lemma skip_ws_text: "json_ok j \<Longrightarrow> skip_ws (json_text j @ t) = json_text j @ t"
  using json_text_nonempty[of j] by (auto simp: skip_ws_def)

lemma skip_ws_plain: "\<not> json_space c \<Longrightarrow> skip_ws (c # t) = c # t"
  by (simp add: skip_ws_def)

lemma spaces [simp]:
  "\<not> json_space quote_char" "\<not> json_space CHR '',''" "\<not> json_space CHR '':''" "\<not> json_space CHR '']''"
  "\<not> json_space CHR ''}''" "\<not> json_space CHR ''[''" "\<not> json_space CHR ''{''"
  "\<not> json_space CHR ''t''" "\<not> json_space CHR ''f''" "\<not> json_space CHR ''n''"
  by (simp_all add: json_space_def)

lemma json_items_head: "list_all json_ok js \<Longrightarrow> js \<noteq> [] \<Longrightarrow> \<exists>c r. json_items js = c # r \<and> \<not> json_space c \<and> c \<noteq> CHR '']''"
  using json_text_nonempty[of "hd js"] by (cases js) auto

lemma num_char_start:
  assumes "num_char c"
  shows "c \<noteq> quote_char" "c \<noteq> CHR ''[''" "c \<noteq> CHR ''{''" "c \<noteq> CHR ''t''" "c \<noteq> CHR ''f''" "c \<noteq> CHR ''n''" "\<not> json_space c"
  using assms by (auto simp: num_char_def is_digit_def json_space_def)

definition reads_value :: "json \<Rightarrow> bool" where
  "reads_value j \<longleftrightarrow> (\<forall>d fuel t. json_ok j \<longrightarrow> json_depth j \<le> d \<longrightarrow> delim t \<longrightarrow> 2 * length (json_text j) \<le> fuel \<longrightarrow>
     parse_value fuel d (json_text j @ t) = Some (j, t))"

definition reads_items :: "json list \<Rightarrow> bool" where
  "reads_items js \<longleftrightarrow> (\<forall>d fuel t. js \<noteq> [] \<longrightarrow> list_all json_ok js \<longrightarrow> (\<forall>j \<in> set js. json_depth j \<le> d) \<longrightarrow>
     2 * length (json_items js) < fuel \<longrightarrow> parse_items fuel d (json_items js @ CHR '']'' # t) = Some (js, t))"

definition reads_members :: "(string \<times> json) list \<Rightarrow> bool" where
  "reads_members ms \<longleftrightarrow> (\<forall>d fuel t. ms \<noteq> [] \<longrightarrow> list_all (\<lambda>(k, j). valid_utf8 k \<and> json_ok j) ms \<longrightarrow>
     (\<forall>m \<in> set ms. json_depth (snd m) \<le> d) \<longrightarrow> 2 * length (json_members ms) < fuel \<longrightarrow>
     parse_members fuel d (json_members ms @ CHR ''}'' # t) = Some (ms, t))"

lemma value_array:
  assumes "reads_items js"
  shows "reads_value (JArr js)"
  unfolding reads_value_def
proof (intro allI impI)
  fix d fuel t
  assume a: "json_ok (JArr js)" "json_depth (JArr js) \<le> d" "2 * length (json_text (JArr js)) \<le> fuel"
  obtain f where f: "fuel = Suc f" "2 * length (json_items js) < f" using a(3) by (cases fuel) auto
  obtain d' where d: "d = Suc d'" "\<forall>j \<in> set js. json_depth j \<le> d'"
    using a(2) by (cases d) (auto simp: fold_max_le)
  show "parse_value fuel d (json_text (JArr js) @ t) = Some (JArr js, t)"
  proof (cases "js = []")
    case True
    then show ?thesis using f d by (simp add: skip_ws_plain)
  next
    case False
    then obtain c r where c: "json_items js = c # r" "\<not> json_space c" "c \<noteq> CHR '']''"
      using json_items_head[of js] a(1) by auto
    have "parse_items f d' (json_items js @ CHR '']'' # t) = Some (js, t)"
      using assms False a(1) d(2) f(2) by (simp add: reads_items_def)
    then show ?thesis using f(1) d(1) c by (simp add: skip_ws_plain)
  qed
qed

lemma value_object:
  assumes "reads_members ms"
  shows "reads_value (JObj ms)"
  unfolding reads_value_def
proof (intro allI impI)
  fix d fuel t
  assume a: "json_ok (JObj ms)" "json_depth (JObj ms) \<le> d" "2 * length (json_text (JObj ms)) \<le> fuel"
  obtain f where f: "fuel = Suc f" "2 * length (json_members ms) < f" using a(3) by (cases fuel) auto
  obtain d' where d: "d = Suc d'" "\<forall>m \<in> set ms. json_depth (snd m) \<le> d'"
    using a(2) by (cases d) (auto simp: fold_max_le split_def)
  show "parse_value fuel d (json_text (JObj ms) @ t) = Some (JObj ms, t)"
  proof (cases "ms = []")
    case True
    then show ?thesis using f d by (simp add: skip_ws_plain)
  next
    case False
    then obtain r where c: "json_members ms = quote_char # r"
      by (cases ms) (auto simp: json_string_def)
    have "parse_members f d' (json_members ms @ CHR ''}'' # t) = Some (ms, t)"
      using assms False a(1) d(2) f(2) by (simp add: reads_members_def)
    then show ?thesis using f(1) d(1) c by (simp add: skip_ws_plain)
  qed
qed

lemma items_step:
  assumes "reads_value j" "reads_items js"
  shows "reads_items (j # js)"
  unfolding reads_items_def
proof (intro allI impI)
  fix d fuel t
  assume a: "list_all json_ok (j # js)" "\<forall>x \<in> set (j # js). json_depth x \<le> d"
    "2 * length (json_items (j # js)) < fuel"
  obtain f where f: "fuel = Suc f" "2 * length (json_text j) \<le> f" using a(3) by (cases fuel) auto
  show "parse_items fuel d (json_items (j # js) @ CHR '']'' # t) = Some (j # js, t)"
  proof (cases "js = []")
    case True
    have "parse_value f d (json_text j @ CHR '']'' # t) = Some (j, CHR '']'' # t)"
      using assms(1) a(1,2) f(2) by (simp add: reads_value_def delim_def)
    then show ?thesis using True f(1) by (simp add: skip_ws_plain)
  next
    case False
    let ?t = "CHR '','' # json_items js @ CHR '']'' # t"
    have "parse_value f d (json_text j @ ?t) = Some (j, ?t)"
      using assms(1) a(1,2) f(2) by (simp add: reads_value_def delim_def)
    moreover have "parse_items f d (json_items js @ CHR '']'' # t) = Some (js, t)"
      using assms(2) a False f(1) by (simp add: reads_items_def)
    ultimately show ?thesis using False f(1) by (simp add: skip_ws_plain)
  qed
qed

lemma members_step:
  assumes "reads_value j" "reads_members ms"
  shows "reads_members ((k, j) # ms)"
  unfolding reads_members_def
proof (intro allI impI)
  fix d fuel t
  assume a: "list_all (\<lambda>(k, j). valid_utf8 k \<and> json_ok j) ((k, j) # ms)"
    "\<forall>m \<in> set ((k, j) # ms). json_depth (snd m) \<le> d" "2 * length (json_members ((k, j) # ms)) < fuel"
  obtain f where f: "fuel = Suc f" "2 * length (json_text j) \<le> f" using a(3) by (cases fuel) auto
  have key: "str_body (concat (map json_escape (runes k)) @ quote_char # u) = Some (k, u)" for u
    using a(1) str_body_escaped by simp
  show "parse_members fuel d (json_members ((k, j) # ms) @ CHR ''}'' # t) = Some ((k, j) # ms, t)"
  proof (cases "ms = []")
    case True
    have "parse_value f d (json_text j @ CHR ''}'' # t) = Some (j, CHR ''}'' # t)"
      using assms(1) a(1,2) f(2) by (simp add: reads_value_def delim_def)
    then show ?thesis using True f(1) key by (simp add: skip_ws_plain json_string_def)
  next
    case False
    let ?t = "CHR '','' # json_members ms @ CHR ''}'' # t"
    have "parse_value f d (json_text j @ ?t) = Some (j, ?t)"
      using assms(1) a(1,2) f(2) by (simp add: reads_value_def delim_def)
    moreover have "parse_members f d (json_members ms @ CHR ''}'' # t) = Some (ms, t)"
      using assms(2) a False f(1) by (simp add: reads_members_def)
    ultimately show ?thesis using False f(1) key by (simp add: skip_ws_plain json_string_def)
  qed
qed

lemma value_atom:
  assumes "\<forall>js. j \<noteq> JArr js" "\<forall>ms. j \<noteq> JObj ms"
  shows "reads_value j"
  unfolding reads_value_def
proof (intro allI impI)
  fix d fuel t
  assume a: "json_ok j" "delim t" "2 * length (json_text j) \<le> fuel"
  obtain c r where "json_text j = c # r" using json_text_nonempty[OF a(1)] by auto
  then obtain f where f: "fuel = Suc f" using a(3) by (cases fuel) auto
  show "parse_value fuel d (json_text j @ t) = Some (j, t)"
  proof (cases j)
    case (JNum l)
    then have l: "parse_number l = Some (l, [])" using a(1) by (simp add: num_literal_def)
    note p = parse_number_delim[OF l a(2)]
    obtain c r where cr: "l = c # r" using p(3) by (cases l) auto
    then have "num_char c" using p(2) by simp
    then show ?thesis using JNum f p(1) cr num_char_start[of c] by (simp add: skip_ws_plain)
  next
    case (JStr s)
    then have "str_body (concat (map json_escape (runes s)) @ quote_char # t) = Some (s, t)"
      using a(1) str_body_escaped by simp
    then show ?thesis using JStr f by (simp add: skip_ws_plain json_string_def)
  qed (use assms f in \<open>auto simp: skip_ws_plain literal_def\<close>)
qed

lemma reads_all: "reads_value j" "reads_items js" "reads_members ms"
proof (induction j and js and ms rule: json_text_json_items_json_members.induct)
  case 7
  show ?case by (simp add: reads_items_def)
next
  case (8 j js)
  have "reads_items js" using 8 by (cases "js = []") (simp_all add: reads_items_def)
  then show ?case using 8 items_step by blast
next
  case 9
  show ?case by (simp add: reads_members_def)
next
  case (10 k j ms)
  have "reads_members ms" using 10 by (cases "ms = []") (simp_all add: reads_members_def)
  then show ?case using 10 members_step by blast
qed (auto intro: value_array value_object value_atom)

text \<open>The round trip.\<close>

lemma json_roundtrip:
  assumes "json_ok j" "json_depth j \<le> max_nesting"
  shows "json_parse (json_text j) = Some j"
proof -
  have "parse_value (2 * length (json_text j) + 1) max_nesting (json_text j @ []) = Some (j, [])"
    using reads_all(1)[of j, unfolded reads_value_def, rule_format, OF assms, of "[]"] by (simp only: delim_def simp_thms le_add1)
  then show ?thesis by (simp add: json_parse_def skip_ws_def)
qed

section \<open>No control characters\<close>

definition printable :: "char \<Rightarrow> bool" where
  "printable c \<longleftrightarrow> 32 \<le> (of_char c :: nat)"

lemma printable_lits [simp]:
  "printable quote_char" "printable backslash" "printable CHR '',''" "printable CHR '':''" "printable CHR ''[''"
  "printable CHR '']''" "printable CHR ''{''" "printable CHR ''}''" "printable CHR ''u''"
  by (simp_all add: printable_def)

lemma decode_bytes:
  assumes "s \<noteq> []" "valid_rune (decode_rune s)" "c \<in> set (take (snd (decode_rune s)) s)"
  shows "of_char c = fst (decode_rune s) \<or> 128 \<le> (of_char c :: nat)"
proof -
  obtain x cs where s: "s = x # cs" using assms(1) by (cases s) auto
  have v: "valid_rune (decode_rune (x # cs))" using assms(2) s by (simp del: decode_rune.simps)
  have lead: "utf8_len b = 2 \<or> utf8_len b = 3 \<or> utf8_len b = 4 \<Longrightarrow> 128 \<le> b" for b
    by (auto simp: utf8_len_def split: if_splits)
  have cont: "utf8_second a b \<Longrightarrow> 128 \<le> b" "utf8_cont b \<Longrightarrow> 128 \<le> b" for a b
    using cont_second by (auto simp: utf8_cont_def)
  show ?thesis using v
  proof (cases rule: decode_valid_cases)
    case 1
    then have "(of_char x :: nat) < 128" by (auto simp: utf8_len_def split: if_splits)
    then show ?thesis using assms(3) s by (simp add: decode_rune_ascii del: decode_rune.simps)
  next
    case (2 c1 r)
    then show ?thesis using assms(3) s lead cont by (auto simp: decode2 simp del: decode_rune.simps)
  next
    case (3 c1 c2 r)
    then show ?thesis using assms(3) s lead cont by (auto simp: decode3 simp del: decode_rune.simps)
  next
    case (4 c1 c2 c3 r)
    have t: "take 4 (x # c1 # c2 # c3 # r) = [x, c1, c2, c3]" by simp
    have "snd (decode_rune s) = 4" using decode4[OF 4(2-5), of r] s 4(1) by (simp only: snd_conv)
    then have "c \<in> set [x, c1, c2, c3]" using assms(3) s 4(1) t by (simp only:)
    moreover have "128 \<le> (of_char y :: nat)" if "y \<in> set [x, c1, c2, c3]" for y
      using that lead[of "of_char x"] cont(1)[OF 4(3)] cont(2)[OF 4(4)] cont(2)[OF 4(5)] 4(2) by auto
    ultimately show ?thesis by blast
  qed
qed

lemma printable_escape:
  assumes "s \<noteq> []" "d = decode_rune s"
  shows "list_all printable (json_escape (fst d, take (snd d) s))"
proof (cases "short_escape (fst d)")
  case (Some c)
  have "c \<in> {quote_char, backslash, CHR ''b'', CHR ''f'', CHR ''n'', CHR ''r'', CHR ''t''}"
    using Some by (auto simp: short_escape_def split: if_splits)
  then have "printable c" by (auto simp: printable_def)
  then show ?thesis using Some by (simp add: json_escape_def)
next
  case None
  have hex: "printable (if n < 10 then char_of (48 + n) else char_of (87 + n))" if "n < 16" for n :: nat
    using that by (simp add: printable_def)
  have h: "list_all printable (hex4 r)" for r by (simp add: hex4_def hex)
  show ?thesis
  proof (cases "valid_rune d \<and> 32 \<le> fst d")
    case True
    then have "list_all printable (take (snd d) s)"
      using decode_bytes[OF assms(1)] assms(2) by (fastforce simp: list_all_iff printable_def)
    then show ?thesis using None h by (simp add: json_escape_def)
  next
    case False
    have "snd d = 1 \<Longrightarrow> length (take (snd d) s) = 1" using assms(1) by (cases s) auto
    then have "json_escape (fst d, take (snd d) s) = backslash # CHR ''u'' # hex4 (fst d)"
      using None False by (auto simp: json_escape_def valid_rune_def)
    then show ?thesis using h by simp
  qed
qed

lemma printable_string: "list_all printable (json_string s)"
proof -
  have "list_all printable (concat (map json_escape (runes s)))"
  proof (induction s rule: runes.induct)
    case (1 s)
    show ?case
    proof (cases "s = []")
      case False
      have "runes s = (fst (decode_rune s), take (snd (decode_rune s)) s) # runes (drop (snd (decode_rune s)) s)"
        using False by (subst runes.simps) (simp add: Let_def del: decode_rune.simps)
      then show ?thesis using "1.IH"[OF False refl] printable_escape[OF False refl]
        by (simp del: decode_rune.simps)
    qed simp
  qed
  then show ?thesis by (simp add: json_string_def)
qed

lemma printable_text:
  "json_ok j \<Longrightarrow> list_all printable (json_text j)"
  "list_all json_ok js \<Longrightarrow> list_all printable (json_items js)"
  "list_all (\<lambda>(k, j). valid_utf8 k \<and> json_ok j) ms \<Longrightarrow> list_all printable (json_members ms)"
proof (induction j and js and ms rule: json_text_json_items_json_members.induct)
  case (3 l)
  have l: "parse_number l = Some (l, [])" using 3 by (simp add: num_literal_def)
  have "delim []" by (simp add: delim_def)
  then have "list_all num_char l" using parse_number_delim[OF l] by blast
  then show ?case by (auto simp: list_all_iff num_char_def is_digit_def printable_def)
next
  case (8 j js)
  then show ?case by (cases "js = []") simp_all
next
  case (10 k j ms)
  then show ?case using printable_string by (cases "ms = []") simp_all
qed (auto simp: printable_string printable_def)

lemma printable_no_newline: "list_all printable s \<Longrightarrow> CHR 0x0A \<notin> set s"
  by (auto simp: list_all_iff printable_def)

lemma json_text_no_newline: "json_ok j \<Longrightarrow> CHR 0x0A \<notin> set (json_text j)"
  using printable_text(1) printable_no_newline by blast

end
