(* ===== verification/Jsonrpc_Wire.thy ===== *)
theory Jsonrpc_Wire imports Jsonrpc Go_Json_Props begin

text \<open>
  JSON-RPC frames on the wire: what \<open>Call\<close> writes is one line that decodes to the
  same id, method and parameters, and every request of the child gets its answer.
\<close>

section \<open>Decimal numerals\<close>

lemma digit_char_val: "n < 10 \<Longrightarrow> (of_char (digit_char n) :: nat) = 48 + n"
  by (simp add: digit_char_def)

lemma is_digit_digit_char: "n < 10 \<Longrightarrow> is_digit (digit_char n)"
  by (simp add: is_digit_def digit_char_val)

lemma dec_nat_digits: "list_all is_digit (dec_nat n)"
proof (induction n rule: dec_nat.induct)
  case (1 n)
  then show ?case
    by (cases "n < 10") (simp_all add: dec_nat_less dec_nat_ge is_digit_digit_char)
qed

lemma digits_val_dec_nat: "digits_val (dec_nat n) = n"
proof (induction n rule: dec_nat.induct)
  case (1 n)
  show ?case
  proof (cases "n < 10")
    case True
    then show ?thesis by (simp add: dec_nat_less digits_val_def digit_char_val)
  next
    case False
    then have "digits_val (dec_nat (n div 10)) = n div 10" by (rule 1)
    then show ?thesis using False by (simp add: dec_nat_ge digits_val_def digit_char_val)
  qed
qed

lemma dec_nat_head: "0 < n \<Longrightarrow> hd (dec_nat n) \<noteq> CHR ''0''"
proof (induction n rule: dec_nat.induct)
  case (1 n)
  show ?case
  proof (cases "n < 10")
    case True
    have "of_char (digit_char n) \<noteq> (48 :: nat)" using True 1(2) by (simp add: digit_char_val)
    then have "digit_char n \<noteq> CHR ''0''" by auto
    then show ?thesis using True by (simp add: dec_nat_less)
  next
    case False
    then show ?thesis using 1 by (simp add: dec_nat_ge hd_append)
  qed
qed

lemma digits1_all: "list_all is_digit s \<Longrightarrow> s \<noteq> [] \<Longrightarrow> digits1 s = Some (s, [])"
  by (simp add: digits1_def list_all_iff Let_def takeWhile_eq_all_conv[THEN iffD2])

lemma int_part_dec_nat: "int_part (dec_nat n) = Some (dec_nat n, [])"
proof (cases "n = 0")
  case True
  have "dec_nat 0 = [CHR ''0'']" by code_simp
  then show ?thesis using True by (simp add: int_part_def)
next
  case False
  obtain c r where c: "dec_nat n = c # r" using dec_nat_not_Nil[of n] by (cases "dec_nat n") auto
  then have "c \<noteq> CHR ''0''" using dec_nat_head[of n] False by simp
  then show ?thesis using c digits1_all[OF dec_nat_digits[of n]] by (simp add: int_part_def)
qed

lemma dec_nat_no_sign: "dec_nat n = c # r \<Longrightarrow> c \<noteq> CHR ''-''"
  using dec_nat_digits[of n] by (auto simp: is_digit_def)

lemma parse_number_dec_int: "parse_number (dec_int i) = Some (dec_int i, [])"
proof -
  obtain c r where c: "dec_nat (nat i) = c # r" using dec_nat_not_Nil[of "nat i"] by (cases "dec_nat (nat i)") auto
  have "c \<noteq> CHR ''-''" by (rule dec_nat_no_sign[OF c])
  then show ?thesis using c int_part_dec_nat[of "nat i"] int_part_dec_nat[of "nat (- i)"]
    by (simp add: parse_number_def dec_int_def frac_part_def exp_part_def)
qed

lemma json_ok_num [simp]: "json_ok (num w)"
  by (simp add: num_def num_literal_def parse_number_dec_int)

lemma num_not_null [simp]: "num w \<noteq> JNull"
  by (simp add: num_def)

lemma json_depth_num [simp]: "json_depth (num w) = 0"
  by (simp add: num_def)

lemma parse_int64_dec_int:
  assumes "- (2 ^ 63) \<le> i" "i < 2 ^ 63"
  shows "parse_int64 (dec_int i) = Some (word_of_int i)"
proof (cases "i < 0")
  case True
  then show ?thesis using assms
    by (simp add: parse_int64_def dec_int_def Let_def dec_nat_digits digits_val_dec_nat)
next
  case False
  obtain c r where c: "dec_nat (nat i) = c # r" using dec_nat_not_Nil[of "nat i"] by (cases "dec_nat (nat i)") auto
  have "hd (dec_nat (nat i)) \<noteq> CHR ''-''" using dec_nat_no_sign[OF c] c by simp
  then show ?thesis using assms False
    by (simp add: parse_int64_def dec_int_def Let_def dec_nat_digits digits_val_dec_nat)
qed

lemma decode_int_num [simp]: "decode_int (num w) old = Some w"
  using parse_int64_dec_int[of "sint w"] sint_range_size[of w]
  by (simp add: decode_int_def num_def word_size)

section \<open>Frames\<close>

lemma decode_frame_text:
  assumes "json_ok (JObj ms)" "json_depth (JObj ms) \<le> max_nesting"
  shows "decode_frame (json_text (JObj ms)) = decode_members frame_member ms zero_frame"
  by (simp only: decode_frame_def json_roundtrip[OF assms]) simp

lemma valid_utf8_ascii: "list_all (\<lambda>c. (of_char c :: nat) < 128) s \<Longrightarrow> valid_utf8 s"
proof (induction s)
  case Nil
  show ?case by (simp add: valid_utf8_def)
next
  case (Cons c s)
  then have c: "(of_char c :: nat) < 128" and s: "valid_utf8 s" by simp_all
  have "runes (c # s) = (of_char c, [c]) # runes s"
    by (subst runes.simps) (simp add: decode_rune_ascii[OF c] del: decode_rune.simps)
  then show ?case using s c by (simp add: valid_utf8_def rune_error_def)
qed

lemma valid_keys [simp]:
  "valid_utf8 ''jsonrpc''" "valid_utf8 ''id''" "valid_utf8 ''method''" "valid_utf8 ''params''" "valid_utf8 ''result''"
  "valid_utf8 ''error''" "valid_utf8 ''code''" "valid_utf8 ''message''" "valid_utf8 ''data''" "valid_utf8 ''2.0''"
  by (rule valid_utf8_ascii, simp)+

text \<open>The members of a frame, one key at a time.\<close>

lemma frame_keys [simp]:
  "frame_member (''jsonrpc'', j) fr = map_option (\<lambda>t. fr\<lparr>frJsonrpc := t\<rparr>) (decode_string j (frJsonrpc fr))"
  "frame_member (''id'', j) fr = Some (fr\<lparr>frID := (if j = JNull then None else Some j)\<rparr>)"
  "frame_member (''method'', j) fr = map_option (\<lambda>t. fr\<lparr>frMethod := t\<rparr>) (decode_string j (frMethod fr))"
  "frame_member (''params'', j) fr = Some (fr\<lparr>frParams := Some j\<rparr>)"
  "frame_member (''result'', j) fr = Some (fr\<lparr>frResult := Some j\<rparr>)"
  "frame_member (''error'', j) fr = map_option (\<lambda>e. fr\<lparr>frError := e\<rparr>) (decode_error j (frError fr))"
proof -
  have "fold_key ''jsonrpc'' = ''jsonrpc''" "fold_key ''id'' = ''id''" "fold_key ''method'' = ''method''"
    "fold_key ''params'' = ''params''" "fold_key ''result'' = ''result''" "fold_key ''error'' = ''error''"
    by code_simp+
  then show
    "frame_member (''jsonrpc'', j) fr = map_option (\<lambda>t. fr\<lparr>frJsonrpc := t\<rparr>) (decode_string j (frJsonrpc fr))"
    "frame_member (''id'', j) fr = Some (fr\<lparr>frID := (if j = JNull then None else Some j)\<rparr>)"
    "frame_member (''method'', j) fr = map_option (\<lambda>t. fr\<lparr>frMethod := t\<rparr>) (decode_string j (frMethod fr))"
    "frame_member (''params'', j) fr = Some (fr\<lparr>frParams := Some j\<rparr>)"
    "frame_member (''result'', j) fr = Some (fr\<lparr>frResult := Some j\<rparr>)"
    "frame_member (''error'', j) fr = map_option (\<lambda>e. fr\<lparr>frError := e\<rparr>) (decode_error j (frError fr))"
    by (simp_all only: frame_member_def fst_conv snd_conv Let_def) simp_all
qed

lemma request_json_ok:
  assumes "valid_utf8 m" "\<forall>j. p = Some j \<longrightarrow> json_ok j \<and> json_depth j < max_nesting"
  shows "json_ok (request_json i m p)" "json_depth (request_json i m p) \<le> max_nesting"
  using assms by (auto simp: request_json_def max_nesting_def split: option.split)

text \<open>C23.
  What \<open>Call\<close> puts on the wire is read back.  For a method that is valid UTF-8 and
  parameters that are a JSON value, the encoded request contains no newline, so that
  it is one line for a line-scanning peer, and decoding it gives exactly the id (as a
  64-bit integer, negative ones after a wrap-around included), the method and the
  parameters.
\<close>

theorem jsonrpc_request_roundtrip:
  assumes "valid_utf8 m" "\<forall>j. p = Some j \<longrightarrow> json_ok j \<and> json_depth j < max_nesting"
  shows "CHR 0x0A \<notin> set (json_text (request_json i m p)) \<and>
     (\<exists>fr j. decode_frame (json_text (request_json i m p)) = Some fr \<and> frJsonrpc fr = ''2.0'' \<and> frMethod fr = m \<and>
        frParams fr = p \<and> frID fr = Some j \<and> decode_int j 0 = Some i \<and> frResult fr = None \<and> frError fr = None)"
proof (intro conjI)
  note ok = request_json_ok[OF assms, of i]
  show "CHR 0x0A \<notin> set (json_text (request_json i m p))" by (rule json_text_no_newline[OF ok(1)])
  then show "\<exists>fr j. decode_frame (json_text (request_json i m p)) = Some fr \<and> frJsonrpc fr = ''2.0'' \<and> frMethod fr = m \<and>
        frParams fr = p \<and> frID fr = Some j \<and> decode_int j 0 = Some i \<and> frResult fr = None \<and> frError fr = None"
    using ok unfolding request_json_def
    by (cases p) (simp_all add: decode_frame_text decode_string_def zero_frame_def del: json_text.simps)
qed

theorem jsonrpc_request_roundtrip_witness:
  "CHR 0x0A \<notin> set (json_text (request_json (- 1) ''turn/start'' (Some (JArr [JBool True])))) \<and>
     (\<exists>fr j. decode_frame (json_text (request_json (- 1) ''turn/start'' (Some (JArr [JBool True])))) = Some fr \<and>
        frJsonrpc fr = ''2.0'' \<and> frMethod fr = ''turn/start'' \<and>
        frParams fr = Some (JArr [JBool True]) \<and> frID fr = Some j \<and> decode_int j 0 = Some (- 1) \<and>
        frResult fr = None \<and> frError fr = None)"
proof (rule jsonrpc_request_roundtrip)
  show "valid_utf8 ''turn/start''" by (rule valid_utf8_ascii) simp
  show "\<forall>j. Some (JArr [JBool True]) = Some j \<longrightarrow> json_ok j \<and> json_depth j < max_nesting"
    by (simp add: max_nesting_def)
qed

section \<open>Requests of the child\<close>

text \<open>When a hook's answer cannot be marshalled.\<close>

definition unanswerable :: "request_hook \<Rightarrow> rpc_frame \<Rightarrow> bool" where
  "unanswerable hook fr \<longleftrightarrow>
     (case hook of None \<Rightarrow> False
      | Some h \<Rightarrow> (case h (frMethod fr) (frParams fr) of
          (r, Some e) \<Rightarrow> error_json e = None | (Inl e, None) \<Rightarrow> True | (Inr j, None) \<Rightarrow> False))"

lemma no_hook_marshals: "\<exists>j. error_json (no_hook_error m) = Some j"
  by (simp add: error_json_def no_hook_error_def Let_def)

lemma response_json_shape:
  assumes "frID fr = Some j"
  shows "unanswerable hook fr \<longleftrightarrow> response_json hook fr = None"
    and "response_json hook fr = Some r \<Longrightarrow> \<exists>k v. (k = ''result'' \<or> k = ''error'') \<and>
       (r = JObj [(k, v), (''id'', j), (''jsonrpc'', JStr ''2.0'')] \<or> r = JObj [(''id'', j), (''jsonrpc'', JStr ''2.0''), (k, v)])"
  using assms no_hook_marshals[of "frMethod fr"]
  by (auto simp: unanswerable_def response_json_def Let_def split: option.splits sum.splits prod.splits)


text \<open>An approval request with a string id, answered without a hook.\<close>

lemma approval_frame:
  "decode_frame (json_text (JObj [(''id'', JStr ''a1''), (''method'', JStr ''approve'')])) =
     Some (zero_frame\<lparr>frID := Some (JStr ''a1''), frMethod := ''approve''\<rparr>)"
proof -
  have "valid_utf8 ''a1''" "valid_utf8 ''approve''" by (rule valid_utf8_ascii, simp)+
  then show ?thesis
    by (subst decode_frame_text) (simp_all add: max_nesting_def decode_string_def zero_frame_def)
qed


end
