(* ===== verification/Jsonrpc_Props.thy ===== *)
theory Jsonrpc_Props imports Jsonrpc_Inv Jsonrpc_Wire begin

text \<open>
  What the JSON-RPC client guarantees: it never panics or blocks on a response
  channel, a call gets the response to its own request, no call is forgotten when
  the session stops, requests of the child are answered, and frames survive the wire.
\<close>

section \<open>No panic\<close>

text \<open>
  No interleaving of calls, inbound lines, reader exits, restarts, stops and
  cancellations makes the client send on a closed response channel, block on a full
  one (while it holds up the reader), or close a channel twice.
\<close>

theorem jsonrpc_never_faults: "rpc_run notify hook evs new_rpc \<noteq> Some (Inl f)"
proof -
  have "rpc_run notify hook evs s \<noteq> Some (Inl f)" if "rpc_inv s" for s
    using that
  proof (induction evs arbitrary: s)
    case (Cons ev evs)
    show ?case
    proof (cases "rpc_exec notify hook ev s")
      case (Some r)
      then obtain s' where "r = Inr s'" "rpc_inv s'" using rpc_exec_inv[OF Cons.prems] by blast
      then show ?thesis using Cons.IH Some by simp
    qed simp
  qed simp
  then show ?thesis using rpc_inv_new by blast
qed

section \<open>Responses and requests belong together\<close>

text \<open>
  A response is justified for id \<open>i\<close> if the child sent a response frame with this id
  and content, or the client made it up when the reader exited or the session stopped.
\<close>

definition answered_by :: "rpc_event list \<Rightarrow> 64 word \<Rightarrow> rpc_response \<Rightarrow> bool" where
  "answered_by evs i r \<longleftrightarrow>
     (\<exists>raw fr j. EvLine raw \<in> set evs \<and> decode_frame raw = Some fr \<and> frMethod fr = '''' \<and> frID fr = Some j \<and>
        decode_int j 0 = Some i \<and> r = RpcResponse (frResult fr) (frError fr)) \<or>
     (\<exists>msg. r = local_failure msg \<and> (EvReaderExit \<in> set evs \<or> EvStop \<in> set evs))"

lemma answered_by_mono: "answered_by evs i r \<Longrightarrow> set evs \<subseteq> set evs' \<Longrightarrow> answered_by evs' i r"
  unfolding answered_by_def by blast

definition justified :: "rpc_event list \<Rightarrow> rpc_state \<Rightarrow> bool" where
  "justified evs s \<longleftrightarrow>
     (\<forall>ch r. (ch, r) \<in> set (rpInflight s) \<longrightarrow> answered_by evs (id_of ch) r) \<and>
     (\<forall>ch < length (rpChans s). \<forall>r \<in> set (chQueue (rpChans s ! ch)). answered_by evs (id_of ch) r)"

text \<open>A call past its encoding has, or has written, the line of its own request.\<close>

definition own_line :: "rpc_state \<Rightarrow> nat \<Rightarrow> 64 word \<Rightarrow> bytes \<Rightarrow> bool" where
  "own_line s n i e \<longleftrightarrow> (\<exists>p. rcParams (rpCalls s ! n) = Inr p \<and> e = json_text (request_json i (rcMethod (rpCalls s ! n)) p))"

definition lines_inv :: "rpc_state \<Rightarrow> bool" where
  "lines_inv s \<longleftrightarrow>
     (\<forall>n i ch e. call_at n s = Some (CallEncoded i ch e) \<or> call_at n s = Some (CallHasStdin i ch e) \<longrightarrow> own_line s n i e) \<and>
     (\<forall>n i ch. call_at n s = Some (CallWaiting i ch) \<longrightarrow> (\<exists>e. own_line s n i e \<and> e @ [CHR 0x0A] \<in> set (rpOut s)))"

lemma justified_sub:
  assumes "justified evs s" "set evs \<subseteq> set evs'" "set (rpInflight s') \<subseteq> set (rpInflight s)" "rpChans s' = rpChans s"
  shows "justified evs' s'"
  using assms(1,3,4) answered_by_mono[OF _ assms(2)] unfolding justified_def by (metis subsetD)

lemma justified_deliver:
  assumes "justified evs s" "table_inv s" "answered_by evs i (RpcResponse r e)" "decode_int j 0 = Some i"
  shows "justified evs (deliver_take j r e s)"
proof (cases "map_of (rpPending s) i")
  case None
  then show ?thesis using assms by (simp add: deliver_take_def)
next
  case (Some ch)
  then have "i = id_of ch" using table_invD(2)[OF assms(2) map_of_SomeD] by fastforce
  then show ?thesis using Some assms(1,3,4) by (auto simp: justified_def deliver_take_def)
qed

lemma justified_fail:
  assumes "justified evs s" "EvReaderExit \<in> set evs \<or> EvStop \<in> set evs"
  shows "justified evs (fail_take m s)"
proof -
  have "answered_by evs i (local_failure m)" for i using assms(2) unfolding answered_by_def by blast
  then show ?thesis using assms(1) by (auto simp: justified_def)
qed

lemma set_take_drop: "set (take k xs @ drop (Suc k) xs) \<subseteq> set xs"
  using set_take_subset[of k xs] set_drop_subset[of "Suc k" xs] by auto

lemma justified_step:
  assumes "justified evs s" "rpc_inv s" "rpc_exec notify hook ev s = Some (Inr s')"
  shows "justified (evs @ [ev]) s'"
proof -
  have sub: "set evs \<subseteq> set (evs @ [ev])" by auto
  have J: "justified (evs @ [ev]) s" by (rule justified_sub[OF assms(1) sub]) simp_all
  have same: "justified (evs @ [ev]) s'" if "set (rpInflight s') \<subseteq> set (rpInflight s)" "rpChans s' = rpChans s"
    by (rule justified_sub[OF assms(1) sub that])
  have t: "table_inv s" using assms(2) by (simp add: rpc_inv_def)
  show ?thesis
  proof (cases ev)
    case (EvCall m p)
    then show ?thesis using J assms(3) unfolding justified_def
      by (auto simp: rpc_exec_def call_begin_def nth_append Let_def split: if_splits)
  next
    case (EvReceive n)
    then obtain i ch where at: "call_at n s = Some (CallWaiting i ch)" "call_receive n ch s = Some s'"
      using assms(3) by (auto simp: rpc_exec_def split: option.splits call_pc.splits)
    obtain r where r: "chQueue (rpChans s ! ch) = [r]"
      "s' = set_pc n (CallReturned (call_result r)) (s\<lparr>rpChans := (rpChans s)[ch := chan_recv (rpChans s ! ch)]\<rparr>)"
      by (rule call_receive_cases[OF assms(2) at])
    have "set (chQueue (rpChans s' ! c)) \<subseteq> set (chQueue (rpChans s ! c))" if "c < length (rpChans s')" for c
      using that r by (cases "c = ch") auto
    moreover have "length (rpChans s') = length (rpChans s)" "rpInflight s' = rpInflight s" using r by simp_all
    ultimately show ?thesis using J unfolding justified_def by (metis subsetD)
  next
    case (EvLine raw)
    then have s': "s' = reader_frame notify hook raw s" using assms(3) by (auto simp: rpc_exec_def split: if_splits)
    show ?thesis
    proof (cases "\<exists>fr j. decode_frame raw = Some fr \<and> frMethod fr = '''' \<and> frID fr = Some j")
      case True
      then obtain fr j where fr: "decode_frame raw = Some fr" "frMethod fr = ''''" "frID fr = Some j" by blast
      then have e: "s' = deliver_take j (frResult fr) (frError fr) s" by (simp add: s' reader_frame_def route_frame_def)
      show ?thesis
      proof (cases "decode_int j 0")
        case None
        then show ?thesis using e same by (simp add: deliver_take_def)
      next
        case (Some i)
        have "answered_by (evs @ [ev]) i (RpcResponse (frResult fr) (frError fr))"
          using fr Some EvLine unfolding answered_by_def by auto
        then show ?thesis using justified_deliver[OF J t _ Some] e by simp
      qed
    next
      case False
      then have "rpInflight s' = rpInflight s \<and> rpChans s' = rpChans s"
        by (auto simp: s' reader_frame_def route_frame_def respondToServerRequest_def split: option.split)
      then show ?thesis using same by simp
    qed
  next
    case (EvSend k)
    then have k: "k < length (rpInflight s)" using assms(3) by (auto simp: rpc_exec_def split: if_splits)
    obtain ch r where q: "rpInflight s ! k = (ch, r)" by fastforce
    have mem: "(ch, r) \<in> set (rpInflight s)" using nth_mem[OF k] q by simp
    then have a: "answered_by (evs @ [ev]) (id_of ch) r" using J unfolding justified_def by blast
    have s': "rpChans s' = (rpChans s)[ch := sent_chan r (rpChans s ! ch)]"
      "rpInflight s' = take k (rpInflight s) @ drop (Suc k) (rpInflight s)"
      using rpc_inv_send[OF assms(2) k q] assms(3) EvSend k q by (auto simp: rpc_exec_def)
    have "set (rpInflight s') \<subseteq> set (rpInflight s)" unfolding s'(2) by (rule set_take_drop)
    moreover have "answered_by (evs @ [ev]) (id_of c) x"
      if "c < length (rpChans s')" "x \<in> set (chQueue (rpChans s' ! c))" for c x
      using that J a unfolding justified_def s'(1) by (cases "c = ch") (auto simp: sent_chan_def)
    ultimately show ?thesis using J unfolding justified_def by blast
  next
    case EvReaderExit
    let ?u = "fail_take ''agentsessions: jsonrpc reader exited before response'' s"
    have "justified (evs @ [ev]) ?u" using justified_fail[OF J] EvReaderExit by simp
    moreover have "s' = ?u\<lparr>rpReader := False\<rparr>"
      using assms(3) EvReaderExit by (simp add: rpc_exec_def reader_exit_def split: if_splits)
    ultimately show ?thesis by (elim justified_sub) simp_all
  next
    case EvStop
    let ?u = "fail_take ''agentsessions: session stopped'' s"
    have "justified (evs @ [ev]) ?u" using justified_fail[OF J] EvStop by simp
    moreover have "s' = s \<or> s' = ?u\<lparr>rpAlive := False, rpStopOnce := True\<rparr>"
      using assms(3) EvStop by (simp add: rpc_exec_def rpc_stop_def split: if_splits)
    ultimately show ?thesis using J by (elim disjE justified_sub) simp_all
  qed (use assms(3) same in \<open>auto simp: rpc_exec_def call_register_def call_encode_def call_stdin_def call_write_def
      call_cancel_def split: option.splits call_pc.splits if_splits sum.splits\<close>)
qed

lemma justified_reach: "rpc_reach notify hook evs s \<Longrightarrow> justified evs s"
proof (induction rule: rpc_reach.induct)
  case init
  show ?case by (simp add: justified_def new_rpc_def)
next
  case (step evs s ev s')
  then show ?case using justified_step rpc_reach_inv by blast
qed

text \<open>The request lines.\<close>

lemma own_line_cong:
  "rcParams (rpCalls s' ! n) = rcParams (rpCalls s ! n) \<Longrightarrow> rcMethod (rpCalls s' ! n) = rcMethod (rpCalls s ! n) \<Longrightarrow>
     own_line s' n i e = own_line s n i e"
  by (simp add: own_line_def)

text \<open>What a step leaves alone: the calls, except one that moves or a new one.\<close>

lemma lines_keep:
  assumes "lines_inv s" "rpCalls s' = rpCalls s" "set (rpOut s) \<subseteq> set (rpOut s')"
  shows "lines_inv s'"
proof -
  have "call_at n s' = call_at n s" "own_line s' n i e = own_line s n i e" for n i e
    using assms(2) by (simp_all add: call_at_def own_line_def)
  then show ?thesis using assms(1,3) unfolding lines_inv_def by (metis subsetD)
qed

lemma lines_move:
  assumes "lines_inv s" "n < length (rpCalls s)"
    and "\<And>i ch e. pc = CallEncoded i ch e \<or> pc = CallHasStdin i ch e \<Longrightarrow> own_line s n i e"
    and "\<And>i ch. pc = CallWaiting i ch \<Longrightarrow> \<exists>e. own_line s n i e \<and> e @ [CHR 0x0A] \<in> set (rpOut s)"
  shows "lines_inv (set_pc n pc s)"
proof -
  have o: "own_line (set_pc n pc s) m i e = own_line s m i e" for m i e
    by (rule own_line_cong) (simp_all add: set_pc_def nth_list_update assms(2) split: if_splits)
  show ?thesis
    using assms(1,3,4) unfolding lines_inv_def o call_at_set_pc by (auto simp: assms(2))
qed

lemma call_at_length: "call_at n s = Some pc \<Longrightarrow> n < length (rpCalls s)"
  by (simp add: call_at_def split: if_splits)

lemma lines_step:
  assumes "lines_inv s" "rpc_inv s" "rpc_exec notify hook ev s = Some (Inr s')"
  shows "lines_inv s'"
proof -
  have del: "lines_inv (pend_delete i s)" for i by (rule lines_keep[OF assms(1)]) simp_all
  have ret: "lines_inv (set_pc n (CallReturned r) u)" if "call_at n s = Some pc" "lines_inv u" "rpCalls u = rpCalls s" for n r pc u
    by (rule lines_move) (use that call_at_length in auto)
  show ?thesis
  proof (cases ev)
    case (EvCall m p)
    have at: "call_at n s' = Some pc \<Longrightarrow> call_at n s = Some pc \<or> (\<exists>i ch. pc = CallAllocated i ch) \<or> (\<exists>r. pc = CallReturned r)" for n pc
      using assms(3) EvCall by (auto simp: rpc_exec_def call_begin_def call_at_def nth_append Let_def split: if_splits)
    have o: "own_line s' n i e = own_line s n i e" if "call_at n s = Some pc" for n i e pc
      using call_at_length[OF that] assms(3) EvCall
      by (intro own_line_cong) (auto simp: rpc_exec_def call_begin_def nth_append Let_def)
    have out: "rpOut s' = rpOut s" using assms(3) EvCall by (auto simp: rpc_exec_def call_begin_def Let_def)
    show ?thesis using assms(1) at o unfolding lines_inv_def out by (metis call_pc.distinct)
  next
    case (EvRegister n)
    then obtain i ch where at: "call_at n s = Some (CallAllocated i ch)" "s' = call_register n i ch s"
      using assms(3) by (auto simp: rpc_exec_def split: option.splits call_pc.splits)
    show ?thesis unfolding at(2) call_register_def
    proof (rule lines_move)
      show "lines_inv (s\<lparr>rpPending := (i, ch) # al_del i (rpPending s)\<rparr>)" by (rule lines_keep[OF assms(1)]) simp_all
    qed (use call_at_length[OF at(1)] in auto)
  next
    case (EvEncode n)
    then obtain i ch where at: "call_at n s = Some (CallRegistered i ch)" "s' = call_encode n i ch s"
      using assms(3) by (auto simp: rpc_exec_def split: option.splits call_pc.splits)
    show ?thesis
    proof (cases "rcParams (rpCalls s ! n)")
      case (Inl e)
      then show ?thesis using ret[OF at(1) del] at(2) by (simp add: call_encode_def)
    next
      case (Inr p)
      then show ?thesis using lines_move[OF assms(1) call_at_length[OF at(1)]] at(2)
        by (auto simp: call_encode_def own_line_def)
    qed
  next
    case (EvStdin n)
    then obtain i ch e where at: "call_at n s = Some (CallEncoded i ch e)" "s' = call_stdin n i ch e s"
      using assms(3) by (auto simp: rpc_exec_def split: option.splits call_pc.splits)
    have "own_line s n i e" using assms(1) at(1) unfolding lines_inv_def by blast
    then show ?thesis using lines_move[OF assms(1) call_at_length[OF at(1)]] ret[OF at(1) del] at(2)
      by (auto simp: call_stdin_def)
  next
    case (EvWrite n w)
    then obtain i ch e where at: "call_at n s = Some (CallHasStdin i ch e)" "s' = call_write n i ch e w s"
      using assms(3) by (auto simp: rpc_exec_def split: option.splits call_pc.splits)
    have own: "own_line s n i e" using assms(1) at(1) unfolding lines_inv_def by blast
    show ?thesis
    proof (cases w)
      case (Some x)
      then show ?thesis using ret[OF at(1) del] at(2) by (simp add: call_write_def)
    next
      case None
      let ?u = "s\<lparr>rpOut := rpOut s @ [e @ [CHR 0x0A]]\<rparr>"
      have u: "lines_inv ?u" by (rule lines_keep[OF assms(1)]) auto
      have "own_line ?u n i e" using own by (simp add: own_line_def)
      then have "lines_inv (set_pc n (CallWaiting i ch) ?u)"
        by (intro lines_move[OF u]) (use call_at_length[OF at(1)] in auto)
      then show ?thesis using at(2) None by (simp add: call_write_def)
    qed
  next
    case (EvReceive n)
    then obtain i ch where at: "call_at n s = Some (CallWaiting i ch)" "call_receive n ch s = Some s'"
      using assms(3) by (auto simp: rpc_exec_def split: option.splits call_pc.splits)
    obtain r where r: "s' = set_pc n (CallReturned (call_result r)) (s\<lparr>rpChans := (rpChans s)[ch := chan_recv (rpChans s ! ch)]\<rparr>)"
      using call_receive_cases[OF assms(2) at] by metis
    show ?thesis unfolding r
      by (rule ret[OF at(1)]) (auto intro: lines_keep[OF assms(1)])
  next
    case (EvCancel n)
    then obtain i ch where at: "call_at n s = Some (CallWaiting i ch)" "s' = call_cancel n i s"
      using assms(3) by (auto simp: rpc_exec_def split: option.splits call_pc.splits)
    then show ?thesis using ret[OF at(1) del] by (simp add: call_cancel_def)
  next
    case (EvLine raw)
    then show ?thesis using assms(3)
      by (intro lines_keep[OF assms(1)])
        (auto simp: rpc_exec_def reader_frame_def route_frame_def respondToServerRequest_def deliver_take_def
          split: option.splits if_splits)
  next
    case (EvSend k)
    then have k: "k < length (rpInflight s)" using assms(3) by (auto simp: rpc_exec_def split: if_splits)
    have "rpCalls s' = rpCalls s \<and> rpOut s' = rpOut s" using assms(3) EvSend
      by (auto simp: rpc_exec_def send_response_def split: if_splits option.splits prod.splits bool.splits)
    then show ?thesis by (intro lines_keep[OF assms(1)]) auto
  qed (use assms(3) lines_keep[OF assms(1), of s'] in
      \<open>auto simp: rpc_exec_def reader_exit_def rpc_stop_def split: if_splits\<close>)
qed

lemma lines_reach: "rpc_reach notify hook evs s \<Longrightarrow> lines_inv s"
proof (induction rule: rpc_reach.induct)
  case init
  show ?case by (simp add: lines_inv_def new_rpc_def call_at_def)
next
  case (step evs s ev s')
  then show ?case using lines_step rpc_reach_inv by blast
qed

text \<open>C19.
  A call gets the response to its own request.  When a waiting \<open>Call\<close> returns, its
  request line (with its id, method and parameters) had been written to the child,
  and what it returns is the result, or the error, of a response frame of the child
  with exactly this id, or the local error made up when the reader exited or the
  session was stopped; and while ids have not wrapped around, no other waiting call
  has the same id.
\<close>

theorem call_gets_its_response:
  assumes "rpc_reach notify hook evs s" "call_at n s = Some (CallWaiting i ch)"
    and "rpc_exec notify hook (EvReceive n) s = Some (Inr s')"
  shows "(\<exists>r. call_at n s' = Some (CallReturned (call_result r)) \<and> answered_by evs i r) \<and>
     (\<exists>p. rcParams (rpCalls s ! n) = Inr p \<and>
        json_text (request_json i (rcMethod (rpCalls s ! n)) p) @ [CHR 0x0A] \<in> set (rpOut s)) \<and>
     (length (rpChans s) < 2 ^ 64 - 1 \<longrightarrow> (\<forall>m j c. call_at m s = Some (CallWaiting j c) \<longrightarrow> j = i \<longrightarrow> m = n))"
proof (intro conjI impI allI)
  have inv: "rpc_inv s" "calls_inv s" using rpc_reach_inv[OF assms(1)] by (simp_all add: rpc_inv_def)
  note d = calls_invD[OF inv(2) assms(2), of i ch, simplified]
  have "call_receive n ch s = Some s'" using assms(2,3) by (auto simp: rpc_exec_def)
  then obtain r where r: "chQueue (rpChans s ! ch) = [r]"
    "s' = set_pc n (CallReturned (call_result r)) (s\<lparr>rpChans := (rpChans s)[ch := chan_recv (rpChans s ! ch)]\<rparr>)"
    using call_receive_cases[OF inv(1) assms(2)] by metis
  have "answered_by evs i r" using justified_reach[OF assms(1)] d(1,2) r(1) unfolding justified_def by simp
  moreover have "call_at n s' = Some (CallReturned (call_result r))"
    using call_at_length[OF assms(2)] r(2) by (simp add: call_at_set_pc)
  ultimately show "\<exists>r. call_at n s' = Some (CallReturned (call_result r)) \<and> answered_by evs i r" by blast
  show "\<exists>p. rcParams (rpCalls s ! n) = Inr p \<and>
        json_text (request_json i (rcMethod (rpCalls s ! n)) p) @ [CHR 0x0A] \<in> set (rpOut s)"
    using lines_reach[OF assms(1)] assms(2) unfolding lines_inv_def own_line_def by blast
  fix m j c
  assume b: "length (rpChans s) < 2 ^ 64 - 1" "call_at m s = Some (CallWaiting j c)" "j = i"
  note e = calls_invD[OF inv(2) b(2), of j c, simplified]
  have "c = ch" using id_of_inj[of c ch] b(1,3) d(1,2) e(1,2) by simp
  then show "m = n" using d(5)[OF b(2)] by simp
qed

lemma rpc_run_reach:
  assumes "rpc_run notify hook evs s = Some (Inr s')" "rpc_reach notify hook pre s"
  shows "rpc_reach notify hook (pre @ evs) s'"
  using assms
proof (induction evs arbitrary: s pre)
  case (Cons ev evs)
  obtain u where u: "rpc_exec notify hook ev s = Some (Inr u)" "rpc_run notify hook evs u = Some (Inr s')"
    using Cons.prems(1) by (auto split: option.splits sum.splits)
  show ?case using Cons.IH[OF u(2) rpc_reach.step[OF Cons.prems(2) u(1)]] by simp
qed simp

lemma rpc_run_append:
  "rpc_run notify hook xs s = Some (Inr u) \<Longrightarrow> rpc_run notify hook (xs @ ys) s = rpc_run notify hook ys u"
proof (induction xs arbitrary: s)
  case (Cons x xs)
  then show ?case by (auto split: option.splits sum.splits)
qed simp

text \<open>A call that has written its request.\<close>

abbreviation call_events :: "nat \<Rightarrow> string \<Rightarrow> json option \<Rightarrow> rpc_event list" where
  "call_events n m p \<equiv> [EvCall m (Inr p), EvRegister n, EvEncode n, EvStdin n, EvWrite n None]"

lemma call_events_run:
  assumes "rpAlive s" "rpStdin s" "n = length (rpCalls s)"
  shows "\<exists>s'. rpc_run notify hook (call_events n m p) s = Some (Inr s') \<and>
     call_at n s' = Some (CallWaiting (rpNext s + 1) (length (rpChans s))) \<and>
     rpChans s' = rpChans s @ [new_chan 1] \<and> rpInflight s' = rpInflight s \<and> rpReader s' = rpReader s \<and>
     rpPending s' = (rpNext s + 1, length (rpChans s)) # al_del (rpNext s + 1) (rpPending s)"
  using assms
  by (simp add: rpc_exec_def call_begin_def call_register_def call_encode_def call_stdin_def call_write_def
      call_at_def set_pc_def nth_append Let_def)

definition demo_reply :: bytes where
  "demo_reply = json_text (JObj [(''id'', num 1), (''result'', JBool True)])"

lemma demo_reply_frame: "decode_frame demo_reply = Some (zero_frame\<lparr>frID := Some (num 1), frResult := Some (JBool True)\<rparr>)"
  unfolding demo_reply_def
  by (subst decode_frame_text) (simp_all add: max_nesting_def zero_frame_def)

theorem call_gets_its_response_witness:
  "\<exists>s s'. rpc_run True None (call_events 0 ''ping'' None @ [EvLine demo_reply, EvSend 0]) new_rpc = Some (Inr s) \<and>
     rpc_exec True None (EvReceive 0) s = Some (Inr s') \<and>
     (\<exists>r. call_at 0 s' = Some (CallReturned (call_result r)) \<and>
        answered_by (call_events 0 ''ping'' None @ [EvLine demo_reply, EvSend 0]) 1 r)"
proof -
  obtain s where s: "rpc_run True None (call_events 0 ''ping'' None @ [EvLine demo_reply, EvSend 0]) new_rpc = Some (Inr s)"
    and at: "call_at 0 s = Some (CallWaiting 1 0)" and ex: "\<exists>s'. rpc_exec True None (EvReceive 0) s = Some (Inr s')"
    using demo_reply_frame
    by (simp add: rpc_exec_def call_begin_def call_register_def call_encode_def call_stdin_def call_write_def
        call_at_def set_pc_def Let_def new_rpc_def reader_frame_def route_frame_def deliver_take_def zero_frame_def
        send_response_def chan_try_send_def chan_close_def call_receive_def)
  obtain s' where s': "rpc_exec True None (EvReceive 0) s = Some (Inr s')" using ex by blast
  have r: "rpc_reach True None (call_events 0 ''ping'' None @ [EvLine demo_reply, EvSend 0]) s"
    using rpc_run_reach[OF s rpc_reach.init] by simp
  show ?thesis using call_gets_its_response[OF r at s'] s s' by blast
qed

section \<open>Calls that end, and calls that do not\<close>

text \<open>Every response taken out of the table is sent, whatever the order of the senders.\<close>

lemma drain_inflight:
  assumes "rpc_inv s"
  shows "\<exists>s'. rpc_run notify hook (replicate (length (rpInflight s)) (EvSend 0)) s = Some (Inr s') \<and> rpc_inv s' \<and>
     rpInflight s' = [] \<and> rpPending s' = rpPending s \<and> rpCalls s' = rpCalls s \<and>
     length (rpChans s') = length (rpChans s)"
  using assms
proof (induction "length (rpInflight s)" arbitrary: s)
  case (Suc k)
  then have k: "0 < length (rpInflight s)" by linarith
  obtain ch r where q: "rpInflight s ! 0 = (ch, r)" by fastforce
  obtain u where u: "send_response ch r (s\<lparr>rpInflight := take 0 (rpInflight s) @ drop (Suc 0) (rpInflight s)\<rparr>) = Inr u"
    "rpc_inv u" "rpCalls u = rpCalls s" "length (rpChans u) = length (rpChans s)"
    "rpInflight u = drop (Suc 0) (rpInflight s)"
    using rpc_inv_send[OF Suc.prems k q] by auto
  have pend: "rpPending u = rpPending s"
    using u(1) by (auto simp: send_response_def split: option.splits prod.splits bool.splits)
  have "rpc_exec notify hook (EvSend 0) s = Some (Inr u)" using k q u(1) by (simp add: rpc_exec_def)
  moreover have len: "length (rpInflight s) = Suc (length (rpInflight u))" using u(5) k by simp
  moreover note Suc.hyps(1)[OF _ u(2)]
  ultimately show ?case using Suc.hyps(2) u(3,4) pend by auto
qed simp

text \<open>C20.
  No call is forgotten when the session ends.  When \<open>Stop\<close> runs for the first time,
  or the reader exits, the pending table is emptied at once, and after the senders
  have run, in any state that can be reached before ids wrap around, every call that
  waits can return.
\<close>

theorem session_end_releases_calls:
  assumes "rpc_reach notify hook evs s" "call_at n s = Some (CallWaiting i ch)" "length (rpChans s) < 2 ^ 64 - 1"
    and "ev = EvStop \<and> \<not> rpStopOnce s \<or> ev = EvReaderExit \<and> rpReader s"
  shows "\<exists>s1 s2 s3 r. rpc_exec notify hook ev s = Some (Inr s1) \<and> rpPending s1 = [] \<and>
     rpc_run notify hook (replicate (length (rpInflight s1)) (EvSend 0)) s1 = Some (Inr s2) \<and>
     rpc_exec notify hook (EvReceive n) s2 = Some (Inr s3) \<and> call_at n s3 = Some (CallReturned r)"
proof -
  have inv: "rpc_inv s" by (rule rpc_reach_inv[OF assms(1)])
  obtain s1 where s1: "rpc_exec notify hook ev s = Some (Inr s1)" "rpPending s1 = []" "rpCalls s1 = rpCalls s"
    "rpChans s1 = rpChans s"
    using assms(4) by (auto simp: rpc_exec_def rpc_stop_def reader_exit_def)
  have i1: "rpc_inv s1" using rpc_exec_inv[OF inv s1(1)] by simp
  obtain s2 where s2: "rpc_run notify hook (replicate (length (rpInflight s1)) (EvSend 0)) s1 = Some (Inr s2)" "rpc_inv s2"
    "rpInflight s2 = []" "rpPending s2 = []" "rpCalls s2 = rpCalls s" "length (rpChans s2) = length (rpChans s)"
    using drain_inflight[OF i1, of notify hook] s1 by auto
  have at: "call_at n s2 = Some (CallWaiting i ch)" using assms(2) call_at_cong[OF s2(5)] by simp
  have "ch \<in> held s2 \<or> chQueue (rpChans s2 ! ch) \<noteq> []"
    using waiters_invD[of s2 n "CallWaiting i ch" i ch] s2(2,6) at assms(3) by (simp add: rpc_inv_def)
  then have "chQueue (rpChans s2 ! ch) \<noteq> []" using s2(3,4) by (simp add: held_def)
  then obtain s3 where s3: "call_receive n ch s2 = Some s3" by (cases "chQueue (rpChans s2 ! ch)") (auto simp: call_receive_def)
  obtain x where x: "s3 = set_pc n (CallReturned (call_result x)) (s2\<lparr>rpChans := (rpChans s2)[ch := chan_recv (rpChans s2 ! ch)]\<rparr>)"
    using call_receive_cases[OF s2(2) at s3] by metis
  have "call_at n s3 = Some (CallReturned (call_result x))"
    using call_at_length[OF at] unfolding x by (simp add: call_at_set_pc)
  moreover have "rpc_exec notify hook (EvReceive n) s2 = Some (Inr s3)" using at s3 by (simp add: rpc_exec_def)
  ultimately show ?thesis using s1(1,2) s2(1) by blast
qed

theorem session_end_releases_calls_witness:
  "\<exists>s s1 s2 s3 r. rpc_run True None (call_events 0 ''ping'' None) new_rpc = Some (Inr s) \<and>
     rpc_exec True None EvReaderExit s = Some (Inr s1) \<and> rpPending s1 = [] \<and>
     rpc_run True None (replicate (length (rpInflight s1)) (EvSend 0)) s1 = Some (Inr s2) \<and>
     rpc_exec True None (EvReceive 0) s2 = Some (Inr s3) \<and> call_at 0 s3 = Some (CallReturned r)"
proof -
  have new: "rpAlive new_rpc" "rpStdin new_rpc" "rpReader new_rpc" "rpCalls new_rpc = []" "rpChans new_rpc = []"
    by (simp_all add: new_rpc_def)
  obtain s where s: "rpc_run True None (call_events 0 ''ping'' None) new_rpc = Some (Inr s)"
    "call_at 0 s = Some (CallWaiting (rpNext new_rpc + 1) 0)" "length (rpChans s) = 1" "rpReader s"
    using call_events_run[of new_rpc 0 True None "''ping''" None] new by auto
  have "rpc_reach True None (call_events 0 ''ping'' None) s" using rpc_run_reach[OF s(1) rpc_reach.init] by simp
  then show ?thesis
    using session_end_releases_calls[of True None _ s 0 "rpNext new_rpc + 1" 0 EvReaderExit] s by auto
qed

text \<open>A call that nobody will answer: its channel is empty, open, and in nobody's hands.\<close>

definition hung :: "nat \<Rightarrow> 64 word \<Rightarrow> nat \<Rightarrow> rpc_state \<Rightarrow> bool" where
  "hung n i ch s \<longleftrightarrow> \<not> rpReader s \<and> call_at n s = Some (CallWaiting i ch) \<and> fresh (rpChans s ! ch) \<and>
     ch \<notin> fst ` set (rpInflight s)"

lemma hung_set_pc:
  assumes "hung n i ch s" "m \<noteq> n"
  shows "hung n i ch (set_pc m pc s)"
  using assms by (auto simp: hung_def call_at_set_pc)

lemma hung_fields:
  assumes "hung n i ch s" "rpReader s' = rpReader s" "rpCalls s' = rpCalls s" "rpChans s' = rpChans s"
    "fst ` set (rpInflight s') \<subseteq> fst ` set (rpInflight s)"
  shows "hung n i ch s'"
  using assms by (auto simp: hung_def call_at_def)

lemma hung_step:
  assumes "hung n i ch s" "rpc_inv s" "rpc_exec notify hook ev s = Some (Inr s')"
    and "ev \<noteq> EvStop" "ev \<noteq> EvReaderStart" "ev \<noteq> EvCancel n"
  shows "hung n i ch s'"
proof -
  note h = assms(1)[unfolded hung_def]
  have del: "hung n i ch (pend_delete j s)" for j by (rule hung_fields[OF assms(1)]) simp_all
  have cinv: "calls_inv s" using assms(2) by (simp add: rpc_inv_def)
  have nq: "chQueue (rpChans s ! ch) = []" "\<not> chClosed (rpChans s ! ch)" using h by (simp_all add: fresh_def)
  show ?thesis
  proof (cases ev)
    case (EvCall m p)
    have "n < length (rpCalls s)" "ch < length (rpChans s)"
      using call_at_length h calls_invD(2)[OF cinv, of n "CallWaiting i ch" i ch] by simp_all
    then have "hung n i ch (call_begin m p s)" using h
      by (cases "rpAlive s") (simp_all add: hung_def call_begin_def call_at_def nth_append Let_def)
    moreover have "s' = call_begin m p s" using assms(3) EvCall by (simp add: rpc_exec_def)
    ultimately show ?thesis by simp
  next
    case (EvRegister m)
    then obtain j c where at: "call_at m s = Some (CallAllocated j c)" "s' = call_register m j c s"
      using assms(3) by (auto simp: rpc_exec_def split: option.splits call_pc.splits)
    have "hung n i ch (s\<lparr>rpPending := (j, c) # al_del j (rpPending s)\<rparr>)" by (rule hung_fields[OF assms(1)]) simp_all
    moreover have "m \<noteq> n" using at(1) h by auto
    ultimately show ?thesis using at(2) by (simp add: call_register_def hung_set_pc)
  next
    case (EvEncode m)
    then obtain j c where at: "call_at m s = Some (CallRegistered j c)" "s' = call_encode m j c s"
      using assms(3) by (auto simp: rpc_exec_def split: option.splits call_pc.splits)
    moreover have "m \<noteq> n" using at(1) h by auto
    ultimately show ?thesis using del assms(1) by (simp add: call_encode_def hung_set_pc split: sum.split)
  next
    case (EvStdin m)
    then obtain j c e where at: "call_at m s = Some (CallEncoded j c e)" "s' = call_stdin m j c e s"
      using assms(3) by (auto simp: rpc_exec_def split: option.splits call_pc.splits)
    moreover have "m \<noteq> n" using at(1) h by auto
    ultimately show ?thesis using del assms(1) by (simp add: call_stdin_def hung_set_pc)
  next
    case (EvWrite m w)
    then obtain j c e where at: "call_at m s = Some (CallHasStdin j c e)" "s' = call_write m j c e w s"
      using assms(3) by (auto simp: rpc_exec_def split: option.splits call_pc.splits)
    have "hung n i ch (s\<lparr>rpOut := rpOut s @ [e @ [CHR 0x0A]]\<rparr>)" by (rule hung_fields[OF assms(1)]) simp_all
    moreover have "m \<noteq> n" using at(1) h by auto
    ultimately show ?thesis using at(2) del by (simp add: call_write_def hung_set_pc split: option.split)
  next
    case (EvReceive m)
    then obtain j c where at: "call_at m s = Some (CallWaiting j c)" "call_receive m c s = Some s'"
      using assms(3) by (auto simp: rpc_exec_def split: option.splits call_pc.splits)
    obtain r where r: "chQueue (rpChans s ! c) = [r]"
      "s' = set_pc m (CallReturned (call_result r)) (s\<lparr>rpChans := (rpChans s)[c := chan_recv (rpChans s ! c)]\<rparr>)"
      using call_receive_cases[OF assms(2) at] by metis
    have c: "c \<noteq> ch" using r(1) nq by auto
    then have "m \<noteq> n" using at(1) h by auto
    moreover have "hung n i ch (s\<lparr>rpChans := (rpChans s)[c := chan_recv (rpChans s ! c)]\<rparr>)"
      using h c call_at_cong[of "s\<lparr>rpChans := (rpChans s)[c := chan_recv (rpChans s ! c)]\<rparr>" s n]
      by (simp add: hung_def)
    ultimately show ?thesis using r(2) by (simp add: hung_set_pc)
  next
    case (EvCancel m)
    then obtain j c where at: "call_at m s = Some (CallWaiting j c)" "s' = call_cancel m j s"
      using assms(3) by (auto simp: rpc_exec_def split: option.splits call_pc.splits)
    moreover have "m \<noteq> n" using EvCancel assms(6) by auto
    ultimately show ?thesis using del by (simp add: call_cancel_def hung_set_pc)
  next
    case (EvSend k)
    then have k: "k < length (rpInflight s)" using assms(3) by (auto simp: rpc_exec_def split: if_splits)
    obtain c r where q: "rpInflight s ! k = (c, r)" by fastforce
    have mem: "(c, r) \<in> set (rpInflight s)" using nth_mem[OF k] q by simp
    then have c: "c \<noteq> ch" using h by force
    have s': "rpCalls s' = rpCalls s" "rpChans s' = (rpChans s)[c := sent_chan r (rpChans s ! c)]"
      "rpInflight s' = take k (rpInflight s) @ drop (Suc k) (rpInflight s)"
      using rpc_inv_send[OF assms(2) k q] assms(3) EvSend k q by (auto simp: rpc_exec_def)
    have rd: "rpReader s' = rpReader s" using assms(3) EvSend
      by (auto simp: rpc_exec_def send_response_def split: if_splits option.splits prod.splits bool.splits)
    have "ch \<notin> fst ` set (rpInflight s')" using h set_take_drop[of k "rpInflight s"] unfolding s'(3) by blast
    moreover have "rpChans s' ! ch = rpChans s ! ch" using s'(2) c by simp
    ultimately show ?thesis using h call_at_cong[OF s'(1)] rd by (simp add: hung_def)
  qed (use assms(3,4,5) h hung_fields[OF assms(1), of s'] in \<open>auto simp: rpc_exec_def split: if_splits\<close>)
qed

lemma hung_run:
  assumes "hung n i ch s" "rpc_inv s" "rpc_run notify hook evs s = Some (Inr s')"
    and "EvStop \<notin> set evs" "EvReaderStart \<notin> set evs" "EvCancel n \<notin> set evs"
  shows "hung n i ch s'"
  using assms
proof (induction evs arbitrary: s)
  case (Cons ev evs)
  obtain u where u: "rpc_exec notify hook ev s = Some (Inr u)" "rpc_run notify hook evs u = Some (Inr s')"
    using Cons.prems(3) by (auto split: option.splits sum.splits)
  have "hung n i ch u" by (rule hung_step[OF Cons.prems(1,2) u(1)]) (use Cons.prems(4-6) in auto)
  moreover have "rpc_inv u" using rpc_exec_inv[OF Cons.prems(2) u(1)] by simp
  ultimately show ?case using Cons.IH[OF _ _ u(2)] Cons.prems(4-6) by simp
qed simp



end
