(* ===== verification/Threads.thy ===== *)
theory Threads imports Session_Types Os_Support begin

text \<open>
  What the turn-based sessions of \<open>from_adapter.go\<close> and \<open>from_provider.go\<close> share: the
  events of the provider module, goroutines as a list of program counters over a
  session state, and the interface of a turn flag (\<open>turnInFlight\<close>, taken with
  \<open>CompareAndSwap\<close> and released by a deferred store), from which it follows once
  that at most one turn runs at a time.
\<close>

section \<open>Provider events\<close>

text \<open>\<open>llmtypes.StreamEvent\<close>: the fields the code reads.\<close>

datatype event_type = EventDelta | EventToolUse | EventError | EventDone | EventSessionID | EventOther string

record llm_event =
  leType :: event_type
  leContent :: string
  leToolUse :: "string option"
  leError :: string
  leSessionID :: string

definition llm_event :: "event_type \<Rightarrow> string \<Rightarrow> llm_event" where
  "llm_event t content = \<lparr>leType = t, leContent = content, leToolUse = None, leError = '''', leSessionID = ''''\<rparr>"

definition turn_done_line :: bytes where
  "turn_done_line = [CHR 0x0A] @ ''[turn_done]'' @ [CHR 0x0A]"

definition error_line :: "string \<Rightarrow> bytes" where
  "error_line e = [CHR 0x0A] @ ''[error] '' @ e @ [CHR 0x0A]"

section \<open>Goroutines\<close>

text \<open>
  \<open>step ev pc s\<close> is one section of a goroutine at \<open>pc\<close>, \<open>ev\<close> what it gets from the
  outside; None: it cannot move (or not with this event).
\<close>

type_synonym ('e, 'p, 's) section_step = "'e \<Rightarrow> 'p \<Rightarrow> 's \<Rightarrow> ('p \<times> 's) option"

inductive threads_reach ::
  "('e, 'p, 's) section_step \<Rightarrow> ('p \<Rightarrow> bool) \<Rightarrow> 'p list \<Rightarrow> 's \<Rightarrow> 'p list \<Rightarrow> 's \<Rightarrow> bool"
  for step :: "('e, 'p, 's) section_step" and start :: "'p \<Rightarrow> bool" and ts0 :: "'p list" and s0 :: 's where
  init: "threads_reach step start ts0 s0 ts0 s0"
| spawn: "threads_reach step start ts0 s0 ts s \<Longrightarrow> start pc \<Longrightarrow> threads_reach step start ts0 s0 (ts @ [pc]) s"
| move: "threads_reach step start ts0 s0 ts s \<Longrightarrow> n < length ts \<Longrightarrow> step ev (ts ! n) s = Some (pc', s') \<Longrightarrow>
     threads_reach step start ts0 s0 (ts[n := pc']) s'"

text \<open>The same, executable: a schedule names the goroutine and what it gets.\<close>

datatype ('e, 'p) sched = Spawn 'p | Move nat 'e

fun threads_run ::
  "('e, 'p, 's) section_step \<Rightarrow> ('e, 'p) sched list \<Rightarrow> 'p list \<times> 's \<Rightarrow> ('p list \<times> 's) option" where
  "threads_run step [] c = Some c"
| "threads_run step (Spawn pc # es) (ts, s) = threads_run step es (ts @ [pc], s)"
| "threads_run step (Move n ev # es) (ts, s) =
     (if n < length ts then
        (case step ev (ts ! n) s of
           None \<Rightarrow> None
         | Some (pc', s') \<Rightarrow> threads_run step es (ts[n := pc'], s'))
      else None)"

lemma threads_run_reach:
  "threads_run step es (ts, s) = Some (ts', s') \<Longrightarrow> threads_reach step start ts0 s0 ts s \<Longrightarrow>
   (\<forall>pc. Spawn pc \<in> set es \<longrightarrow> start pc) \<Longrightarrow> threads_reach step start ts0 s0 ts' s'"
proof (induction es arbitrary: ts s)
  case (Cons e es)
  show ?case
  proof (cases e)
    case (Spawn pc)
    then show ?thesis using Cons.IH[of "ts @ [pc]" s] Cons.prems threads_reach.spawn by fastforce
  next
    case (Move n ev)
    then obtain pc' u where u: "n < length ts" "step ev (ts ! n) s = Some (pc', u)"
      "threads_run step es (ts[n := pc'], u) = Some (ts', s')"
      using Cons.prems(1) by (auto split: if_splits option.splits)
    show ?thesis
      using Cons.IH[OF u(3) threads_reach.move[OF Cons.prems(2) u(1,2)]] Cons.prems(3) by simp
  qed
qed simp

lemma threads_run_append:
  "threads_run step xs c = Some c' \<Longrightarrow> threads_run step (xs @ ys) c = threads_run step ys c'"
proof (induction xs arbitrary: c)
  case (Cons x xs)
  then show ?case by (cases x; cases c) (auto split: if_splits option.splits)
qed simp

text \<open>A goroutine alone, on the list of what it gets.\<close>

fun inputs_run :: "('e, 'p, 's) section_step \<Rightarrow> 'e list \<Rightarrow> 'p \<times> 's \<Rightarrow> ('p \<times> 's) option" where
  "inputs_run step [] c = Some c"
| "inputs_run step (e # es) c = (case step e (fst c) (snd c) of None \<Rightarrow> None | Some c' \<Rightarrow> inputs_run step es c')"

lemma inputs_run_append:
  "inputs_run step (xs @ ys) c = (case inputs_run step xs c of None \<Rightarrow> None | Some c' \<Rightarrow> inputs_run step ys c')"
  by (induction xs arbitrary: c) (auto split: option.split)

text \<open>A goroutine that runs alone is the schedule that moves only it.\<close>

lemma inputs_run_threads:
  "n < length ts \<Longrightarrow> inputs_run step es (ts ! n, s) = Some (pc', s') \<Longrightarrow>
     threads_run step (map (Move n) es) (ts, s) = Some (ts[n := pc'], s')"
proof (induction es arbitrary: ts s)
  case (Cons e es)
  obtain pc u where u: "step e (ts ! n) s = Some (pc, u)" "inputs_run step es (pc, u) = Some (pc', s')"
    using Cons.prems(2) by (auto split: option.splits)
  then show ?case using Cons.IH[of "ts[n := pc]" u] Cons.prems(1) by simp
qed auto

text \<open>Invariants that relate each goroutine and the state.\<close>

lemma threads_invariant:
  assumes "threads_reach step start ts0 s0 ts s" "P s0" "\<forall>pc \<in> set ts0. Q s0 pc"
    and "\<And>pc s. start pc \<Longrightarrow> P s \<Longrightarrow> Q s pc"
    and "\<And>ev pc s pc' s'. P s \<Longrightarrow> Q s pc \<Longrightarrow> step ev pc s = Some (pc', s') \<Longrightarrow> P s' \<and> Q s' pc'"
    and "\<And>ev pc s pc' s' qc. P s \<Longrightarrow> Q s pc \<Longrightarrow> Q s qc \<Longrightarrow> step ev pc s = Some (pc', s') \<Longrightarrow> Q s' qc"
  shows "P s \<and> (\<forall>pc \<in> set ts. Q s pc)"
  using assms(1)
proof (induction rule: threads_reach.induct)
  case (move ts s n ev pc' s')
  have "ts ! n \<in> set ts" using move.hyps(2) by simp
  then have a: "P s' \<and> Q s' pc'" "\<forall>qc \<in> set ts. Q s' qc"
    using assms(5)[OF _ _ move.hyps(3)] assms(6)[OF _ _ _ move.hyps(3)] move.IH by auto
  moreover have "set (ts[n := pc']) \<subseteq> insert pc' (set ts)" by (rule set_update_subset_insert)
  ultimately show ?case by auto
qed (use assms(2,3,4) in auto)

section \<open>The turn flag\<close>

definition count_in :: "('p \<Rightarrow> bool) \<Rightarrow> 'p list \<Rightarrow> nat" where
  "count_in P ts = length (filter P ts)"

lemma count_in_update:
  "n < length ts \<Longrightarrow> count_in P (ts[n := pc]) + of_bool (P (ts ! n)) = count_in P ts + of_bool (P pc)"
  unfolding count_in_def by (rule count_filter_update)

lemma count_in_ge_two:
  assumes "i < j" "j < length ts" "P (ts ! i)" "P (ts ! j)"
  shows "2 \<le> count_in P ts"
proof -
  have "{i, j} \<subseteq> {k. k < length ts \<and> P (ts ! k)}" using assms by auto
  then have "card {i, j} \<le> card {k. k < length ts \<and> P (ts ! k)}" by (rule card_mono[rotated]) simp
  then show ?thesis using assms(1) by (simp add: count_in_def length_filter_conv_card)
qed

text \<open>
  The contract of a turn flag: a goroutine gets into its turn only by turning the
  flag from off to on, nobody outside a turn changes it, within a turn it stays as
  it is, and leaving a turn turns it off.
\<close>

locale turn_flag =
  fixes step :: "('e, 'p, 's) section_step"
    and in_turn :: "'p \<Rightarrow> bool"
    and flag :: "'s \<Rightarrow> bool"
  assumes enter: "step ev pc s = Some (pc', s') \<Longrightarrow> \<not> in_turn pc \<Longrightarrow> in_turn pc' \<Longrightarrow> \<not> flag s \<and> flag s'"
    and outside: "step ev pc s = Some (pc', s') \<Longrightarrow> \<not> in_turn pc \<Longrightarrow> \<not> in_turn pc' \<Longrightarrow> flag s' = flag s"
    and within: "step ev pc s = Some (pc', s') \<Longrightarrow> in_turn pc \<Longrightarrow> in_turn pc' \<Longrightarrow> flag s' = flag s"
    and leave: "step ev pc s = Some (pc', s') \<Longrightarrow> in_turn pc \<Longrightarrow> \<not> in_turn pc' \<Longrightarrow> \<not> flag s'"
begin

lemma counted:
  assumes "threads_reach step start ts0 s0 ts s" "count_in in_turn ts0 = of_bool (flag s0)"
    and "\<And>pc. start pc \<Longrightarrow> \<not> in_turn pc"
  shows "count_in in_turn ts = of_bool (flag s)"
  using assms(1)
proof (induction rule: threads_reach.induct)
  case (spawn ts s pc)
  then show ?case using assms(3) by (simp add: count_in_def)
next
  case (move ts s n ev pc' s')
  note c = count_in_update[OF move.hyps(2), of in_turn pc'] move.IH
  show ?case
  proof (cases "in_turn (ts ! n)"; cases "in_turn pc'")
    assume a: "in_turn (ts ! n)" "in_turn pc'"
    then show ?thesis using c within[OF move.hyps(3)] by simp
  next
    assume a: "in_turn (ts ! n)" "\<not> in_turn pc'"
    then have "flag s = True \<or> count_in in_turn ts = 0" using c by auto
    then show ?thesis using c a leave[OF move.hyps(3)] by (cases "flag s") auto
  next
    assume a: "\<not> in_turn (ts ! n)" "in_turn pc'"
    then show ?thesis using c enter[OF move.hyps(3)] by simp
  next
    assume a: "\<not> in_turn (ts ! n)" "\<not> in_turn pc'"
    then show ?thesis using c outside[OF move.hyps(3)] by simp
  qed
qed (rule assms(2))

text \<open>At most one turn at a time, and the flag is on exactly while there is one.\<close>

lemma exclusive:
  assumes "threads_reach step start ts0 s0 ts s" "count_in in_turn ts0 = of_bool (flag s0)"
    and "\<And>pc. start pc \<Longrightarrow> \<not> in_turn pc"
    and "i < length ts" "j < length ts" "in_turn (ts ! i)" "in_turn (ts ! j)"
  shows "i = j"
proof (rule ccontr)
  assume "i \<noteq> j"
  then have "2 \<le> count_in in_turn ts"
    using count_in_ge_two[of i j ts in_turn] count_in_ge_two[of j i ts in_turn] assms(4-7) by (cases "i < j") auto
  then show False using counted[OF assms(1,2,3)] by (cases "flag s") auto
qed

lemma flag_iff:
  assumes "threads_reach step start ts0 s0 ts s" "count_in in_turn ts0 = of_bool (flag s0)"
    and "\<And>pc. start pc \<Longrightarrow> \<not> in_turn pc"
  shows "flag s \<longleftrightarrow> (\<exists>pc \<in> set ts. in_turn pc)"
proof -
  have "count_in in_turn ts = 0 \<longleftrightarrow> \<not> (\<exists>pc \<in> set ts. in_turn pc)"
    by (auto simp: count_in_def filter_empty_conv)
  then show ?thesis using counted[OF assms] by (cases "flag s") auto
qed

text \<open>
  An invariant \<open>P\<close> of the state together with a fact \<open>G\<close> about the goroutine that is in
  its turn: since it is the only one, only its own sections have to re-establish \<open>G\<close>.
\<close>

lemma turn_invariant:
  assumes "threads_reach step start ts0 s0 ts s" "count_in in_turn ts0 = of_bool (flag s0)"
    and "\<And>pc. start pc \<Longrightarrow> \<not> in_turn pc"
    and "P s0" "\<forall>pc \<in> set ts0. in_turn pc \<longrightarrow> G s0 pc"
    and out: "\<And>ev pc s pc' s'. P s \<Longrightarrow> \<not> in_turn pc \<Longrightarrow> step ev pc s = Some (pc', s') \<Longrightarrow>
       P s' \<and> (in_turn pc' \<longrightarrow> G s' pc') \<and> (\<forall>qc. in_turn qc \<longrightarrow> G s qc \<longrightarrow> G s' qc)"
    and ins: "\<And>ev pc s pc' s'. P s \<Longrightarrow> in_turn pc \<Longrightarrow> flag s \<Longrightarrow> G s pc \<Longrightarrow> step ev pc s = Some (pc', s') \<Longrightarrow>
       P s' \<and> (in_turn pc' \<longrightarrow> G s' pc')"
  shows "P s \<and> (\<forall>pc \<in> set ts. in_turn pc \<longrightarrow> G s pc)"
  using assms(1)
proof (induction rule: threads_reach.induct)
  case init
  then show ?case using assms(4,5) by blast
next
  case (spawn ts s pc)
  then show ?case using assms(3) by auto
next
  case (move ts s n ev pc' s')
  have mem: "ts ! n \<in> set ts" using move.hyps(2) by simp
  show ?case
  proof (cases "in_turn (ts ! n)")
    case False
    note o = out[OF _ False move.hyps(3)]
    have "set (ts[n := pc']) \<subseteq> insert pc' (set ts)" by (rule set_update_subset_insert)
    then show ?thesis using o move.IH by auto
  next
    case True
    have alone: "\<not> in_turn pc" if in_ts: "pc \<in> set (ts[n := pc'])" and ne: "pc \<noteq> pc'" for pc
    proof
      assume a: "in_turn pc"
      obtain i where "i < length (ts[n := pc'])" and nth: "(ts[n := pc']) ! i = pc"
        using in_ts unfolding in_set_conv_nth by blast
      then have i: "i < length ts" "(ts[n := pc']) ! i = pc" by simp_all
      then have "i \<noteq> n" using ne by auto
      then have "in_turn (ts ! i)" using i a by simp
      then show False
        using exclusive[OF move.hyps(1) assms(2,3) i(1) move.hyps(2) _ True] \<open>i \<noteq> n\<close> by blast
    qed
    have "P s" "G s (ts ! n)" using move.IH mem True by blast+
    moreover have "flag s" using flag_iff[OF move.hyps(1) assms(2,3)] mem True by blast
    ultimately have "P s' \<and> (in_turn pc' \<longrightarrow> G s' pc')" using ins[OF _ True _ _ move.hyps(3)] by blast
    then show ?thesis using alone by blast
  qed
qed

end

end
