(* ===== verification/Provider_Session.thy ===== *)
theory Provider_Session imports Threads begin

text \<open>
  \<open>from_provider.go\<close>: a session over a provider of the contracts module.  Each
  \<open>SendInput\<close> appends to a conversation and drives one \<open>StreamChat\<close>.  The provider is
  the outside: its answer to \<open>StreamChat\<close> and the events of the stream are what the
  goroutine gets.  Every atomic operation and every locked region is one section.
\<close>

section \<open>State\<close>

record chat_message =
  cmRole :: string
  cmContent :: string

record chat_request =
  crModel :: string
  crSystemPrompt :: string
  crMessages :: "chat_message list"

record provider_config =
  pcfgID :: string
  pcfgKind :: string
  pcfgProvider :: bool
  pcfgCaps :: capabilities
  pcfgModel :: string
  pcfgSystemPrompt :: string

definition NewFromProvider :: "provider_config \<Rightarrow> go_error + provider_config" where
  "NewFromProvider cfg =
     (if pcfgID cfg = '''' then Inl (ErrorsNew ''agentsessions: ProviderRuntimeConfig.ID is required'')
      else if \<not> pcfgProvider cfg then Inl (ErrorsNew ''agentsessions: ProviderRuntimeConfig.Provider is required'')
      else Inr (if pcfgKind cfg = '''' then cfg\<lparr>pcfgKind := ''api''\<rparr> else cfg))"

definition providerPrepare :: "provider_config \<Rightarrow> go_error option" where
  "providerPrepare cfg = None"

record provider_session =
  pvConfig :: provider_config
  pvFanout :: bool
  pvSystem :: string
  pvState :: live_state
  pvAlive :: bool
  pvTurnID :: string
  pvMessages :: "chat_message list"
  pvTurnInFlight :: bool
  pvDone :: bool
  pvDoneOnce :: bool
  pvExitCode :: int
  pvEvents :: "llm_event chan option"
  pvRequests :: "chat_request list"
  pvOut :: "bytes list"

definition providerStart :: "provider_config \<Rightarrow> start_options \<Rightarrow> llm_event chan option \<Rightarrow> provider_session" where
  "providerStart cfg opts events =
     \<lparr>pvConfig = cfg, pvFanout = (optFanout opts \<noteq> None),
      pvSystem = (if optBootPrompt opts \<noteq> '''' then optBootPrompt opts else pcfgSystemPrompt cfg),
      pvState = LiveStateIdle, pvAlive = True, pvTurnID = '''', pvMessages = [], pvTurnInFlight = False,
      pvDone = False, pvDoneOnce = False, pvExitCode = 0, pvEvents = events, pvRequests = [], pvOut = []\<rparr>"

section \<open>SendInput and Stop\<close>

datatype provider_pc =
    PvSend bytes
  | PvClaim bytes
  | PvAppend bytes
  | PvTurnID "chat_message list"
  | PvProcessing "chat_message list"
  | PvStreamChat "chat_message list"
  | PvStream string
  | PvAnswer string
  | PvIdle "go_error option"
  | PvRelease "go_error option"
  | PvReturned "go_error option"
  | PvStop
  | PvStopState
  | PvStopDone
  | PvStopReturned
  | PvPanicked
  | PvStopPanicked

text \<open>What a goroutine gets: nothing, an id, the answer of \<open>StreamChat\<close>, an event, the end of the stream.\<close>

datatype provider_input = PinGo | PinID string | PinChat "go_error option" | PinEvent llm_event | PinClosed

definition fan_out :: "bytes \<Rightarrow> provider_session \<Rightarrow> provider_session" where
  "fan_out b s = (if pvFanout s then s\<lparr>pvOut := pvOut s @ [b]\<rparr> else s)"

text \<open>One event of the stream: the fanout, then by type.\<close>

definition provider_event :: "string \<Rightarrow> llm_event \<Rightarrow> provider_session \<Rightarrow> provider_pc \<times> provider_session" where
  "provider_event assistant ev s =
     (case tryEventFanout (pvEvents s) ev of
        None \<Rightarrow> (PvPanicked, s)
      | Some ch \<Rightarrow>
          let s1 = s\<lparr>pvEvents := ch\<rparr> in
          (case leType ev of
             EventDelta \<Rightarrow> (PvStream (assistant @ leContent ev), fan_out (leContent ev) s1)
           | EventError \<Rightarrow> (PvIdle (Some (ErrorsNew (leError ev))), fan_out (error_line (leError ev)) s1)
           | EventDone \<Rightarrow> (PvStream assistant, fan_out turn_done_line s1)
           | _ \<Rightarrow> (PvStream assistant, s1)))"

definition user_message :: "bytes \<Rightarrow> chat_message" where
  "user_message data = \<lparr>cmRole = ''user'', cmContent = data\<rparr>"

definition assistant_message :: "string \<Rightarrow> chat_message" where
  "assistant_message t = \<lparr>cmRole = ''assistant'', cmContent = t\<rparr>"

definition provider_step :: "(provider_input, provider_pc, provider_session) section_step" where
  "provider_step ev pc s =
     (case (pc, ev) of
        (PvSend d, PinGo) \<Rightarrow> Some (if \<not> pvAlive s then (PvReturned (Some ErrNoInputChannel), s) else (PvClaim d, s))
      | (PvClaim d, PinGo) \<Rightarrow>
          Some (if pvTurnInFlight s then (PvReturned (Some ErrTurnInFlight), s)
                else (PvAppend d, s\<lparr>pvTurnInFlight := True\<rparr>))
      | (PvAppend d, PinGo) \<Rightarrow>
          (let ms = pvMessages s @ [user_message d] in Some (PvTurnID ms, s\<lparr>pvMessages := ms\<rparr>))
      | (PvTurnID ms, PinID i) \<Rightarrow> Some (PvProcessing ms, s\<lparr>pvTurnID := i\<rparr>)
      | (PvProcessing ms, PinGo) \<Rightarrow> Some (PvStreamChat ms, s\<lparr>pvState := LiveStateProcessing\<rparr>)
      | (PvStreamChat ms, PinChat e) \<Rightarrow>
          (let s1 = s\<lparr>pvRequests := pvRequests s @
               [\<lparr>crModel = pcfgModel (pvConfig s), crSystemPrompt = pvSystem s, crMessages = ms\<rparr>]\<rparr>
           in Some (case e of Some e \<Rightarrow> (PvIdle (Some e), s1) | None \<Rightarrow> (PvStream [], s1)))
      | (PvStream a, PinEvent ev) \<Rightarrow> Some (provider_event a ev s)
      | (PvStream a, PinClosed) \<Rightarrow> Some (if a \<noteq> [] then (PvAnswer a, s) else (PvIdle None, s))
      | (PvAnswer a, PinGo) \<Rightarrow> Some (PvIdle None, s\<lparr>pvMessages := pvMessages s @ [assistant_message a]\<rparr>)
      | (PvIdle r, PinGo) \<Rightarrow> Some (PvRelease r, s\<lparr>pvState := LiveStateIdle\<rparr>)
      | (PvRelease r, PinGo) \<Rightarrow> Some (PvReturned r, s\<lparr>pvTurnInFlight := False\<rparr>)
      | (PvStop, PinGo) \<Rightarrow>
          Some (if \<not> pvAlive s then (PvStopReturned, s) else (PvStopState, s\<lparr>pvAlive := False\<rparr>))
      | (PvStopState, PinGo) \<Rightarrow> Some (PvStopDone, s\<lparr>pvState := LiveStateStopped\<rparr>)
      | (PvStopDone, PinGo) \<Rightarrow>
          Some (if pvDoneOnce s then (PvStopReturned, s)
                else if pvDone s then (PvStopPanicked, s)
                else (PvStopReturned, s\<lparr>pvDoneOnce := True, pvDone := True\<rparr>))
      | _ \<Rightarrow> None)"

fun provider_start :: "provider_pc \<Rightarrow> bool" where
  "provider_start (PvSend d) = True"
| "provider_start PvStop = True"
| "provider_start pc = False"

section \<open>Queries\<close>

definition providerWait :: "provider_session \<Rightarrow> (int \<times> go_error option) option" where
  "providerWait s = (if pvDone s then Some (pvExitCode s, None) else None)"

definition providerHealth :: "provider_session \<Rightarrow> health_status" where
  "providerHealth s = \<lparr>hsAlive = pvAlive s, hsPID = 0, hsState = pvState s, hsTurnID = pvTurnID s\<rparr>"

definition providerCheckpointHints :: "provider_session \<Rightarrow> bytes option" where
  "providerCheckpointHints s = None"

definition providerResize :: "provider_session \<Rightarrow> go_error option" where
  "providerResize s = None"

abbreviation provider_reach :: "provider_config \<Rightarrow> start_options \<Rightarrow> llm_event chan option \<Rightarrow>
    provider_pc list \<Rightarrow> provider_session \<Rightarrow> bool" where
  "provider_reach cfg opts events \<equiv> threads_reach provider_step provider_start [] (providerStart cfg opts events)"

end
