(* ===== verification/Provider_Props.thy ===== *)
theory Provider_Props imports Provider_Session begin

text \<open>
  What a provider session guarantees: one turn at a time, a well-formed conversation
  under every interleaving, and the outcome of a turn.
\<close>

fun provider_in_turn :: "provider_pc \<Rightarrow> bool" where
  "provider_in_turn (PvAppend d) = True"
| "provider_in_turn (PvTurnID ms) = True"
| "provider_in_turn (PvProcessing ms) = True"
| "provider_in_turn (PvStreamChat ms) = True"
| "provider_in_turn (PvStream a) = True"
| "provider_in_turn (PvAnswer a) = True"
| "provider_in_turn (PvIdle r) = True"
| "provider_in_turn (PvRelease r) = True"
| "provider_in_turn PvPanicked = True"
| "provider_in_turn pc = False"

lemma fan_out_sel [simp]:
  "pvState (fan_out b s) = pvState s" "pvAlive (fan_out b s) = pvAlive s" "pvMessages (fan_out b s) = pvMessages s"
  "pvTurnInFlight (fan_out b s) = pvTurnInFlight s" "pvRequests (fan_out b s) = pvRequests s"
  "pvEvents (fan_out b s) = pvEvents s" "pvConfig (fan_out b s) = pvConfig s" "pvSystem (fan_out b s) = pvSystem s"
  "pvDone (fan_out b s) = pvDone s" "pvDoneOnce (fan_out b s) = pvDoneOnce s" "pvFanout (fan_out b s) = pvFanout s"
  "pvTurnID (fan_out b s) = pvTurnID s" "pvExitCode (fan_out b s) = pvExitCode s"
  by (simp_all add: fan_out_def)

lemma provider_event_sel:
  assumes "provider_event a ev s = (pc', s')"
  shows "pvState s' = pvState s" "pvAlive s' = pvAlive s" "pvMessages s' = pvMessages s"
    "pvTurnInFlight s' = pvTurnInFlight s" "pvRequests s' = pvRequests s" "pvConfig s' = pvConfig s"
    "pvSystem s' = pvSystem s" "pvDone s' = pvDone s" "pvDoneOnce s' = pvDoneOnce s"
    "pc' = PvPanicked \<or> (\<exists>b. pc' = PvStream b) \<or> (\<exists>r. pc' = PvIdle r)"
  using assms by (auto simp: provider_event_def Let_def split: option.splits event_type.splits)

lemmas provider_splits = provider_pc.splits provider_input.splits if_splits option.splits

interpretation provider: turn_flag provider_step provider_in_turn pvTurnInFlight
proof
  fix ev pc s pc' s'
  assume st: "provider_step ev pc s = Some (pc', s')"
  show "\<not> pvTurnInFlight s \<and> pvTurnInFlight s'" if "\<not> provider_in_turn pc" "provider_in_turn pc'"
    using st that by (auto simp: provider_step_def split: provider_splits)
  show "pvTurnInFlight s' = pvTurnInFlight s" if "\<not> provider_in_turn pc" "\<not> provider_in_turn pc'"
    using st that by (auto simp: provider_step_def split: provider_splits)
  show "pvTurnInFlight s' = pvTurnInFlight s" if "provider_in_turn pc" "provider_in_turn pc'"
    using st that by (auto simp: provider_step_def Let_def provider_event_sel split: provider_splits)
  show "\<not> pvTurnInFlight s'" if "provider_in_turn pc" "\<not> provider_in_turn pc'"
    using st that by (auto simp: provider_step_def Let_def split: provider_splits dest!: provider_event_sel(10))
qed

section \<open>The conversation\<close>

text \<open>Only users and assistants speak, and an assistant only right after a user.\<close>

definition from_user :: "chat_message \<Rightarrow> bool" where
  "from_user m \<longleftrightarrow> (\<exists>d. m = user_message d)"

definition from_assistant :: "chat_message \<Rightarrow> bool" where
  "from_assistant m \<longleftrightarrow> (\<exists>a. m = assistant_message a \<and> a \<noteq> [])"

definition conversation :: "chat_message list \<Rightarrow> bool" where
  "conversation ms \<longleftrightarrow>
     (\<forall>k < length ms. from_user (ms ! k) \<or> from_assistant (ms ! k) \<and> 0 < k \<and> from_user (ms ! (k - 1)))"

definition ends_with_user :: "chat_message list \<Rightarrow> bool" where
  "ends_with_user ms \<longleftrightarrow> ms \<noteq> [] \<and> from_user (last ms)"

lemma from_user_message [simp]: "from_user (user_message d)"
  unfolding from_user_def by blast

lemma conversation_user: "conversation ms \<Longrightarrow> conversation (ms @ [user_message d])"
  unfolding conversation_def by (auto simp: nth_append less_Suc_eq)

lemma conversation_assistant:
  assumes "conversation ms" "ends_with_user ms" "a \<noteq> []"
  shows "conversation (ms @ [assistant_message a])"
proof -
  have "from_assistant (assistant_message a)" using assms(3) unfolding from_assistant_def by blast
  then show ?thesis using assms(1,2) unfolding conversation_def ends_with_user_def
    by (auto simp: nth_append less_Suc_eq last_conv_nth)
qed

lemma ends_with_user_snoc [simp]: "ends_with_user (ms @ [user_message d])"
  by (simp add: ends_with_user_def)

text \<open>A request carries the whole conversation of its moment, with the user speaking last.\<close>

definition request_ok :: "provider_session \<Rightarrow> chat_request \<Rightarrow> bool" where
  "request_ok s r \<longleftrightarrow> ends_with_user (crMessages r) \<and> (\<exists>t. pvMessages s = crMessages r @ t) \<and>
     crModel r = pcfgModel (pvConfig s) \<and> crSystemPrompt r = pvSystem s"

definition provider_inv :: "provider_session \<Rightarrow> bool" where
  "provider_inv s \<longleftrightarrow> conversation (pvMessages s) \<and> (\<forall>r \<in> set (pvRequests s). request_ok s r)"

fun turn_fact :: "provider_session \<Rightarrow> provider_pc \<Rightarrow> bool" where
  "turn_fact s (PvTurnID ms) = (pvMessages s = ms \<and> ends_with_user ms)"
| "turn_fact s (PvProcessing ms) = (pvMessages s = ms \<and> ends_with_user ms)"
| "turn_fact s (PvStreamChat ms) = (pvMessages s = ms \<and> ends_with_user ms)"
| "turn_fact s (PvStream a) = ends_with_user (pvMessages s)"
| "turn_fact s (PvAnswer a) = (ends_with_user (pvMessages s) \<and> a \<noteq> [])"
| "turn_fact s pc = True"

lemma provider_inv_cong:
  assumes "provider_inv s" "pvMessages s' = pvMessages s" "pvRequests s' = pvRequests s"
    "pvConfig s' = pvConfig s" "pvSystem s' = pvSystem s"
  shows "provider_inv s'"
  using assms by (simp add: provider_inv_def request_ok_def)

lemma provider_inv_say:
  assumes "provider_inv s" "conversation (pvMessages s @ [m])"
  shows "provider_inv (s\<lparr>pvMessages := pvMessages s @ [m]\<rparr>)"
  using assms by (auto simp: provider_inv_def request_ok_def)

lemma turn_fact_cong: "pvMessages s' = pvMessages s \<Longrightarrow> turn_fact s' pc = turn_fact s pc"
  by (cases pc) simp_all

lemma provider_step_outside:
  assumes "provider_inv s" "\<not> provider_in_turn pc" "provider_step ev pc s = Some (pc', s')"
  shows "provider_inv s'" "provider_in_turn pc' \<Longrightarrow> turn_fact s' pc'" "turn_fact s' qc = turn_fact s qc"
proof -
  have same: "pvMessages s' = pvMessages s" "pvRequests s' = pvRequests s" "pvConfig s' = pvConfig s" "pvSystem s' = pvSystem s"
    using assms(2,3) by (auto simp: provider_step_def split: provider_splits)
  show "provider_inv s'" by (rule provider_inv_cong[OF assms(1) same])
  show "turn_fact s' qc = turn_fact s qc" by (rule turn_fact_cong[OF same(1)])
  show "turn_fact s' pc'" if "provider_in_turn pc'"
    using assms(2,3) that by (auto simp: provider_step_def split: provider_splits)
qed

lemma provider_step_inside:
  assumes "provider_inv s" "provider_in_turn pc" "turn_fact s pc" "provider_step ev pc s = Some (pc', s')"
  shows "provider_inv s' \<and> turn_fact s' pc'"
proof (cases pc)
  case (PvAppend d)
  then have "s' = s\<lparr>pvMessages := pvMessages s @ [user_message d]\<rparr>" "pc' = PvTurnID (pvMessages s @ [user_message d])"
    using assms(4) by (auto simp: provider_step_def Let_def split: provider_splits)
  moreover have "conversation (pvMessages s @ [user_message d])"
    using assms(1) conversation_user by (simp add: provider_inv_def)
  ultimately show ?thesis using provider_inv_say[OF assms(1)] by simp
next
  case (PvStreamChat ms)
  let ?r = "\<lparr>crModel = pcfgModel (pvConfig s), crSystemPrompt = pvSystem s, crMessages = ms\<rparr>"
  have s': "s' = s\<lparr>pvRequests := pvRequests s @ [?r]\<rparr>" "pc' = PvStream [] \<or> (\<exists>e. pc' = PvIdle e)"
    using assms(4) PvStreamChat by (auto simp: provider_step_def Let_def split: provider_splits)
  have f: "pvMessages s = ms" "ends_with_user ms" using assms(3) PvStreamChat by simp_all
  then have "provider_inv s'" using assms(1) s'(1) by (auto simp: provider_inv_def request_ok_def)
  then show ?thesis using f s' by auto
next
  case (PvStream a)
  show ?thesis
  proof (cases "\<exists>e. ev = PinEvent e")
    case True
    then obtain e where e: "provider_event a e s = (pc', s')"
      using assms(4) PvStream by (auto simp: provider_step_def split: provider_splits)
    note sel = provider_event_sel[OF e]
    have "provider_inv s'" using provider_inv_cong[OF assms(1)] sel by simp
    then show ?thesis using sel(3,10) assms(3) PvStream by auto
  next
    case False
    then show ?thesis using assms(1,3,4) PvStream by (auto simp: provider_step_def split: provider_splits)
  qed
next
  case (PvAnswer a)
  then have "s' = s\<lparr>pvMessages := pvMessages s @ [assistant_message a]\<rparr>" "pc' = PvIdle None"
    using assms(4) by (auto simp: provider_step_def split: provider_splits)
  moreover have "conversation (pvMessages s @ [assistant_message a])"
    using assms(1,3) PvAnswer conversation_assistant by (simp add: provider_inv_def)
  ultimately show ?thesis using provider_inv_say[OF assms(1)] by simp
qed (use assms provider_inv_cong[OF assms(1), of s'] in \<open>auto simp: provider_step_def Let_def split: provider_splits\<close>)

lemma provider_start_outside: "provider_start pc \<Longrightarrow> \<not> provider_in_turn pc"
  by (cases pc) simp_all


section \<open>One turn\<close>

definition is_error :: "llm_event \<Rightarrow> bool" where
  "is_error ev \<longleftrightarrow> leType ev = EventError"

definition said :: "llm_event list \<Rightarrow> string" where
  "said evs = concat (map leContent (filter (\<lambda>e. leType e = EventDelta) evs))"

definition shown :: "llm_event \<Rightarrow> bytes list" where
  "shown ev = (case leType ev of EventDelta \<Rightarrow> [leContent ev] | EventDone \<Rightarrow> [turn_done_line]
     | EventError \<Rightarrow> [error_line (leError ev)] | _ \<Rightarrow> [])"

text \<open>What a turn consumes of a stream, and how it ends.\<close>

definition consumed :: "llm_event list \<Rightarrow> llm_event list" where
  "consumed evs = takeWhile (\<lambda>e. \<not> is_error e) evs @ take 1 (dropWhile (\<lambda>e. \<not> is_error e) evs)"

definition turn_error :: "llm_event list \<Rightarrow> go_error option" where
  "turn_error evs = map_option (\<lambda>e. ErrorsNew (leError e)) (find is_error evs)"

definition stream_inputs :: "llm_event list \<Rightarrow> provider_input list" where
  "stream_inputs evs = map PinEvent (consumed evs) @
     (if turn_error evs = None then PinClosed # (if said evs = [] then [] else [PinGo]) else [])"

definition open_events :: "provider_session \<Rightarrow> bool" where
  "open_events s \<longleftrightarrow> (\<forall>c. pvEvents s = Some c \<longrightarrow> \<not> chClosed c)"

text \<open>The part of the session that the events of a stream do not touch.\<close>

definition same_but_output :: "provider_session \<Rightarrow> provider_session \<Rightarrow> bool" where
  "same_but_output s s' \<longleftrightarrow> pvMessages s' = pvMessages s \<and> pvRequests s' = pvRequests s \<and> pvTurnID s' = pvTurnID s \<and>
     pvFanout s' = pvFanout s \<and> pvAlive s' = pvAlive s \<and> pvDone s' = pvDone s"

lemma same_but_output_trans: "same_but_output s u \<Longrightarrow> same_but_output u s' \<Longrightarrow> same_but_output s s'"
  by (simp add: same_but_output_def)

lemma same_but_output_sel:
  assumes "same_but_output s s'"
  shows "pvMessages s' = pvMessages s" "pvRequests s' = pvRequests s" "pvTurnID s' = pvTurnID s" "pvFanout s' = pvFanout s"
    "pvAlive s' = pvAlive s" "pvDone s' = pvDone s"
  using assms by (simp_all add: same_but_output_def)

lemma open_fanout:
  assumes "open_events s"
  obtains ch where "tryEventFanout (pvEvents s) ev = Some ch" "\<forall>c. ch = Some c \<longrightarrow> \<not> chClosed c"
proof (cases "pvEvents s")
  case None
  then show ?thesis using that[of None] by (simp add: tryEventFanout_def)
next
  case (Some c)
  then have "\<not> chClosed c" using assms by (simp add: open_events_def)
  then show ?thesis
    using Some that[of "Some (if length (chQueue c) < chCap c then c\<lparr>chQueue := chQueue c @ [ev]\<rparr> else c)"]
    by (cases "length (chQueue c) < chCap c") (simp_all add: tryEventFanout_def chan_try_send_def)
qed

definition after_event :: "string \<Rightarrow> llm_event \<Rightarrow> provider_pc" where
  "after_event a ev = (case leType ev of EventDelta \<Rightarrow> PvStream (a @ leContent ev)
     | EventError \<Rightarrow> PvIdle (Some (ErrorsNew (leError ev))) | _ \<Rightarrow> PvStream a)"

lemma provider_event_run:
  assumes "open_events s"
  shows "\<exists>s'. provider_event a ev s = (after_event a ev, s') \<and> same_but_output s s' \<and> open_events s' \<and>
     pvOut s' = pvOut s @ (if pvFanout s then shown ev else [])"
proof -
  obtain ch where "tryEventFanout (pvEvents s) ev = Some ch" "\<forall>c. ch = Some c \<longrightarrow> \<not> chClosed c"
    using open_fanout[OF assms] by blast
  then show ?thesis
    by (cases "leType ev")
      (auto simp: provider_event_def after_event_def shown_def fan_out_def same_but_output_def open_events_def)
qed

lemma said_Cons: "said (e # evs) = (if leType e = EventDelta then leContent e else []) @ said evs"
  by (simp add: said_def)

lemma provider_stream_run:
  assumes "open_events s" "\<forall>e \<in> set evs. \<not> is_error e"
  shows "\<exists>s'. inputs_run provider_step (map PinEvent evs) (PvStream a, s) = Some (PvStream (a @ said evs), s') \<and>
     same_but_output s s' \<and> open_events s' \<and> pvOut s' = pvOut s @ (if pvFanout s then concat (map shown evs) else [])"
  using assms
proof (induction evs arbitrary: a s)
  case Nil
  then show ?case by (simp add: said_def same_but_output_def)
next
  case (Cons e evs)
  obtain u where u: "provider_event a e s = (after_event a e, u)" "same_but_output s u" "open_events u"
    "pvOut u = pvOut s @ (if pvFanout s then shown e else [])"
    using provider_event_run[OF Cons.prems(1)] by blast
  have pc: "after_event a e = PvStream (a @ (if leType e = EventDelta then leContent e else []))"
    using Cons.prems(2) by (cases "leType e") (auto simp: after_event_def is_error_def)
  have evs: "\<forall>e \<in> set evs. \<not> is_error e" using Cons.prems(2) by simp
  obtain s' where s': "inputs_run provider_step (map PinEvent evs)
        (PvStream (a @ (if leType e = EventDelta then leContent e else [])), u) =
      Some (PvStream ((a @ (if leType e = EventDelta then leContent e else [])) @ said evs), s')"
    "same_but_output u s'" "open_events s'"
    "pvOut s' = pvOut u @ (if pvFanout u then concat (map shown evs) else [])"
    using Cons.IH[OF u(3) evs] by blast
  have "provider_step (PinEvent e) (PvStream a) s = Some (after_event a e, u)" using u(1) by (simp add: provider_step_def)
  moreover have "same_but_output s s'" using same_but_output_trans[OF u(2) s'(2)] .
  ultimately show ?case using s' u(4) pc same_but_output_sel(4)[OF u(2)] by (auto simp: said_Cons)
qed

definition request_of :: "provider_session \<Rightarrow> bytes \<Rightarrow> chat_request" where
  "request_of s d = \<lparr>crModel = pcfgModel (pvConfig s), crSystemPrompt = pvSystem s,
     crMessages = pvMessages s @ [user_message d]\<rparr>"

text \<open>The first sections of a turn, up to the answer of \<open>StreamChat\<close>.\<close>

definition turn_opening :: "string \<Rightarrow> go_error option \<Rightarrow> provider_input list" where
  "turn_opening i e = [PinGo, PinGo, PinGo, PinID i, PinGo, PinChat e]"

lemma turn_opening_run:
  assumes "pvAlive s" "\<not> pvTurnInFlight s"
  shows "inputs_run provider_step (turn_opening i e) (PvSend d, s) =
     Some (case e of None \<Rightarrow> PvStream [] | Some x \<Rightarrow> PvIdle (Some x),
       s\<lparr>pvTurnInFlight := True, pvMessages := pvMessages s @ [user_message d], pvTurnID := i,
         pvState := LiveStateProcessing, pvRequests := pvRequests s @ [request_of s d]\<rparr>)"
  using assms by (cases e) (simp_all add: turn_opening_def provider_step_def request_of_def Let_def)

lemma turn_closing_run:
  "inputs_run provider_step [PinGo, PinGo] (PvIdle r, s) = Some (PvReturned r, s\<lparr>pvState := LiveStateIdle, pvTurnInFlight := False\<rparr>)"
  by (simp add: provider_step_def)

lemma split_at_error:
  "(\<forall>e \<in> set evs. \<not> is_error e) \<or> (\<exists>xs e ys. evs = xs @ e # ys \<and> (\<forall>x \<in> set xs. \<not> is_error x) \<and> is_error e)"
  using split_list_first_prop[of evs is_error] by blast

lemma no_error_simps:
  assumes "\<forall>e \<in> set evs. \<not> is_error e"
  shows "consumed evs = evs" "turn_error evs = None"
  using assms by (simp_all add: consumed_def turn_error_def find_None_iff dropWhile_eq_Nil_conv[THEN iffD2] takeWhile_eq_all_conv[THEN iffD2])

lemma error_simps:
  assumes "\<forall>x \<in> set xs. \<not> is_error x" "is_error e"
  shows "consumed (xs @ e # ys) = xs @ [e]" "turn_error (xs @ e # ys) = Some (ErrorsNew (leError e))"
proof -
  have "takeWhile (\<lambda>e. \<not> is_error e) (xs @ e # ys) = xs" "dropWhile (\<lambda>e. \<not> is_error e) (xs @ e # ys) = e # ys"
    using assms by (simp_all add: takeWhile_append dropWhile_append)
  then show "consumed (xs @ e # ys) = xs @ [e]" by (simp add: consumed_def)
  have "find is_error (xs @ e # ys) = Some e" using assms by (induction xs) auto
  then show "turn_error (xs @ e # ys) = Some (ErrorsNew (leError e))" by (simp add: turn_error_def)
qed

lemma stream_outcome:
  assumes "open_events s"
  shows "\<exists>s'. inputs_run provider_step (stream_inputs evs) (PvStream [], s) = Some (PvIdle (turn_error evs), s') \<and>
     pvMessages s' = pvMessages s @
       (if turn_error evs = None \<and> said evs \<noteq> [] then [assistant_message (said evs)] else []) \<and>
     pvOut s' = pvOut s @ (if pvFanout s then concat (map shown (consumed evs)) else []) \<and>
     pvRequests s' = pvRequests s \<and> pvTurnID s' = pvTurnID s"
proof (cases "\<forall>e \<in> set evs. \<not> is_error e")
  case True
  obtain u where u: "inputs_run provider_step (map PinEvent evs) (PvStream [], s) = Some (PvStream (said evs), u)"
    "same_but_output s u" "pvOut u = pvOut s @ (if pvFanout s then concat (map shown evs) else [])"
    using provider_stream_run[OF assms True, of "[]"] by auto
  note f = no_error_simps[OF True] and sel = same_but_output_sel[OF u(2)]
  show ?thesis
  proof (cases "said evs = []")
    case True
    then have "inputs_run provider_step (stream_inputs evs) (PvStream [], s) = Some (PvIdle None, u)"
      using u(1) f by (simp add: stream_inputs_def inputs_run_append provider_step_def)
    then show ?thesis using True f u(3) sel by simp
  next
    case False
    then have "inputs_run provider_step (stream_inputs evs) (PvStream [], s) =
        Some (PvIdle None, u\<lparr>pvMessages := pvMessages u @ [assistant_message (said evs)]\<rparr>)"
      using u(1) f by (simp add: stream_inputs_def inputs_run_append provider_step_def)
    then show ?thesis using False f u(3) sel by simp
  qed
next
  case False
  then obtain xs e ys where e: "evs = xs @ e # ys" "\<forall>x \<in> set xs. \<not> is_error x" "is_error e"
    using split_at_error[of evs] by blast
  obtain u where u: "inputs_run provider_step (map PinEvent xs) (PvStream [], s) = Some (PvStream (said xs), u)"
    "same_but_output s u" "open_events u" "pvOut u = pvOut s @ (if pvFanout s then concat (map shown xs) else [])"
    using provider_stream_run[OF assms e(2), of "[]"] by auto
  obtain v where v: "provider_event (said xs) e u = (after_event (said xs) e, v)" "same_but_output u v"
    "pvOut v = pvOut u @ (if pvFanout u then shown e else [])"
    using provider_event_run[OF u(3)] by blast
  note f = error_simps[OF e(2,3), of ys] and sel = same_but_output_sel[OF u(2)] same_but_output_sel[OF v(2)]
  have pc: "after_event (said xs) e = PvIdle (Some (ErrorsNew (leError e)))"
    using e(3) by (simp add: after_event_def is_error_def)
  have "inputs_run provider_step (stream_inputs evs) (PvStream [], s) = Some (PvIdle (turn_error evs), v)"
    using u(1) v(1) pc f by (simp add: e(1) stream_inputs_def inputs_run_append provider_step_def)
  then show ?thesis using f v(3) u(4) sel by (simp add: e(1))
qed


definition demo_provider :: provider_config where
  "demo_provider = \<lparr>pcfgID = ''api'', pcfgKind = ''api'', pcfgProvider = True,
     pcfgCaps = \<lparr>PTY = False, StreamingStdio = False, JsonRpcStdio = False, ServeHTTP = False, CapResize = False,
       ProviderSessionID = False, CheckpointResume = False, BinaryRequired = False\<rparr>,
     pcfgModel = ''m'', pcfgSystemPrompt = ''be brief''\<rparr>"

definition demo_provider_session :: provider_session where
  "demo_provider_session =
     \<lparr>pvConfig = demo_provider, pvFanout = True, pvSystem = ''be brief'', pvState = LiveStateIdle, pvAlive = True,
      pvTurnID = '''', pvMessages = [], pvTurnInFlight = False, pvDone = False, pvDoneOnce = False, pvExitCode = 0,
      pvEvents = None, pvRequests = [], pvOut = []\<rparr>"


lemma two_senders_run:
  assumes "pvAlive s" "\<not> pvTurnInFlight s"
  shows "threads_run provider_step [Spawn (PvSend d), Spawn (PvSend d'), Move 0 PinGo, Move 0 PinGo, Move 0 PinGo] ([], s) =
     Some ([PvTurnID (pvMessages s @ [user_message d]), PvSend d'],
       s\<lparr>pvTurnInFlight := True, pvMessages := pvMessages s @ [user_message d]\<rparr>)"
  using assms by (simp add: provider_step_def Let_def)


end
