(* ===== verification/Adapter_Session.thy ===== *)
theory Adapter_Session imports Threads Long_Lived begin

text \<open>
  \<open>from_adapter.go\<close>: \<open>NewFromAdapter\<close> and the subprocess-per-turn session.  Each
  \<open>SendInput\<close> makes one \<open>runner.Run\<close> of the runner module, which is the outside: what
  it is called with is recorded, its events and its result are what the goroutine
  gets.  Every atomic operation and every locked region is one section.
\<close>

section \<open>Runtimes\<close>

record adapter_config =
  acID :: string
  acKind :: string
  acAdapter :: "adapter option"
  acCaps :: capabilities
  acBuildArgs :: "(string \<Rightarrow> string \<Rightarrow> string list) option"
  acWaitDelay :: duration

datatype runtime_shape = PtyRuntime | StreamingRuntime | JsonRpcRuntime | ServeHTTPRuntime | TurnRuntime

definition NewFromAdapter :: "adapter_config \<Rightarrow> go_error + runtime_shape \<times> adapter_config" where
  "NewFromAdapter cfg =
     (if acID cfg = '''' then Inl (ErrorsNew ''agentsessions: AdapterRuntimeConfig.ID is required'')
      else if acAdapter cfg = None then Inl (ErrorsNew ''agentsessions: AdapterRuntimeConfig.Adapter is required'')
      else case validateLifecycle (acCaps cfg) of
        Some e \<Rightarrow> Inl e
      | None \<Rightarrow>
          let cfg = (if acKind cfg = '''' then cfg\<lparr>acKind := ''cli''\<rparr> else cfg); c = acCaps cfg in
          Inr (if PTY c then PtyRuntime else if StreamingStdio c then StreamingRuntime
               else if JsonRpcStdio c then JsonRpcRuntime else if ServeHTTP c then ServeHTTPRuntime
               else TurnRuntime, cfg))"

definition adapterPrepare :: "adapter_config \<Rightarrow> child_adapter \<Rightarrow> go_error option" where
  "adapterPrepare cfg ad =
     (if \<not> BinaryRequired (acCaps cfg) then None
      else case caDetect ad of
        Some b \<Rightarrow> None
      | None \<Rightarrow> Some (binary_not_found ad))"

section \<open>State\<close>

text \<open>\<open>sync.Once\<close>: a second caller waits while the function runs.\<close>

datatype once = OnceNew | OnceRunning | OnceDone

record runner_config =
  rcfgProvider :: adapter
  rcfgProfile :: string
  rcfgWorkspace :: string
  rcfgArgs :: "string list"
  rcfgEnv :: "string list"
  rcfgStderr :: bool
  rcfgExtraFiles :: "nat list"
  rcfgWaitDelay :: duration

record adapter_session =
  asConfig :: adapter_config
  asAdapter :: adapter
  asBootDir :: string
  asOpts :: start_options
  asBuildArgs :: "string \<Rightarrow> string \<Rightarrow> string list"
  asSessionID :: string
  asState :: live_state
  asAlive :: bool
  asPID :: int
  asLastPID :: int
  asTurnID :: string
  asStopClosed :: bool
  asStopOnce :: once
  asDoneClosed :: bool
  asDoneOnce :: once
  asExitCode :: int
  asTurnMu :: bool
  asTurnInFlight :: bool
  asEvents :: "llm_event chan option"
  asRuns :: "runner_config list"
  asOut :: "bytes list"
  asSessionIDs :: "string list"
  asRemoved :: "string list"

text \<open>The argument builder: the configured one or the adapter's, then the extra arguments.\<close>

definition adapter_build_args ::
  "adapter_config \<Rightarrow> child_adapter \<Rightarrow> start_options \<Rightarrow> string \<Rightarrow> string \<Rightarrow> string list" where
  "adapter_build_args cfg ad opts =
     (let base = (case acBuildArgs cfg of Some f \<Rightarrow> f | None \<Rightarrow> (\<lambda>prompt sid. caBuildArgs ad prompt '''' sid)) in
      if optExtraArgs opts \<noteq> [] then (\<lambda>prompt sid. base prompt sid @ optExtraArgs opts) else base)"

definition new_adapter_session ::
  "adapter_config \<Rightarrow> (adapter \<Rightarrow> child_adapter) \<Rightarrow> adapter \<Rightarrow> string \<Rightarrow> start_options \<Rightarrow> llm_event chan option \<Rightarrow> adapter_session" where
  "new_adapter_session cfg behav ad bootDir opts events =
     \<lparr>asConfig = cfg, asAdapter = ad, asBootDir = bootDir, asOpts = opts,
      asBuildArgs = adapter_build_args cfg (behav ad) opts, asSessionID = optSessionIDPreset opts,
      asState = LiveStateIdle, asAlive = True, asPID = 0, asLastPID = 0, asTurnID = '''', asStopClosed = False,
      asStopOnce = OnceNew, asDoneClosed = False, asDoneOnce = OnceNew, asExitCode = 0, asTurnMu = False,
      asTurnInFlight = False, asEvents = events, asRuns = [], asOut = [], asSessionIDs = [], asRemoved = []\<rparr>"

definition errAdapterWorkdir :: go_error where
  "errAdapterWorkdir = ErrorsNew ''agentsessions: StartOptions.Workdir is required for adapter runtime''"

section \<open>Events of the runner\<close>

definition encodeStreamEvent :: "llm_event \<Rightarrow> bytes option" where
  "encodeStreamEvent ev =
     (case leType ev of
        EventDelta \<Rightarrow> if leContent ev = '''' then None else Some (leContent ev)
      | EventToolUse \<Rightarrow>
          map_option (\<lambda>name. [CHR 0x0A] @ ''[tool_use:'' @ name @ '']'' @ [CHR 0x0A]) (leToolUse ev)
      | EventError \<Rightarrow> Some (error_line (leError ev))
      | EventDone \<Rightarrow> Some turn_done_line
      | _ \<Rightarrow> None)"

text \<open>The payloads are type-asserted: None is a payload of another type.\<close>

datatype runner_event = RunStarted "int option" | RunProvider "llm_event option" | RunExited | RunTimeout | RunOther

definition observe_session_id :: "llm_event \<Rightarrow> adapter_session \<Rightarrow> adapter_session" where
  "observe_session_id pe s =
     (if leType pe = EventSessionID \<and> leSessionID pe \<noteq> ''''
      then s\<lparr>asSessionID := leSessionID pe,
             asSessionIDs := asSessionIDs s @ (if optOnSessionID (asOpts s) then [leSessionID pe] else [])\<rparr>
      else s)"

definition adapter_fan_out :: "llm_event \<Rightarrow> adapter_session \<Rightarrow> adapter_session" where
  "adapter_fan_out pe s =
     (if optFanout (asOpts s) \<noteq> None
      then (case encodeStreamEvent pe of None \<Rightarrow> s | Some l \<Rightarrow> s\<lparr>asOut := asOut s @ [l]\<rparr>) else s)"

text \<open>None: the event fanout panics (its channel was closed by the caller).\<close>

definition handleRunnerEvent :: "runner_event \<Rightarrow> adapter_session \<Rightarrow> adapter_session option" where
  "handleRunnerEvent ev s =
     (case ev of
        RunStarted (Some pid) \<Rightarrow> Some (s\<lparr>asPID := int32 pid, asLastPID := int32 pid\<rparr>)
      | RunProvider (Some pe) \<Rightarrow>
          (let s1 = observe_session_id pe s in
           case tryEventFanout (asEvents s1) pe of
             None \<Rightarrow> None
           | Some ch \<Rightarrow> Some (adapter_fan_out pe (s1\<lparr>asEvents := ch\<rparr>)))
      | RunExited \<Rightarrow> Some (s\<lparr>asPID := 0\<rparr>)
      | RunTimeout \<Rightarrow> Some (s\<lparr>asPID := 0\<rparr>)
      | _ \<Rightarrow> Some s)"

section \<open>SendInput and Stop\<close>

datatype adapter_pc =
    AsSend bytes
  | AsClaim bytes
  | AsLock bytes
  | AsArgs bytes
  | AsTurnID "string list"
  | AsProcessing "string list"
  | AsRun "string list"
  | AsRunning
  | AsIdle "go_error option"
  | AsUnlock "go_error option"
  | AsRelease "go_error option"
  | AsReturned "go_error option"
  | AsPanicked
  | AsStop
  | AsStopState
  | AsStopClose
  | AsStopOnceEnd
  | AsDoneClose
  | AsClean
  | AsDoneOnceEnd
  | AsStopReturned
  | AsStopPanicked
  | AsDonePanicked

text \<open>What a goroutine gets: nothing, a turn id, an event of the runner, the result of the run.\<close>

datatype adapter_input = AinGo | AinID string | AinRunner runner_event | AinRunEnd "go_error option"

definition run_config :: "string list \<Rightarrow> adapter_session \<Rightarrow> runner_config" where
  "run_config args s =
     \<lparr>rcfgProvider = asAdapter s, rcfgProfile = optProfileID (asOpts s), rcfgWorkspace = optWorkdir (asOpts s),
      rcfgArgs = args, rcfgEnv = optEnv (asOpts s), rcfgStderr = optStderr (asOpts s),
      rcfgExtraFiles = optExtraFiles (asOpts s), rcfgWaitDelay = acWaitDelay (asConfig s)\<rparr>"

definition adapter_send_step :: "(adapter_input, adapter_pc, adapter_session) section_step" where
  "adapter_send_step ev pc s =
     (case (pc, ev) of
        (AsSend d, AinGo) \<Rightarrow> Some (if \<not> asAlive s then (AsReturned (Some ErrNoInputChannel), s) else (AsClaim d, s))
      | (AsClaim d, AinGo) \<Rightarrow>
          Some (if asTurnInFlight s then (AsReturned (Some ErrTurnInFlight), s)
                else (AsLock d, s\<lparr>asTurnInFlight := True\<rparr>))
      | (AsLock d, AinGo) \<Rightarrow> if asTurnMu s then None else Some (AsArgs d, s\<lparr>asTurnMu := True\<rparr>)
      | (AsArgs d, AinGo) \<Rightarrow> Some (AsTurnID (asBuildArgs s d (asSessionID s)), s)
      | (AsTurnID args, AinID i) \<Rightarrow> Some (AsProcessing args, s\<lparr>asTurnID := i\<rparr>)
      | (AsProcessing args, AinGo) \<Rightarrow> Some (AsRun args, s\<lparr>asState := LiveStateProcessing\<rparr>)
      | (AsRun args, AinGo) \<Rightarrow> Some (AsRunning, s\<lparr>asRuns := asRuns s @ [run_config args s]\<rparr>)
      | (AsRunning, AinRunner e) \<Rightarrow>
          Some (case handleRunnerEvent e s of None \<Rightarrow> (AsPanicked, s) | Some s' \<Rightarrow> (AsRunning, s'))
      | (AsRunning, AinRunEnd r) \<Rightarrow>
          Some (case r of Some e \<Rightarrow> (AsIdle (Some e), s\<lparr>asExitCode := 1\<rparr>) | None \<Rightarrow> (AsIdle None, s))
      | (AsIdle r, AinGo) \<Rightarrow> Some (AsUnlock r, s\<lparr>asState := LiveStateIdle\<rparr>)
      | (AsUnlock r, AinGo) \<Rightarrow> Some (AsRelease r, s\<lparr>asTurnMu := False\<rparr>)
      | (AsRelease r, AinGo) \<Rightarrow> Some (AsReturned r, s\<lparr>asTurnInFlight := False\<rparr>)
      | _ \<Rightarrow> None)"

definition adapter_stop_step :: "(adapter_input, adapter_pc, adapter_session) section_step" where
  "adapter_stop_step ev pc s =
     (case (pc, ev) of
        (AsStop, AinGo) \<Rightarrow>
          (case asStopOnce s of
             OnceNew \<Rightarrow> Some (AsStopState, s\<lparr>asStopOnce := OnceRunning, asAlive := False\<rparr>)
           | OnceRunning \<Rightarrow> None
           | OnceDone \<Rightarrow> Some (AsDoneClose, s))
      | (AsStopState, AinGo) \<Rightarrow> Some (AsStopClose, s\<lparr>asState := LiveStateStopped\<rparr>)
      | (AsStopClose, AinGo) \<Rightarrow> Some (if asStopClosed s then (AsStopPanicked, s) else (AsStopOnceEnd, s\<lparr>asStopClosed := True\<rparr>))
      | (AsStopOnceEnd, AinGo) \<Rightarrow> Some (AsDoneClose, s\<lparr>asStopOnce := OnceDone\<rparr>)
      | (AsDoneClose, AinGo) \<Rightarrow>
          (case asDoneOnce s of
             OnceNew \<Rightarrow> Some (if asDoneClosed s then (AsDonePanicked, s) else (AsClean, s\<lparr>asDoneOnce := OnceRunning, asDoneClosed := True\<rparr>))
           | OnceRunning \<Rightarrow> None
           | OnceDone \<Rightarrow> Some (AsStopReturned, s))
      | (AsClean, AinGo) \<Rightarrow>
          Some (AsDoneOnceEnd, if asBootDir s = '''' then s else s\<lparr>asRemoved := asRemoved s @ [asBootDir s]\<rparr>)
      | (AsDoneOnceEnd, AinGo) \<Rightarrow> Some (AsStopReturned, s\<lparr>asDoneOnce := OnceDone\<rparr>)
      | _ \<Rightarrow> None)"

definition adapter_step :: "(adapter_input, adapter_pc, adapter_session) section_step" where
  "adapter_step ev pc s = (case adapter_send_step ev pc s of None \<Rightarrow> adapter_stop_step ev pc s | r \<Rightarrow> r)"

fun adapter_start :: "adapter_pc \<Rightarrow> bool" where
  "adapter_start (AsSend d) = True"
| "adapter_start AsStop = True"
| "adapter_start pc = False"

section \<open>Start\<close>

text \<open>
  \<open>Start\<close> plants, makes the session and fires the first turn, if any: the goroutine it
  gives is the \<open>SendInput\<close> it makes itself; when that ends with an error \<open>Start\<close> stops
  the session and fails.
\<close>

definition adapterStart ::
  "adapter_config \<Rightarrow> adapter \<Rightarrow> (adapter \<Rightarrow> child_adapter) \<Rightarrow> fs_oracle \<Rightarrow> start_options \<Rightarrow> llm_event chan option \<Rightarrow>
   file_system \<Rightarrow> (go_error + adapter_session \<times> adapter_pc list) \<times> file_system" where
  "adapterStart cfg ad behav io opts0 events fs =
     (if optWorkdir opts0 = '''' then (Inl errAdapterWorkdir, fs)
      else case preparePlant io opts0 ad (acID cfg) fs of
        (pr, fs1) \<Rightarrow>
          (case prError pr of
             Some e \<Rightarrow> (Inl e, fs1)
           | None \<Rightarrow>
               let opts = prOptions pr;
                   s = new_adapter_session cfg behav (prAdapter pr) (prBootDir pr) opts events
               in (Inr (s, if optAutoFireFirstTurn opts \<and> optFirstTurnPayload opts \<noteq> []
                           then [AsSend (optFirstTurnPayload opts)] else []), fs1)))"

text \<open>What \<open>Start\<close> returns when its first turn has returned, and what it does then.\<close>

definition adapterStart_end :: "go_error option \<Rightarrow> go_error option \<times> adapter_pc list" where
  "adapterStart_end r =
     (case r of None \<Rightarrow> (None, []) | Some e \<Rightarrow> (Some (Wrapped ''agentsessions: auto-fire first turn'' e), [AsStop]))"

section \<open>Queries\<close>

definition adapterWait :: "adapter_session \<Rightarrow> (int \<times> go_error option) option" where
  "adapterWait s = (if asDoneClosed s then Some (asExitCode s, None) else None)"

definition adapterResize :: "adapter_session \<Rightarrow> go_error option" where
  "adapterResize s = None"

definition adapterHealth :: "adapter_session \<Rightarrow> health_status" where
  "adapterHealth s = \<lparr>hsAlive = asAlive s, hsPID = asPID s, hsState = asState s, hsTurnID = asTurnID s\<rparr>"

definition adapterCheckpointHints :: "adapter_session \<Rightarrow> bytes option" where
  "adapterCheckpointHints s =
     (if \<not> CheckpointResume (acCaps (asConfig s)) \<or> asSessionID s = '''' then None else Some (asSessionID s))"

definition adapterProviderSessionID :: "adapter_session \<Rightarrow> string" where
  "adapterProviderSessionID s = asSessionID s"

definition adapterLivePID :: "adapter_session \<Rightarrow> int" where
  "adapterLivePID s = asPID s"

definition adapterLastPID :: "adapter_session \<Rightarrow> int" where
  "adapterLastPID s = asLastPID s"

abbreviation adapter_reach :: "adapter_pc list \<Rightarrow> adapter_session \<Rightarrow> adapter_pc list \<Rightarrow> adapter_session \<Rightarrow> bool" where
  "adapter_reach \<equiv> threads_reach adapter_step adapter_start"

end
