(* ===== verification/Adapter_Props.thy ===== *)
theory Adapter_Props imports Adapter_Session begin

text \<open>
  What a subprocess-per-turn session guarantees: one turn at a time, a \<open>Stop\<close> that
  closes and cleans up exactly once, the outcome of a turn, and what \<open>Stop\<close> during a
  turn does not wait for.
\<close>

lemmas adapter_splits = adapter_pc.splits adapter_input.splits if_splits option.splits once.splits

lemmas adapter_step_defs = adapter_step_def adapter_send_step_def adapter_stop_step_def Let_def

lemma adapter_event_sel:
  assumes "handleRunnerEvent e s = Some s'"
  shows "asState s' = asState s" "asAlive s' = asAlive s" "asTurnInFlight s' = asTurnInFlight s"
    "asTurnMu s' = asTurnMu s" "asRuns s' = asRuns s" "asStopOnce s' = asStopOnce s" "asStopClosed s' = asStopClosed s"
    "asDoneClosed s' = asDoneClosed s" "asDoneOnce s' = asDoneOnce s" "asRemoved s' = asRemoved s" "asBootDir s' = asBootDir s"
    "asExitCode s' = asExitCode s" "asOpts s' = asOpts s" "asTurnID s' = asTurnID s"
  using assms
  by (auto simp: handleRunnerEvent_def observe_session_id_def adapter_fan_out_def Let_def
      split: runner_event.splits option.splits if_splits)

section \<open>Runtime shapes\<close>

fun shape_flag :: "runtime_shape \<Rightarrow> capabilities \<Rightarrow> bool" where
  "shape_flag PtyRuntime c = PTY c"
| "shape_flag StreamingRuntime c = StreamingStdio c"
| "shape_flag JsonRpcRuntime c = JsonRpcStdio c"
| "shape_flag ServeHTTPRuntime c = ServeHTTP c"
| "shape_flag TurnRuntime c = (\<not> PTY c \<and> \<not> StreamingStdio c \<and> \<not> JsonRpcStdio c \<and> \<not> ServeHTTP c)"


section \<open>Three flags\<close>

text \<open>A turn, the run of the first \<open>sync.Once\<close> of \<open>Stop\<close>, and that of the second.\<close>

fun adapter_in_turn :: "adapter_pc \<Rightarrow> bool" where
  "adapter_in_turn (AsLock d) = True"
| "adapter_in_turn (AsArgs d) = True"
| "adapter_in_turn (AsTurnID args) = True"
| "adapter_in_turn (AsProcessing args) = True"
| "adapter_in_turn (AsRun args) = True"
| "adapter_in_turn AsRunning = True"
| "adapter_in_turn (AsIdle r) = True"
| "adapter_in_turn (AsUnlock r) = True"
| "adapter_in_turn (AsRelease r) = True"
| "adapter_in_turn AsPanicked = True"
| "adapter_in_turn pc = False"

definition in_stop_once :: "adapter_pc \<Rightarrow> bool" where
  "in_stop_once pc \<longleftrightarrow> pc \<in> {AsStopState, AsStopClose, AsStopOnceEnd, AsStopPanicked}"

definition in_done_once :: "adapter_pc \<Rightarrow> bool" where
  "in_done_once pc \<longleftrightarrow> pc \<in> {AsClean, AsDoneOnceEnd}"

interpretation adapter_turn: turn_flag adapter_step adapter_in_turn asTurnInFlight
proof
  fix ev pc s pc' s'
  assume st: "adapter_step ev pc s = Some (pc', s')"
  show "\<not> asTurnInFlight s \<and> asTurnInFlight s'" if "\<not> adapter_in_turn pc" "adapter_in_turn pc'"
    using st that by (auto simp: adapter_step_defs split: adapter_splits)
  show "asTurnInFlight s' = asTurnInFlight s" if "\<not> adapter_in_turn pc" "\<not> adapter_in_turn pc'"
    using st that by (auto simp: adapter_step_defs split: adapter_splits)
  show "asTurnInFlight s' = asTurnInFlight s" if "adapter_in_turn pc" "adapter_in_turn pc'"
    using st that by (auto simp: adapter_step_defs adapter_event_sel split: adapter_splits)
  show "\<not> asTurnInFlight s'" if "adapter_in_turn pc" "\<not> adapter_in_turn pc'"
    using st that by (auto simp: adapter_step_defs split: adapter_splits)
qed

interpretation adapter_stop: turn_flag adapter_step in_stop_once "\<lambda>s. asStopOnce s = OnceRunning"
proof
  fix ev pc s pc' s'
  assume st: "adapter_step ev pc s = Some (pc', s')"
  show "\<not> asStopOnce s = OnceRunning \<and> asStopOnce s' = OnceRunning" if "\<not> in_stop_once pc" "in_stop_once pc'"
    using st that by (auto simp: adapter_step_defs in_stop_once_def split: adapter_splits)
  show "(asStopOnce s' = OnceRunning) = (asStopOnce s = OnceRunning)" if "\<not> in_stop_once pc" "\<not> in_stop_once pc'"
    using st that by (auto simp: adapter_step_defs in_stop_once_def adapter_event_sel split: adapter_splits)
  show "(asStopOnce s' = OnceRunning) = (asStopOnce s = OnceRunning)" if "in_stop_once pc" "in_stop_once pc'"
    using st that by (auto simp: adapter_step_defs in_stop_once_def split: adapter_splits)
  show "\<not> asStopOnce s' = OnceRunning" if "in_stop_once pc" "\<not> in_stop_once pc'"
    using st that by (auto simp: adapter_step_defs in_stop_once_def split: adapter_splits)
qed

interpretation adapter_done: turn_flag adapter_step in_done_once "\<lambda>s. asDoneOnce s = OnceRunning"
proof
  fix ev pc s pc' s'
  assume st: "adapter_step ev pc s = Some (pc', s')"
  show "\<not> asDoneOnce s = OnceRunning \<and> asDoneOnce s' = OnceRunning" if "\<not> in_done_once pc" "in_done_once pc'"
    using st that by (auto simp: adapter_step_defs in_done_once_def split: adapter_splits)
  show "(asDoneOnce s' = OnceRunning) = (asDoneOnce s = OnceRunning)" if "\<not> in_done_once pc" "\<not> in_done_once pc'"
    using st that by (auto simp: adapter_step_defs in_done_once_def adapter_event_sel split: adapter_splits)
  show "(asDoneOnce s' = OnceRunning) = (asDoneOnce s = OnceRunning)" if "in_done_once pc" "in_done_once pc'"
    using st that by (auto simp: adapter_step_defs in_done_once_def split: adapter_splits)
  show "\<not> asDoneOnce s' = OnceRunning" if "in_done_once pc" "\<not> in_done_once pc'"
    using st that by (auto simp: adapter_step_defs in_done_once_def split: adapter_splits)
qed

section \<open>Invariants\<close>

definition started :: "adapter_pc list \<Rightarrow> adapter_session \<Rightarrow> bool" where
  "started ts0 s0 \<longleftrightarrow> (\<exists>cfg behav ad dir opts events. s0 = new_adapter_session cfg behav ad dir opts events) \<and>
     (\<forall>pc \<in> set ts0. adapter_start pc)"

lemma adapter_start_cases: "adapter_start pc \<Longrightarrow> (\<exists>d. pc = AsSend d) \<or> pc = AsStop"
  by (cases pc) simp_all

lemma started_outside:
  assumes "started ts0 s0"
  shows "\<forall>pc \<in> set ts0. \<not> adapter_in_turn pc" "\<forall>pc \<in> set ts0. \<not> in_stop_once pc" "\<forall>pc \<in> set ts0. \<not> in_done_once pc"
    "count_in adapter_in_turn ts0 = of_bool (asTurnInFlight s0)"
    "count_in in_stop_once ts0 = of_bool (asStopOnce s0 = OnceRunning)"
    "count_in in_done_once ts0 = of_bool (asDoneOnce s0 = OnceRunning)"
proof -
  have out: "\<forall>pc \<in> set ts0. \<not> adapter_in_turn pc \<and> \<not> in_stop_once pc \<and> \<not> in_done_once pc"
    using assms adapter_start_cases unfolding started_def by (fastforce simp: in_stop_once_def in_done_once_def)
  then show "\<forall>pc \<in> set ts0. \<not> adapter_in_turn pc" "\<forall>pc \<in> set ts0. \<not> in_stop_once pc" "\<forall>pc \<in> set ts0. \<not> in_done_once pc"
    by blast+
  have "filter adapter_in_turn ts0 = []" "filter in_stop_once ts0 = []" "filter in_done_once ts0 = []"
    using out by (auto simp: filter_empty_conv)
  moreover have "\<not> asTurnInFlight s0" "asStopOnce s0 = OnceNew" "asDoneOnce s0 = OnceNew"
    using assms by (auto simp: started_def new_adapter_session_def)
  ultimately show "count_in adapter_in_turn ts0 = of_bool (asTurnInFlight s0)"
    "count_in in_stop_once ts0 = of_bool (asStopOnce s0 = OnceRunning)"
    "count_in in_done_once ts0 = of_bool (asDoneOnce s0 = OnceRunning)"
    by (simp_all add: count_in_def)
qed

lemma start_outside:
  assumes "adapter_start pc"
  shows "\<not> adapter_in_turn pc" "\<not> in_stop_once pc" "\<not> in_done_once pc"
  using adapter_start_cases[OF assms] by (auto simp: in_stop_once_def in_done_once_def)

text \<open>The turn lock is held exactly within the locked part of the turn.\<close>

fun holds_turn_lock :: "adapter_pc \<Rightarrow> bool" where
  "holds_turn_lock (AsLock d) = False"
| "holds_turn_lock (AsRelease r) = False"
| "holds_turn_lock pc = adapter_in_turn pc"

lemma turn_lock_inv:
  assumes "adapter_reach ts0 s0 ts s" "started ts0 s0"
  shows "(\<not> asTurnInFlight s \<longrightarrow> \<not> asTurnMu s) \<and> (\<forall>pc \<in> set ts. adapter_in_turn pc \<longrightarrow> holds_turn_lock pc = asTurnMu s)"
proof (rule adapter_turn.turn_invariant[where P = "\<lambda>s. \<not> asTurnInFlight s \<longrightarrow> \<not> asTurnMu s" and
      G = "\<lambda>s pc. holds_turn_lock pc = asTurnMu s", OF assms(1) started_outside(4)[OF assms(2)] start_outside(1)])
  show "\<not> asTurnInFlight s0 \<longrightarrow> \<not> asTurnMu s0" using assms(2) by (auto simp: started_def new_adapter_session_def)
  show "\<forall>pc \<in> set ts0. adapter_in_turn pc \<longrightarrow> holds_turn_lock pc = asTurnMu s0" using started_outside(1)[OF assms(2)] by blast
next
  fix ev pc s pc' s'
  assume a: "\<not> asTurnInFlight s \<longrightarrow> \<not> asTurnMu s" "\<not> adapter_in_turn pc" "adapter_step ev pc s = Some (pc', s')"
  have "asTurnMu s' = asTurnMu s" using a(2,3) by (auto simp: adapter_step_defs split: adapter_splits)
  moreover have "(asTurnInFlight s \<longrightarrow> asTurnInFlight s') \<and>
      (adapter_in_turn pc' \<longrightarrow> \<not> asTurnInFlight s \<and> \<not> holds_turn_lock pc')"
    using a(2,3) by (auto simp: adapter_step_defs split: adapter_splits)
  ultimately show "(\<not> asTurnInFlight s' \<longrightarrow> \<not> asTurnMu s') \<and>
      (adapter_in_turn pc' \<longrightarrow> holds_turn_lock pc' = asTurnMu s') \<and>
      (\<forall>qc. adapter_in_turn qc \<longrightarrow> holds_turn_lock qc = asTurnMu s \<longrightarrow> holds_turn_lock qc = asTurnMu s')"
    using a(1) by auto
next
  fix ev pc s pc' s'
  assume a: "\<not> asTurnInFlight s \<longrightarrow> \<not> asTurnMu s" "adapter_in_turn pc" "asTurnInFlight s" "holds_turn_lock pc = asTurnMu s"
    "adapter_step ev pc s = Some (pc', s')"
  show "(\<not> asTurnInFlight s' \<longrightarrow> \<not> asTurnMu s') \<and> (adapter_in_turn pc' \<longrightarrow> holds_turn_lock pc' = asTurnMu s')"
    using a by (auto simp: adapter_step_defs adapter_event_sel split: adapter_splits)
qed

text \<open>C28.
  One turn at a time.  Whatever the interleaving of \<open>SendInput\<close> and \<open>Stop\<close> calls with
  the runner's events, the flag \<open>turnInFlight\<close> is on exactly while one goroutine is
  between its compare-and-swap and the deferred store, no two are, hence at most one
  process of the runner is active, and the mutex \<open>turnMu\<close> behind the flag is always free
  when it is taken, so that no \<open>SendInput\<close> ever waits for another.
\<close>

theorem adapter_one_turn:
  assumes "adapter_reach ts0 s0 ts s" "started ts0 s0"
  shows "asTurnInFlight s = (\<exists>pc \<in> set ts. adapter_in_turn pc) \<and>
     (\<forall>i < length ts. \<forall>j < length ts. adapter_in_turn (ts ! i) \<longrightarrow> adapter_in_turn (ts ! j) \<longrightarrow> i = j) \<and>
     (\<forall>d. AsLock d \<in> set ts \<longrightarrow> adapter_step AinGo (AsLock d) s = Some (AsArgs d, s\<lparr>asTurnMu := True\<rparr>))"
proof (intro conjI allI impI)
  note c = started_outside(4)[OF assms(2)]
  show "asTurnInFlight s = (\<exists>pc \<in> set ts. adapter_in_turn pc)"
    by (rule adapter_turn.flag_iff[OF assms(1) c start_outside(1)])
  show "i = j" if "i < length ts" "j < length ts" "adapter_in_turn (ts ! i)" "adapter_in_turn (ts ! j)" for i j
    by (rule adapter_turn.exclusive[OF assms(1) c start_outside(1) that])
  show "adapter_step AinGo (AsLock d) s = Some (AsArgs d, s\<lparr>asTurnMu := True\<rparr>)" if "AsLock d \<in> set ts" for d
  proof -
    have "\<not> asTurnMu s" using turn_lock_inv[OF assms] that by fastforce
    then show ?thesis by (simp add: adapter_step_defs)
  qed
qed

text \<open>The first \<open>sync.Once\<close> of \<open>Stop\<close>.\<close>

definition stop_state :: "adapter_session \<Rightarrow> bool" where
  "stop_state s \<longleftrightarrow> (asAlive s \<longleftrightarrow> asStopOnce s = OnceNew) \<and>
     (asStopClosed s \<longrightarrow> asStopOnce s \<noteq> OnceNew) \<and> (asStopOnce s = OnceDone \<longrightarrow> asStopClosed s)"

definition stop_fact :: "adapter_session \<Rightarrow> adapter_pc \<Rightarrow> bool" where
  "stop_fact s pc \<longleftrightarrow> pc \<noteq> AsStopPanicked \<and> (asStopClosed s \<longleftrightarrow> pc = AsStopOnceEnd)"

lemma stop_inv:
  assumes "adapter_reach ts0 s0 ts s" "started ts0 s0"
  shows "stop_state s \<and> (\<forall>pc \<in> set ts. in_stop_once pc \<longrightarrow> stop_fact s pc)"
proof (rule adapter_stop.turn_invariant[where P = stop_state and G = stop_fact, OF assms(1) started_outside(5)[OF assms(2)] start_outside(2)])
  show "stop_state s0" using assms(2) by (auto simp: started_def new_adapter_session_def stop_state_def)
  show "\<forall>pc \<in> set ts0. in_stop_once pc \<longrightarrow> stop_fact s0 pc" using started_outside(2)[OF assms(2)] by blast
next
  fix ev pc s pc' s'
  assume a: "stop_state s" "\<not> in_stop_once pc" "adapter_step ev pc s = Some (pc', s')"
  have "asStopClosed s' = asStopClosed s" "stop_state s'"
    using a by (cases pc; cases ev; auto simp: adapter_step_defs adapter_event_sel stop_state_def in_stop_once_def
        split: option.splits once.splits if_splits)+
  moreover have "in_stop_once pc' \<longrightarrow> pc' = AsStopState \<and> asStopOnce s = OnceNew"
    using a(2,3) by (auto simp: adapter_step_defs in_stop_once_def split: adapter_splits)
  ultimately show "stop_state s' \<and> (in_stop_once pc' \<longrightarrow> stop_fact s' pc') \<and>
      (\<forall>qc. in_stop_once qc \<longrightarrow> stop_fact s qc \<longrightarrow> stop_fact s' qc)"
    using a(1) by (auto simp: stop_fact_def stop_state_def)
next
  fix ev pc s pc' s'
  assume "stop_state s" "in_stop_once pc" "asStopOnce s = OnceRunning" "stop_fact s pc" "adapter_step ev pc s = Some (pc', s')"
  then show "stop_state s' \<and> (in_stop_once pc' \<longrightarrow> stop_fact s' pc')"
    by (auto simp: adapter_step_defs stop_state_def stop_fact_def in_stop_once_def split: adapter_splits)
qed

text \<open>The second one.\<close>

definition boot_dirs :: "adapter_session \<Rightarrow> string list" where
  "boot_dirs s = (if asBootDir s = '''' then [] else [asBootDir s])"

definition done_state :: "adapter_session \<Rightarrow> bool" where
  "done_state s \<longleftrightarrow> (asDoneClosed s \<longleftrightarrow> asDoneOnce s \<noteq> OnceNew) \<and> (asDoneOnce s = OnceNew \<longrightarrow> asRemoved s = []) \<and>
     (asDoneOnce s = OnceDone \<longrightarrow> asRemoved s = boot_dirs s) \<and> (asRemoved s = [] \<or> asRemoved s = boot_dirs s)"

definition done_fact :: "adapter_session \<Rightarrow> adapter_pc \<Rightarrow> bool" where
  "done_fact s pc \<longleftrightarrow> asRemoved s = (if pc = AsClean then [] else boot_dirs s)"

lemma done_inv:
  assumes "adapter_reach ts0 s0 ts s" "started ts0 s0"
  shows "done_state s \<and> (\<forall>pc \<in> set ts. in_done_once pc \<longrightarrow> done_fact s pc)"
proof (rule adapter_done.turn_invariant[where P = done_state and G = done_fact, OF assms(1) started_outside(6)[OF assms(2)] start_outside(3)])
  show "done_state s0" using assms(2) by (auto simp: started_def new_adapter_session_def done_state_def)
  show "\<forall>pc \<in> set ts0. in_done_once pc \<longrightarrow> done_fact s0 pc" using started_outside(3)[OF assms(2)] by blast
next
  fix ev pc s pc' s'
  assume a: "done_state s" "\<not> in_done_once pc" "adapter_step ev pc s = Some (pc', s')"
  have same: "asRemoved s' = asRemoved s" "asBootDir s' = asBootDir s"
    using a(2,3) by (auto simp: adapter_step_defs adapter_event_sel in_done_once_def split: adapter_splits)
  have "asDoneClosed s' = asDoneClosed s \<and> asDoneOnce s' = asDoneOnce s \<or>
      asDoneOnce s = OnceNew \<and> asDoneOnce s' = OnceRunning \<and> asDoneClosed s'"
    using a(2,3) by (auto simp: adapter_step_defs adapter_event_sel in_done_once_def split: adapter_splits)
  moreover have "boot_dirs s' = boot_dirs s" using same(2) by (simp add: boot_dirs_def)
  ultimately have "done_state s'" using a(1) same(1) unfolding done_state_def by auto
  moreover have "in_done_once pc' \<longrightarrow> pc' = AsClean \<and> asDoneOnce s = OnceNew"
    using a(2,3) by (auto simp: adapter_step_defs in_done_once_def split: adapter_splits)
  ultimately show "done_state s' \<and> (in_done_once pc' \<longrightarrow> done_fact s' pc') \<and>
      (\<forall>qc. in_done_once qc \<longrightarrow> done_fact s qc \<longrightarrow> done_fact s' qc)"
    using a(1) same by (auto simp: done_fact_def done_state_def boot_dirs_def)
next
  fix ev pc s pc' s'
  assume "done_state s" "in_done_once pc" "asDoneOnce s = OnceRunning" "done_fact s pc" "adapter_step ev pc s = Some (pc', s')"
  then show "done_state s' \<and> (in_done_once pc' \<longrightarrow> done_fact s' pc')"
    by (auto simp: adapter_step_defs done_state_def done_fact_def in_done_once_def boot_dirs_def split: adapter_splits)
qed

definition stop_progress :: "adapter_session \<Rightarrow> adapter_pc \<Rightarrow> bool" where
  "stop_progress s pc \<longleftrightarrow> pc \<noteq> AsDonePanicked \<and> (pc = AsStopReturned \<longrightarrow> asDoneOnce s = OnceDone) \<and>
     (pc \<in> {AsClean, AsDoneOnceEnd} \<longrightarrow> asDoneOnce s \<noteq> OnceNew) \<and>
     (pc \<in> {AsDoneClose, AsClean, AsDoneOnceEnd, AsStopReturned} \<longrightarrow> asStopOnce s = OnceDone)"

lemma stop_progress_inv:
  assumes "adapter_reach ts0 s0 ts s" "started ts0 s0"
  shows "(asDoneClosed s \<longleftrightarrow> asDoneOnce s \<noteq> OnceNew) \<and> (\<forall>pc \<in> set ts. stop_progress s pc)"
proof (rule threads_invariant[where P = "\<lambda>s. asDoneClosed s \<longleftrightarrow> asDoneOnce s \<noteq> OnceNew" and Q = stop_progress, OF assms(1)])
  show "asDoneClosed s0 \<longleftrightarrow> asDoneOnce s0 \<noteq> OnceNew" using assms(2) by (auto simp: started_def new_adapter_session_def)
  show "\<forall>pc \<in> set ts0. stop_progress s0 pc"
    using assms(2) adapter_start_cases unfolding started_def by (fastforce simp: stop_progress_def)
  show "stop_progress s pc" if "adapter_start pc" for pc s
    using adapter_start_cases[OF that] by (auto simp: stop_progress_def)
next
  fix ev pc s pc' s'
  assume "asDoneClosed s \<longleftrightarrow> asDoneOnce s \<noteq> OnceNew" "stop_progress s pc" "adapter_step ev pc s = Some (pc', s')"
  then show "(asDoneClosed s' \<longleftrightarrow> asDoneOnce s' \<noteq> OnceNew) \<and> stop_progress s' pc'"
    by (auto simp: adapter_step_defs adapter_event_sel stop_progress_def split: adapter_splits)
next
  fix ev pc s pc' s' qc
  assume a: "stop_progress s pc" "stop_progress s qc" "adapter_step ev pc s = Some (pc', s')"
  have "(asDoneOnce s = OnceDone \<longrightarrow> asDoneOnce s' = OnceDone) \<and> (asDoneOnce s \<noteq> OnceNew \<longrightarrow> asDoneOnce s' \<noteq> OnceNew) \<and>
      (asStopOnce s = OnceDone \<longrightarrow> asStopOnce s' = OnceDone)"
    using a(1,3) by (auto simp: adapter_step_defs adapter_event_sel stop_progress_def split: adapter_splits)
  then show "stop_progress s' qc" using a(2) by (auto simp: stop_progress_def)
qed

text \<open>C29.
  \<open>Stop\<close>.  Whatever the interleaving, no channel is closed twice, the boot directory is
  removed at most once, and when any \<open>Stop\<close> call has returned, the session is dead for
  good, the stop channel is closed, \<open>Wait\<close> returns, and the boot directory (if there is
  one) has been removed exactly once.
\<close>

theorem adapter_stop_exactly_once:
  assumes "adapter_reach ts0 s0 ts s" "started ts0 s0"
  shows "AsStopPanicked \<notin> set ts \<and> AsDonePanicked \<notin> set ts \<and>
     (asRemoved s = [] \<or> asRemoved s = boot_dirs s) \<and>
     (AsStopReturned \<in> set ts \<longrightarrow>
        \<not> asAlive s \<and> asStopClosed s \<and> adapterWait s \<noteq> None \<and> asRemoved s = boot_dirs s)"
proof (intro conjI impI)
  note st = stop_inv[OF assms] and dn = done_inv[OF assms] and pr = stop_progress_inv[OF assms]
  show "AsStopPanicked \<notin> set ts" using st by (auto simp: stop_fact_def in_stop_once_def)
  show "AsDonePanicked \<notin> set ts" using pr by (auto simp: stop_progress_def)
  show "asRemoved s = [] \<or> asRemoved s = boot_dirs s" using dn by (simp add: done_state_def)
  assume "AsStopReturned \<in> set ts"
  then have o: "asDoneOnce s = OnceDone" "asStopOnce s = OnceDone" using pr by (auto simp: stop_progress_def)
  show "\<not> asAlive s" "asStopClosed s" using st o(2) by (auto simp: stop_state_def)
  show "adapterWait s \<noteq> None" "asRemoved s = boot_dirs s" using dn o(1) by (auto simp: done_state_def adapterWait_def)
qed

section \<open>One turn\<close>

definition session_ids :: "runner_event list \<Rightarrow> string list" where
  "session_ids evs = concat (map (\<lambda>e. case e of
     RunProvider (Some pe) \<Rightarrow> if leType pe = EventSessionID \<and> leSessionID pe \<noteq> '''' then [leSessionID pe] else []
   | _ \<Rightarrow> []) evs)"

definition encoded :: "runner_event list \<Rightarrow> bytes list" where
  "encoded evs = concat (map (\<lambda>e. case e of
     RunProvider (Some pe) \<Rightarrow> (case encodeStreamEvent pe of None \<Rightarrow> [] | Some l \<Rightarrow> [l]) | _ \<Rightarrow> []) evs)"

fun pid_after :: "runner_event \<Rightarrow> int \<Rightarrow> int" where
  "pid_after (RunStarted (Some p)) q = int32 p"
| "pid_after RunExited q = 0"
| "pid_after RunTimeout q = 0"
| "pid_after e q = q"

definition adapter_open_events :: "adapter_session \<Rightarrow> bool" where
  "adapter_open_events s \<longleftrightarrow> (\<forall>c. asEvents s = Some c \<longrightarrow> \<not> chClosed c)"

text \<open>What the events of a run leave alone.\<close>

definition same_turn :: "adapter_session \<Rightarrow> adapter_session \<Rightarrow> bool" where
  "same_turn s s' \<longleftrightarrow> asRuns s' = asRuns s \<and> asTurnID s' = asTurnID s \<and> asExitCode s' = asExitCode s \<and> asOpts s' = asOpts s"

lemma handle_event_run:
  assumes "adapter_open_events s"
  shows "\<exists>s'. handleRunnerEvent e s = Some s' \<and> same_turn s s' \<and> adapter_open_events s' \<and>
     asSessionID s' = last (asSessionID s # session_ids [e]) \<and>
     asSessionIDs s' = asSessionIDs s @ (if optOnSessionID (asOpts s) then session_ids [e] else []) \<and>
     asOut s' = asOut s @ (if optFanout (asOpts s) \<noteq> None then encoded [e] else []) \<and>
     asPID s' = pid_after e (asPID s)"
proof (cases e)
  case (RunStarted p)
  then show ?thesis using assms
    by (cases p) (simp_all add: handleRunnerEvent_def same_turn_def adapter_open_events_def session_ids_def encoded_def)
next
  case (RunProvider p)
  show ?thesis
  proof (cases p)
    case None
    then show ?thesis using assms RunProvider
      by (simp add: handleRunnerEvent_def same_turn_def session_ids_def encoded_def)
  next
    case (Some pe)
    let ?s1 = "observe_session_id pe s"
    have o: "asEvents ?s1 = asEvents s" "asOpts ?s1 = asOpts s" "asRuns ?s1 = asRuns s" "asTurnID ?s1 = asTurnID s"
      "asExitCode ?s1 = asExitCode s" "asOut ?s1 = asOut s" "asPID ?s1 = asPID s"
      "asSessionID ?s1 = last (asSessionID s # session_ids [e])"
      "asSessionIDs ?s1 = asSessionIDs s @ (if optOnSessionID (asOpts s) then session_ids [e] else [])"
      by (simp_all add: observe_session_id_def session_ids_def RunProvider Some)
    have pa: "pid_after e q = q" for q by (simp add: RunProvider)
    obtain ch where ch: "tryEventFanout (asEvents s) pe = Some ch" "\<forall>c. ch = Some c \<longrightarrow> \<not> chClosed c"
    proof (cases "asEvents s")
      case None
      then show ?thesis using that[of None] by (simp add: tryEventFanout_def)
    next
      case (Some c)
      then show ?thesis
        using assms that[of "Some (if length (chQueue c) < chCap c then c\<lparr>chQueue := chQueue c @ [pe]\<rparr> else c)"]
        by (cases "length (chQueue c) < chCap c") (simp_all add: adapter_open_events_def tryEventFanout_def chan_try_send_def)
    qed
    have h: "handleRunnerEvent e s = Some (adapter_fan_out pe (?s1\<lparr>asEvents := ch\<rparr>))"
      using ch(1) o(1) by (simp add: handleRunnerEvent_def RunProvider Some Let_def)
    have f: "asOut (adapter_fan_out pe u) = asOut u @ (if optFanout (asOpts u) \<noteq> None then encoded [e] else [])"
      "asEvents (adapter_fan_out pe u) = asEvents u" "asOpts (adapter_fan_out pe u) = asOpts u"
      "asRuns (adapter_fan_out pe u) = asRuns u" "asTurnID (adapter_fan_out pe u) = asTurnID u"
      "asExitCode (adapter_fan_out pe u) = asExitCode u" "asPID (adapter_fan_out pe u) = asPID u"
      "asSessionID (adapter_fan_out pe u) = asSessionID u" "asSessionIDs (adapter_fan_out pe u) = asSessionIDs u" for u
      by (simp_all add: adapter_fan_out_def encoded_def RunProvider Some split: option.split)
    show ?thesis
      by (rule exI[of _ "adapter_fan_out pe (?s1\<lparr>asEvents := ch\<rparr>)"])
        (use ch(2) in \<open>simp add: h f o pa same_turn_def adapter_open_events_def\<close>)
  qed
qed (use assms in \<open>simp_all add: handleRunnerEvent_def same_turn_def adapter_open_events_def session_ids_def encoded_def\<close>)

lemma session_ids_Cons: "session_ids (e # evs) = session_ids [e] @ session_ids evs"
  by (simp add: session_ids_def)

lemma encoded_Cons: "encoded (e # evs) = encoded [e] @ encoded evs"
  by (simp add: encoded_def)

lemma last_Cons_append: "last (last (a # xs) # ys) = last (a # xs @ ys)"
  by (cases ys) simp_all

lemma run_events:
  assumes "adapter_open_events s"
  shows "\<exists>s'. inputs_run adapter_step (map AinRunner evs) (AsRunning, s) = Some (AsRunning, s') \<and> same_turn s s' \<and>
     asSessionID s' = last (asSessionID s # session_ids evs) \<and>
     asSessionIDs s' = asSessionIDs s @ (if optOnSessionID (asOpts s) then session_ids evs else []) \<and>
     asOut s' = asOut s @ (if optFanout (asOpts s) \<noteq> None then encoded evs else []) \<and>
     asPID s' = fold pid_after evs (asPID s)"
  using assms
proof (induction evs arbitrary: s)
  case Nil
  show ?case by (simp add: same_turn_def session_ids_def encoded_def)
next
  case (Cons e evs)
  obtain u where u: "handleRunnerEvent e s = Some u" "same_turn s u" "adapter_open_events u"
    "asSessionID u = last (asSessionID s # session_ids [e])"
    "asSessionIDs u = asSessionIDs s @ (if optOnSessionID (asOpts s) then session_ids [e] else [])"
    "asOut u = asOut s @ (if optFanout (asOpts s) \<noteq> None then encoded [e] else [])" "asPID u = pid_after e (asPID s)"
    using handle_event_run[OF Cons.prems] by blast
  obtain s' where s': "inputs_run adapter_step (map AinRunner evs) (AsRunning, u) = Some (AsRunning, s')" "same_turn u s'"
    "asSessionID s' = last (asSessionID u # session_ids evs)"
    "asSessionIDs s' = asSessionIDs u @ (if optOnSessionID (asOpts u) then session_ids evs else [])"
    "asOut s' = asOut u @ (if optFanout (asOpts u) \<noteq> None then encoded evs else [])"
    "asPID s' = fold pid_after evs (asPID u)"
    using Cons.IH[OF u(3)] by blast
  have opts: "asOpts u = asOpts s" using u(2) by (simp add: same_turn_def)
  have "adapter_step (AinRunner e) AsRunning s = Some (AsRunning, u)" using u(1) by (simp add: adapter_step_defs)
  moreover have "same_turn s s'" using u(2) s'(2) by (simp add: same_turn_def)
  moreover have "asSessionID s' = last (asSessionID s # session_ids (e # evs))"
    unfolding s'(3) u(4) session_ids_Cons[of e evs] by (rule last_Cons_append)
  ultimately show ?case
    using s' u opts by (auto simp: session_ids_Cons[of e evs] encoded_Cons[of e evs])
qed

text \<open>The sections of a turn before and after the run.\<close>

definition adapter_before :: "string \<Rightarrow> adapter_input list" where
  "adapter_before i = [AinGo, AinGo, AinGo, AinGo, AinID i, AinGo, AinGo]"

definition adapter_after :: "go_error option \<Rightarrow> adapter_input list" where
  "adapter_after r = [AinRunEnd r, AinGo, AinGo, AinGo]"

lemma adapter_before_run:
  assumes "asAlive s" "\<not> asTurnInFlight s" "\<not> asTurnMu s"
  shows "inputs_run adapter_step (adapter_before i) (AsSend d, s) =
     Some (AsRunning, s\<lparr>asTurnInFlight := True, asTurnMu := True, asTurnID := i, asState := LiveStateProcessing,
       asRuns := asRuns s @ [run_config (asBuildArgs s d (asSessionID s)) s]\<rparr>)"
  using assms by (simp add: adapter_before_def adapter_step_defs run_config_def)

lemma adapter_after_run:
  "inputs_run adapter_step (adapter_after r) (AsRunning, s) =
     Some (AsReturned r, s\<lparr>asExitCode := (if r = None then asExitCode s else 1), asState := LiveStateIdle,
       asTurnMu := False, asTurnInFlight := False\<rparr>)"
  by (cases r) (simp_all add: adapter_after_def adapter_step_defs)

text \<open>C30.
  The outcome of a turn that no other call disturbs.  It makes exactly one run, with
  the session's adapter, workdir and environment and the arguments built from the
  input and the provider session id known at its start (the preset on the first turn,
  afterwards the last id observed); the fanout gets the encoding of every provider
  event that has one, in order; the id of the last session-id event is kept for the
  next turn, and \<open>OnSessionID\<close> is called for every such event; the call returns the
  runner's error, which also makes the exit code 1; the session is idle again, all locks
  are free, and the live pid is what the last process event of the runner left.
\<close>

theorem adapter_turn_outcome:
  assumes "asAlive s" "\<not> asTurnInFlight s" "\<not> asTurnMu s" "adapter_open_events s" "n < length ts" "ts ! n = AsSend d"
  shows "\<exists>s'. threads_run adapter_step (map (Move n) (adapter_before i @ map AinRunner evs @ adapter_after r)) (ts, s) =
        Some (ts[n := AsReturned r], s') \<and>
     asRuns s' = asRuns s @ [run_config (asBuildArgs s d (asSessionID s)) s] \<and>
     asSessionID s' = last (asSessionID s # session_ids evs) \<and>
     asSessionIDs s' = asSessionIDs s @ (if optOnSessionID (asOpts s) then session_ids evs else []) \<and>
     asOut s' = asOut s @ (if optFanout (asOpts s) \<noteq> None then encoded evs else []) \<and>
     asPID s' = fold pid_after evs (asPID s) \<and> asTurnID s' = i \<and>
     asExitCode s' = (if r = None then asExitCode s else 1) \<and>
     asState s' = LiveStateIdle \<and> \<not> asTurnInFlight s' \<and> \<not> asTurnMu s'"
proof -
  let ?u = "s\<lparr>asTurnInFlight := True, asTurnMu := True, asTurnID := i, asState := LiveStateProcessing,
       asRuns := asRuns s @ [run_config (asBuildArgs s d (asSessionID s)) s]\<rparr>"
  have "adapter_open_events ?u" using assms(4) by (simp add: adapter_open_events_def)
  then obtain v where v: "inputs_run adapter_step (map AinRunner evs) (AsRunning, ?u) = Some (AsRunning, v)" "same_turn ?u v"
    "asSessionID v = last (asSessionID ?u # session_ids evs)"
    "asSessionIDs v = asSessionIDs ?u @ (if optOnSessionID (asOpts ?u) then session_ids evs else [])"
    "asOut v = asOut ?u @ (if optFanout (asOpts ?u) \<noteq> None then encoded evs else [])"
    "asPID v = fold pid_after evs (asPID ?u)"
    using run_events by blast
  let ?w = "v\<lparr>asExitCode := (if r = None then asExitCode v else 1), asState := LiveStateIdle,
       asTurnMu := False, asTurnInFlight := False\<rparr>"
  have "inputs_run adapter_step (adapter_before i @ map AinRunner evs @ adapter_after r) (ts ! n, s) = Some (AsReturned r, ?w)"
    unfolding assms(6) inputs_run_append adapter_before_run[OF assms(1-3)] option.case v(1) adapter_after_run ..
  note run = inputs_run_threads[OF assms(5) this]
  show ?thesis by (rule exI[of _ ?w]) (use run v(2-6) in \<open>simp add: same_turn_def\<close>)
qed

section \<open>Stop during a turn\<close>

text \<open>The sections of one \<open>Stop\<close> call.\<close>

definition stop_inputs :: "adapter_input list" where
  "stop_inputs = [AinGo, AinGo, AinGo, AinGo, AinGo, AinGo, AinGo]"

lemma stop_run:
  assumes "asStopOnce s = OnceNew" "asDoneOnce s = OnceNew" "\<not> asStopClosed s" "\<not> asDoneClosed s"
  shows "inputs_run adapter_step stop_inputs (AsStop, s) =
     Some (AsStopReturned, s\<lparr>asStopOnce := OnceDone, asAlive := False, asState := LiveStateStopped, asStopClosed := True,
       asDoneOnce := OnceDone, asDoneClosed := True, asRemoved := asRemoved s @ boot_dirs s\<rparr>)"
  using assms by (simp add: stop_inputs_def adapter_step_defs boot_dirs_def)


section \<open>Examples\<close>

definition demo_turn_adapter :: adapter where
  "demo_turn_adapter = \<lparr>adName = ''claude'', adBootDirSpec = None, adClaude = None\<rparr>"

definition demo_turn_child :: child_adapter where
  "demo_turn_child = \<lparr>caName = ''claude'', caDetect = Some ''/bin/claude'',
     caBuildArgs = (\<lambda>p sp sid. if sid = '''' then [''-p'', p] else [''-p'', p, ''--resume'', sid]),
     caParseLine = (\<lambda>l. None), caParseLineEvents = None\<rparr>"

definition demo_turn_config :: adapter_config where
  "demo_turn_config = \<lparr>acID = ''c'', acKind = ''cli'', acAdapter = Some demo_turn_adapter,
     acCaps = \<lparr>PTY = False, StreamingStdio = False, JsonRpcStdio = False, ServeHTTP = False, CapResize = False,
       ProviderSessionID = True, CheckpointResume = True, BinaryRequired = True\<rparr>,
     acBuildArgs = None, acWaitDelay = 0\<rparr>"

definition demo_turn_session :: adapter_session where
  "demo_turn_session = new_adapter_session demo_turn_config (\<lambda>a. demo_turn_child) demo_turn_adapter ''/tmp/boot'' plant_options None"

lemma demo_turn_sel:
  "asAlive demo_turn_session" "\<not> asTurnInFlight demo_turn_session" "\<not> asTurnMu demo_turn_session"
  "adapter_open_events demo_turn_session" "asStopOnce demo_turn_session = OnceNew" "asDoneOnce demo_turn_session = OnceNew"
  "\<not> asStopClosed demo_turn_session" "\<not> asDoneClosed demo_turn_session" "asSessionID demo_turn_session = ''''"
  "asRuns demo_turn_session = []" "asBootDir demo_turn_session = ''/tmp/boot''" "asRemoved demo_turn_session = []"
  "asBuildArgs demo_turn_session d '''' = [''-p'', d]" "asPID demo_turn_session = 0"
  by (simp_all add: demo_turn_session_def new_adapter_session_def adapter_open_events_def plant_options_def boot_dirs_def
      adapter_build_args_def demo_turn_config_def demo_turn_child_def)

lemma demo_started: "started [] demo_turn_session"
  unfolding started_def demo_turn_session_def by (intro conjI) (blast, simp)

text \<open>The session is stopped while its first turn runs.\<close>

lemma demo_running:
  "\<exists>s. adapter_reach [] demo_turn_session [AsRunning] s \<and> asStopOnce s = OnceNew \<and> asDoneOnce s = OnceNew \<and>
     \<not> asStopClosed s \<and> \<not> asDoneClosed s \<and> asTurnMu s \<and> boot_dirs s = [''/tmp/boot''] \<and> asRemoved s = []"
proof -
  let ?u = "demo_turn_session\<lparr>asTurnInFlight := True, asTurnMu := True, asTurnID := ''t1'', asState := LiveStateProcessing,
       asRuns := asRuns demo_turn_session @ [run_config (asBuildArgs demo_turn_session ''hi'' (asSessionID demo_turn_session)) demo_turn_session]\<rparr>"
  have "inputs_run adapter_step (adapter_before ''t1'') ([AsSend ''hi''] ! 0, demo_turn_session) = Some (AsRunning, ?u)"
    using adapter_before_run[OF demo_turn_sel(1-3)] by simp
  from inputs_run_threads[OF _ this]
  have "threads_run adapter_step (map (Move 0) (adapter_before ''t1'')) ([AsSend ''hi''], demo_turn_session) = Some ([AsRunning], ?u)"
    by simp
  then have run: "threads_run adapter_step (Spawn (AsSend ''hi'') # map (Move 0) (adapter_before ''t1'')) ([], demo_turn_session) = Some ([AsRunning], ?u)"
    by simp
  have "adapter_reach [] demo_turn_session [AsRunning] ?u"
    by (rule threads_run_reach[OF run threads_reach.init]) auto
  then show ?thesis using demo_turn_sel by (intro exI[of _ ?u]) (simp add: boot_dirs_def)
qed

theorem adapter_one_turn_witness:
  "\<exists>s. adapter_reach [] demo_turn_session [AsRunning] s \<and> asTurnInFlight s"
  using demo_running adapter_one_turn[OF _ demo_started] by fastforce

theorem adapter_stop_exactly_once_witness:
  "\<exists>s. adapter_reach [] demo_turn_session [AsStopReturned] s \<and> \<not> asAlive s \<and> asRemoved s = [''/tmp/boot'']"
proof -
  let ?u = "demo_turn_session\<lparr>asStopOnce := OnceDone, asAlive := False, asState := LiveStateStopped, asStopClosed := True,
       asDoneOnce := OnceDone, asDoneClosed := True, asRemoved := asRemoved demo_turn_session @ boot_dirs demo_turn_session\<rparr>"
  have "inputs_run adapter_step stop_inputs ([AsStop] ! 0, demo_turn_session) = Some (AsStopReturned, ?u)"
    using stop_run[OF demo_turn_sel(5-8)] by simp
  from inputs_run_threads[OF _ this]
  have run: "threads_run adapter_step (Spawn AsStop # map (Move 0) stop_inputs) ([], demo_turn_session) = Some ([AsStopReturned], ?u)"
    by simp
  have r: "adapter_reach [] demo_turn_session [AsStopReturned] ?u"
    by (rule threads_run_reach[OF run threads_reach.init]) auto
  have "boot_dirs ?u = [''/tmp/boot'']" using demo_turn_sel(11) by (simp add: boot_dirs_def)
  then have "\<not> asAlive ?u \<and> asRemoved ?u = [''/tmp/boot'']" using adapter_stop_exactly_once[OF r demo_started] by simp
  then show ?thesis using r by blast
qed

theorem adapter_turn_outcome_witness:
  "\<exists>s'. threads_run adapter_step (map (Move 0) (adapter_before ''t1'' @
        map AinRunner [RunStarted (Some 42), RunProvider (Some ((llm_event EventSessionID '''')\<lparr>leSessionID := ''s9''\<rparr>)), RunExited] @
        adapter_after None)) ([AsSend ''hi''], demo_turn_session) = Some ([AsReturned None], s') \<and>
     asSessionID s' = ''s9'' \<and> asPID s' = 0 \<and> map rcfgArgs (asRuns s') = [[''-p'', ''hi'']]"
proof -
  let ?evs = "[RunStarted (Some 42), RunProvider (Some ((llm_event EventSessionID '''')\<lparr>leSessionID := ''s9''\<rparr>)), RunExited]"
  have "session_ids ?evs = [''s9'']" by (simp add: session_ids_def llm_event_def)
  then show ?thesis
    using adapter_turn_outcome[OF demo_turn_sel(1-4), of 0 "[AsSend ''hi'']" "''hi''" "''t1''" ?evs None] demo_turn_sel
    by (auto simp: run_config_def)
qed


end
