(* ===== verification/Serve_Http.thy ===== *)
theory Serve_Http imports Adapter_Session Jsonrpc_Wire begin

text \<open>
  \<open>serve_http_session.go\<close>: a session over a child that serves HTTP.  The goroutines
  are the process waiter, the two output scanners, \<open>finishOnProcessExit\<close> (started
  twice), the event stream, \<open>SendInput\<close> and \<open>Stop\<close>; every atomic operation and every
  locked region is one section.  The child, the HTTP server and the file system are
  the outside.  Of \<open>net/url\<close> the code uses the validity of a request URI, setting a
  query parameter and escaping a path element: the record \<open>url_lib\<close>.
\<close>

section \<open>URLs\<close>

record url_lib =
  ulRequestURI :: "string \<Rightarrow> bool"
  ulSetQuery :: "string \<Rightarrow> string \<Rightarrow> string \<Rightarrow> string option"
  ulPathEscape :: "string \<Rightarrow> string"

definition parseServeHTTPListenURL :: "url_lib \<Rightarrow> string \<Rightarrow> string" where
  "parseServeHTTPListenURL ul line =
     (case (case str_index line ''http://'' of None \<Rightarrow> str_index line ''https://'' | i \<Rightarrow> i) of
        None \<Rightarrow> ''''
      | Some idx \<Rightarrow>
          (case str_fields (drop idx line) of
             [] \<Rightarrow> ''''
           | f # fs \<Rightarrow> let raw = trim_right f ''.,;)'' in if ulRequestURI ul raw then raw else ''''))"

definition withWorkdirQuery :: "url_lib \<Rightarrow> string \<Rightarrow> string \<Rightarrow> string" where
  "withWorkdirQuery ul workdir raw =
     (case ulSetQuery ul raw ''directory'' workdir of None \<Rightarrow> raw | Some u \<Rightarrow> u)"

section \<open>Server-sent events\<close>

text \<open>One line of the stream: the data so far, and the block it completes, if any.\<close>

definition sse_line :: "string \<Rightarrow> bytes \<Rightarrow> bytes option \<times> bytes" where
  "sse_line line buf =
     (if line = '''' then (if buf \<noteq> [] then (Some buf, []) else (None, buf))
      else if has_prefix line ''data:''
           then (None, buf @ trim_prefix (trim_prefix line ''data:'') '' '')
           else (None, buf))"

record sse_props =
  spSessionID :: string
  spDelta :: string

record sse_event =
  seType :: string
  seDirectory :: string
  sePayload :: "json option"
  seProps :: sse_props

definition zero_event :: sse_event where
  "zero_event = \<lparr>seType = '''', seDirectory = '''', sePayload = None, seProps = \<lparr>spSessionID = '''', spDelta = ''''\<rparr>\<rparr>"

definition props_member :: "string \<times> json \<Rightarrow> sse_props \<Rightarrow> sse_props option" where
  "props_member m p =
     (let k = fold_key (fst m) in
      if k = ''sessionid'' then map_option (\<lambda>t. p\<lparr>spSessionID := t\<rparr>) (decode_string (snd m) (spSessionID p))
      else if k = ''delta'' then map_option (\<lambda>t. p\<lparr>spDelta := t\<rparr>) (decode_string (snd m) (spDelta p))
      else Some p)"

definition wrapped_member :: "string \<times> json \<Rightarrow> sse_event \<Rightarrow> sse_event option" where
  "wrapped_member m ev =
     (let k = fold_key (fst m) in
      if k = ''type'' then map_option (\<lambda>t. ev\<lparr>seType := t\<rparr>) (decode_string (snd m) (seType ev))
      else if k = ''properties'' then map_option (\<lambda>p. ev\<lparr>seProps := p\<rparr>) (decode_struct props_member (snd m) (seProps ev))
      else Some ev)"

definition event_member :: "string \<times> json \<Rightarrow> sse_event \<Rightarrow> sse_event option" where
  "event_member m ev =
     (let k = fold_key (fst m) in
      if k = ''directory'' then map_option (\<lambda>t. ev\<lparr>seDirectory := t\<rparr>) (decode_string (snd m) (seDirectory ev))
      else if k = ''payload'' then Some (ev\<lparr>sePayload := Some (snd m)\<rparr>)
      else wrapped_member m ev)"

text \<open>An event wrapped in \<open>payload\<close> replaces the type and the properties.\<close>

definition unwrap_payload :: "sse_event \<Rightarrow> sse_event" where
  "unwrap_payload ev =
     (case sePayload ev of
        None \<Rightarrow> ev
      | Some p \<Rightarrow>
          (case decode_struct wrapped_member p zero_event of
             None \<Rightarrow> ev
           | Some w \<Rightarrow> if seType w \<noteq> '''' then ev\<lparr>seType := seType w, seProps := seProps w\<rparr> else ev))"

definition decode_sse :: "bytes \<Rightarrow> sse_event option" where
  "decode_sse data =
     (case json_parse data of
        None \<Rightarrow> None
      | Some j \<Rightarrow> map_option unwrap_payload (decode_struct event_member j zero_event))"

section \<open>State\<close>

datatype serve_act =
    SaSandboxApply
  | SaSandboxCleanup
  | SaLimitCleanup
  | SaCloseStdout
  | SaCloseStderr
  | SaSpawn int cmd
  | SaLog bytes
  | SaFanout bytes
  | SaOnSessionID string
  | SaPost string bytes
  | SaCancelStream
  | SaSignal int
  | SaCloseLog
  | SaRemoveBootDir string

record serve_session =
  svConfig :: adapter_config
  svAdapter :: child_adapter
  svBootDir :: string
  svOpts :: start_options
  svCmd :: "cmd option"
  svBaseURL :: string
  svSessionID :: string
  svState :: live_state
  svAlive :: bool
  svStartedPID :: int
  svLastPID :: int
  svLastSessionID :: string
  svReadyURL :: "string chan"
  svProcessDone :: "go_error option chan"
  svDone :: bool
  svWaitOnce :: bool
  svWaitCode :: int
  svWaitErr :: "go_error option"
  svStopOnce :: once
  svStopRequested :: bool
  svTurnInFlight :: bool
  svStreaming :: bool
  svLaunched :: bool
  svStartError :: "go_error option"
  svEvents :: "llm_event chan option"
  svTrace :: "serve_act list"

definition sv_act :: "serve_act \<Rightarrow> serve_session \<Rightarrow> serve_session" where
  "sv_act a s = s\<lparr>svTrace := svTrace s @ [a]\<rparr>"

definition new_serve :: "adapter_config \<Rightarrow> child_adapter \<Rightarrow> string \<Rightarrow> start_options \<Rightarrow> llm_event chan option \<Rightarrow> serve_session" where
  "new_serve cfg ad bootDir opts events =
     \<lparr>svConfig = cfg, svAdapter = ad, svBootDir = bootDir, svOpts = opts, svCmd = None, svBaseURL = '''', svSessionID = '''',
      svState = LiveStateIdle, svAlive = True, svStartedPID = 0, svLastPID = 0, svLastSessionID = optSessionIDPreset opts,
      svReadyURL = new_chan 1, svProcessDone = new_chan 1, svDone = False, svWaitOnce = False, svWaitCode = 0,
      svWaitErr = None, svStopOnce = OnceNew, svStopRequested = False, svTurnInFlight = False, svStreaming = False, svLaunched = False, svStartError = None,
      svEvents = events, svTrace = []\<rparr>"

definition writeOutput :: "bytes \<Rightarrow> serve_session \<Rightarrow> serve_session" where
  "writeOutput p s =
     s\<lparr>svTrace := svTrace s @ SaLog p # (if optFanout (svOpts s) \<noteq> None then [SaFanout p] else [])\<rparr>"

text \<open>One scanned line of the child's output (the ready channel holds one URL).\<close>

definition scan_line :: "url_lib \<Rightarrow> string \<Rightarrow> serve_session \<Rightarrow> serve_session" where
  "scan_line ul line s =
     (let s1 = writeOutput (line @ [newline]) s; u = parseServeHTTPListenURL ul line in
      if u \<noteq> '''' then (case chan_try_send u (svReadyURL s1) of None \<Rightarrow> s1 | Some (_, c) \<Rightarrow> s1\<lparr>svReadyURL := c\<rparr>) else s1)"

section \<open>Spawn\<close>

record serve_spawn_oracle =
  ssStdout :: "go_error option"
  ssStderr :: "go_error option"
  ssSandbox :: "cmd \<Rightarrow> go_error + cmd"
  ssLimits :: "cmd \<Rightarrow> go_error option \<times> cmd"
  ssStart :: "go_error + int"

definition serve_cmd :: "string list \<Rightarrow> string \<Rightarrow> serve_session \<Rightarrow> cmd" where
  "serve_cmd environ binary s =
     (let opts = svOpts s;
          args = caBuildArgs (svAdapter s) '''' (optBootPrompt opts) (optSessionIDPreset opts) @ optExtraArgs opts
      in configureCommandProcessGroup
           \<lparr>cmdPath = binary, cmdArgs = binary # args, cmdDir = optWorkdir opts,
            cmdEnv = (if optEnv opts \<noteq> [] then optEnv opts else environ),
            cmdExtraFiles = optExtraFiles opts, cmdSetpgid = False, cmdStderr = StderrNone, cmdPid = None\<rparr>)"

definition serve_cleanup :: "start_options \<Rightarrow> serve_act list" where
  "serve_cleanup opts = SaLimitCleanup # (if optProfileID opts \<noteq> '''' then [SaSandboxCleanup] else [])"

definition serve_spawn :: "string list \<Rightarrow> serve_spawn_oracle \<Rightarrow> serve_session \<Rightarrow> go_error option \<times> serve_session" where
  "serve_spawn environ o' s =
     (case caDetect (svAdapter s) of
        None \<Rightarrow> (Some (binary_not_found (svAdapter s)), s)
      | Some binary \<Rightarrow>
          let opts = svOpts s; c0 = serve_cmd environ binary s; sandboxed = (optProfileID opts \<noteq> '''') in
          (case ssStdout o' of
             Some e \<Rightarrow> (Some (Wrapped ''agentsessions: stdout pipe'' e), s)
           | None \<Rightarrow>
          (case ssStderr o' of
             Some e \<Rightarrow> (Some (Wrapped ''agentsessions: stderr pipe'' e), sv_act SaCloseStdout s)
           | None \<Rightarrow>
          (case (if sandboxed then ssSandbox o' c0 else Inr c0) of
             Inl e \<Rightarrow> (Some (Wrapped ''agentsessions: sandbox apply'' e), s)
           | Inr c1 \<Rightarrow>
              let s1 = (if sandboxed then sv_act SaSandboxApply s else s) in
              (case ssLimits o' c1 of
                 (Some e, c2) \<Rightarrow>
                   (Some (Wrapped ''agentsessions: apply resource limits'' e),
                    if sandboxed then sv_act SaSandboxCleanup s1 else s1)
               | (None, c2) \<Rightarrow>
                   (case ssStart o' of
                      Inl e \<Rightarrow> (Some (Wrapped ''agentsessions: start'' e),
                                s1\<lparr>svTrace := svTrace s1 @ [SaCloseStdout, SaCloseStderr] @ serve_cleanup opts\<rparr>)
                    | Inr pid \<Rightarrow>
                        let c3 = c2\<lparr>cmdPid := Some pid\<rparr> in
                        (None, sv_act (SaSpawn pid c3)
                           (s1\<lparr>svCmd := Some c3, svStartedPID := int32 pid, svLastPID := int32 pid\<rparr>))))))))"

section \<open>Goroutines\<close>

datatype serve_pc =
    SvWaiter
  | SvWaiterSend "go_error option"
  | SvWaiterClose
  | SvWaiterEnd
  | SvFinish
  | SvFinishAlive "go_error option"
  | SvFinishState "go_error option"
  | SvFinishOnce "go_error option"
  | SvFinishEnd
  | SvScan
  | SvScanEnd
  | SvStream bytes
  | SvTurnClear llm_event
  | SvTurnAlive llm_event
  | SvTurnStore llm_event
  | SvTurnFan llm_event
  | SvStreamEnd
  | SvSend bytes
  | SvClaim bytes
  | SvPost bytes
  | SvClear go_error
  | SvClearAlive go_error
  | SvClearStore go_error
  | SvProcessing
  | SvReturned "go_error option"
  | SvStop
  | SvStopState
  | SvStopCancel
  | SvStopDispose
  | SvStopAbort
  | SvStopWait
  | SvStopTerm
  | SvStopGrace
  | SvStopKill
  | SvStopOnceEnd "go_error option"
  | SvStopReturned "go_error option"
  | SvStartSelect
  | SvStartHealth
  | SvStartSession
  | SvStartLaunch
  | SvStartTurn serve_pc
  | SvStarted
  | SvLater serve_pc
  | SvWaiterPanicked
  | SvStopPanicked
  | SvPanicked

text \<open>
  What a goroutine gets: nothing; how the child ended; a line or the end of a stream;
  the failure to make a request, or the answer of the server; whether \<open>done\<close> was
  closed before a timer or the context; the result of a signal; which case of the
  select of \<open>Start\<close> fires; one poll of the health endpoint.
\<close>

datatype http_answer = BadRequest go_error | HttpError go_error | HttpResponse int bytes

datatype start_choice = ChReady | ChDone | ChTimeout | ChContext

text \<open>One poll: its answer, and whether the deadline has passed or the context ends the pause.\<close>

datatype poll = Poll (pollAnswer: http_answer) (pollLate: bool) (pollCtx: bool)

datatype serve_input =
    SinGo
  | SinExit "go_error option"
  | SinLine string
  | SinEnd
  | SinHttp http_answer
  | SinTimer bool
  | SinSignal "go_error option"
  | SinSelect start_choice
  | SinPoll poll

text \<open>The process waiter: reap, clean up, send the result, close the channel.\<close>

definition waiter_step :: "(serve_input, serve_pc, serve_session) section_step" where
  "waiter_step ev pc s =
     (case (pc, ev) of
        (SvWaiter, SinExit err) \<Rightarrow>
          Some (SvWaiterSend err, s\<lparr>svTrace := svTrace s @ serve_cleanup (svOpts s)\<rparr>)
      | (SvWaiterSend err, SinGo) \<Rightarrow>
          (case chan_try_send err (svProcessDone s) of
             None \<Rightarrow> Some (SvWaiterPanicked, s)
           | Some (False, c) \<Rightarrow> None
           | Some (True, c) \<Rightarrow> Some (SvWaiterClose, s\<lparr>svProcessDone := c\<rparr>))
      | (SvWaiterClose, SinGo) \<Rightarrow>
          Some (case chan_close (svProcessDone s) of
                  None \<Rightarrow> (SvWaiterPanicked, s) | Some c \<Rightarrow> (SvWaiterEnd, s\<lparr>svProcessDone := c\<rparr>))
      | _ \<Rightarrow> None)"

text \<open>\<open>finishOnProcessExit\<close>: a closed and drained channel gives a nil error.\<close>

definition process_exit_result :: "go_error option \<Rightarrow> int \<times> go_error option" where
  "process_exit_result err =
     (case err of
        None \<Rightarrow> (0, None)
      | Some e \<Rightarrow> (case as_exec_exit e of Some ps \<Rightarrow> (int32 (psExitCode ps), None) | None \<Rightarrow> (-1, Some e)))"

definition finish_once :: "go_error option \<Rightarrow> serve_session \<Rightarrow> serve_session" where
  "finish_once err s =
     (if svWaitOnce s then s
      else s\<lparr>svWaitOnce := True, svWaitCode := fst (process_exit_result err), svWaitErr := snd (process_exit_result err), svDone := True,
             svTrace := svTrace s @ SaCloseLog # (if svBootDir s = '''' then [] else [SaRemoveBootDir (svBootDir s)])\<rparr>)"

definition finisher_step :: "(serve_input, serve_pc, serve_session) section_step" where
  "finisher_step ev pc s =
     (case (pc, ev) of
        (SvFinish, SinGo) \<Rightarrow>
          (case chQueue (svProcessDone s) of
             err # es \<Rightarrow> Some (SvFinishAlive err, s\<lparr>svProcessDone := chan_recv (svProcessDone s)\<rparr>)
           | [] \<Rightarrow> if chClosed (svProcessDone s) then Some (SvFinishAlive None, s) else None)
      | (SvFinishAlive err, SinGo) \<Rightarrow> Some (SvFinishState err, s\<lparr>svAlive := False\<rparr>)
      | (SvFinishState err, SinGo) \<Rightarrow> Some (SvFinishOnce err, s\<lparr>svState := LiveStateStopped\<rparr>)
      | (SvFinishOnce err, SinGo) \<Rightarrow> Some (SvFinishEnd, finish_once err s)
      | _ \<Rightarrow> None)"

definition scanner_step :: "url_lib \<Rightarrow> (serve_input, serve_pc, serve_session) section_step" where
  "scanner_step ul ev pc s =
     (case (pc, ev) of
        (SvScan, SinLine l) \<Rightarrow> Some (SvScan, scan_line ul l s)
      | (SvScan, SinEnd) \<Rightarrow> Some (SvScanEnd, s)
      | _ \<Rightarrow> None)"

text \<open>\<open>handleSSEData\<close>: the next section of the stream goroutine.\<close>

definition fan_event :: "llm_event \<Rightarrow> serve_session \<Rightarrow> serve_pc \<times> serve_session" where
  "fan_event ev s =
     (case tryEventFanout (svEvents s) ev of None \<Rightarrow> (SvPanicked, s) | Some ch \<Rightarrow> (SvStream [], s\<lparr>svEvents := ch\<rparr>))"

definition handleSSEData :: "bytes \<Rightarrow> serve_session \<Rightarrow> serve_pc \<times> serve_session" where
  "handleSSEData data s =
     (let s1 = writeOutput (data @ [newline]) s in
      case decode_sse data of
        None \<Rightarrow> (SvStream [], s1)
      | Some ev \<Rightarrow>
          let sid = spSessionID (seProps ev) in
          if sid \<noteq> '''' \<and> sid \<noteq> svSessionID s1 then (SvStream [], s1)
          else if seType ev = ''session.created'' then
            (if sid \<noteq> '''' then
               (let s2 = s1\<lparr>svLastSessionID := sid\<rparr>;
                    s3 = (if optOnSessionID (svOpts s2) then sv_act (SaOnSessionID sid) s2 else s2)
                in fan_event ((llm_event EventSessionID '''')\<lparr>leSessionID := sid\<rparr>) s3)
             else (SvStream [], s1))
          else if seType ev = ''message.part.delta'' \<or> seType ev = ''session.next.text.delta'' then
            (if spDelta (seProps ev) \<noteq> '''' then fan_event (llm_event EventDelta (spDelta (seProps ev))) s1
             else (SvStream [], s1))
          else if seType ev = ''session.idle'' \<or> seType ev = ''session.next.step.ended'' then
            (SvTurnClear (llm_event EventDone ''''), s1)
          else if seType ev = ''session.error'' \<or> seType ev = ''session.next.step.failed'' then
            (SvTurnClear ((llm_event EventError '''')\<lparr>leError := data\<rparr>), s1)
          else (SvStream [], s1))"

definition stream_step :: "(serve_input, serve_pc, serve_session) section_step" where
  "stream_step ev pc s =
     (case (pc, ev) of
        (SvStream buf, SinLine l) \<Rightarrow>
          Some (case sse_line l buf of (None, b) \<Rightarrow> (SvStream b, s) | (Some d, b) \<Rightarrow> handleSSEData d s)
      | (SvStream buf, SinEnd) \<Rightarrow> Some (SvStreamEnd, s)
      | (SvTurnClear e, SinGo) \<Rightarrow> Some (SvTurnAlive e, s\<lparr>svTurnInFlight := False\<rparr>)
      | (SvTurnAlive e, SinGo) \<Rightarrow> Some (if svAlive s then SvTurnStore e else SvTurnFan e, s)
      | (SvTurnStore e, SinGo) \<Rightarrow> Some (SvTurnFan e, s\<lparr>svState := LiveStateIdle\<rparr>)
      | (SvTurnFan e, SinGo) \<Rightarrow> Some (fan_event e s)
      | _ \<Rightarrow> None)"

section \<open>SendInput\<close>

text \<open>The keys of the Go maps are marshalled in sorted order.\<close>

definition prompt_json :: "bytes \<Rightarrow> json" where
  "prompt_json d = JObj [(''parts'', JArr [JObj [(''text'', JStr d), (''type'', JStr ''text'')]])]"

definition session_url :: "url_lib \<Rightarrow> string \<Rightarrow> serve_session \<Rightarrow> string" where
  "session_url ul path s =
     withWorkdirQuery ul (optWorkdir (svOpts s)) (svBaseURL s @ ''/session/'' @ ulPathEscape ul (svSessionID s) @ path)"

definition status_error :: "string \<Rightarrow> int \<Rightarrow> bytes \<Rightarrow> go_error" where
  "status_error what status body =
     ErrorsNew (''agentsessions: '' @ what @ '': status '' @ dec_int status @ '': '' @ body)"

definition body_limit :: nat where "body_limit = 1024 * 1024"

definition input_step :: "url_lib \<Rightarrow> (serve_input, serve_pc, serve_session) section_step" where
  "input_step ul ev pc s =
     (case (pc, ev) of
        (SvSend d, SinGo) \<Rightarrow> Some (if \<not> svAlive s then SvReturned (Some ErrNoInputChannel) else SvClaim d, s)
      | (SvClaim d, SinGo) \<Rightarrow>
          Some (if svTurnInFlight s then (SvReturned (Some ErrTurnInFlight), s)
                else (SvPost d, s\<lparr>svTurnInFlight := True\<rparr>))
      | (SvPost d, SinHttp a) \<Rightarrow>
          (let s1 = sv_act (SaPost (session_url ul ''/prompt_async'' s) (json_text (prompt_json d))) s in
           Some (case a of
                   BadRequest e \<Rightarrow> (SvClear e, s)
                 | HttpError e \<Rightarrow> (SvClear (Wrapped ''agentsessions: serve-http send input'' e), s1)
                 | HttpResponse status body \<Rightarrow>
                     if status < 200 \<or> 300 \<le> status
                     then (SvClear (status_error ''serve-http send input'' status (take body_limit body)), s1)
                     else (SvProcessing, s1)))
      | (SvProcessing, SinGo) \<Rightarrow> Some (SvReturned None, s\<lparr>svState := LiveStateProcessing\<rparr>)
      | (SvClear e, SinGo) \<Rightarrow> Some (SvClearAlive e, s\<lparr>svTurnInFlight := False\<rparr>)
      | (SvClearAlive e, SinGo) \<Rightarrow> Some (if svAlive s then SvClearStore e else SvReturned (Some e), s)
      | (SvClearStore e, SinGo) \<Rightarrow> Some (SvReturned (Some e), s\<lparr>svState := LiveStateIdle\<rparr>)
      | _ \<Rightarrow> None)"

section \<open>Stop\<close>

text \<open>\<open>postNoBody\<close>: nothing is sent without a base URL.\<close>

definition postNoBody :: "string \<Rightarrow> serve_session \<Rightarrow> serve_session" where
  "postNoBody endpoint s = (if endpoint = '''' \<or> svBaseURL s = '''' then s else sv_act (SaPost endpoint []) s)"

definition serve_stop_step :: "url_lib \<Rightarrow> (serve_input, serve_pc, serve_session) section_step" where
  "serve_stop_step ul ev pc s =
     (case (pc, ev) of
        (SvStop, SinGo) \<Rightarrow>
          (case svStopOnce s of
             OnceNew \<Rightarrow> Some (SvStopState, s\<lparr>svStopOnce := OnceRunning, svAlive := False\<rparr>)
           | OnceRunning \<Rightarrow> None
           | OnceDone \<Rightarrow> Some (SvStopReturned None, s))
      | (SvStopState, SinGo) \<Rightarrow> Some (SvStopCancel, s\<lparr>svState := LiveStateStopped\<rparr>)
      | (SvStopCancel, SinGo) \<Rightarrow>
          Some (if svStopRequested s then (SvStopPanicked, s)
                else (SvStopDispose,
                      let s1 = s\<lparr>svStopRequested := True\<rparr> in if svStreaming s1 then sv_act SaCancelStream s1 else s1))
      | (SvStopDispose, SinGo) \<Rightarrow> Some (SvStopAbort, postNoBody (svBaseURL s @ ''/global/dispose'') s)
      | (SvStopAbort, SinGo) \<Rightarrow>
          (let s1 = (if svSessionID s \<noteq> '''' then postNoBody (session_url ul ''/abort'' s) s else s) in
           Some (case svCmd s1 of
                   None \<Rightarrow> (SvStopOnceEnd None, s1)
                 | Some c \<Rightarrow> (if cmdPid c = None then SvStopOnceEnd None else SvStopWait, s1)))
      | (SvStopWait, SinTimer d) \<Rightarrow>
          if d \<and> \<not> svDone s then None else Some (if d then SvStopOnceEnd None else SvStopTerm, s)
      | (SvStopTerm, SinSignal e) \<Rightarrow>
          Some (case e of Some x \<Rightarrow> SvStopOnceEnd None | None \<Rightarrow> SvStopGrace, sv_act (SaSignal SIGTERM) s)
      | (SvStopGrace, SinTimer d) \<Rightarrow>
          if d \<and> \<not> svDone s then None else Some (if d then SvStopOnceEnd None else SvStopKill, s)
      | (SvStopKill, SinSignal e) \<Rightarrow> Some (SvStopOnceEnd e, sv_act (SaSignal SIGKILL) s)
      | (SvStopOnceEnd e, SinGo) \<Rightarrow> Some (SvStopReturned e, s\<lparr>svStopOnce := OnceDone\<rparr>)
      | _ \<Rightarrow> None)"

definition orelse_step :: "('e, 'p, 's) section_step \<Rightarrow> ('e, 'p, 's) section_step \<Rightarrow> ('e, 'p, 's) section_step" where
  "orelse_step f g ev pc s = (case f ev pc s of None \<Rightarrow> g ev pc s | r \<Rightarrow> r)"

section \<open>Start\<close>

definition resolveServeHTTPLogPath :: "fs_oracle \<Rightarrow> start_options \<Rightarrow> file_system \<Rightarrow> (go_error + string) \<times> file_system" where
  "resolveServeHTTPLogPath io opts fs =
     (if optLogPath opts \<noteq> '''' then (Inr (optLogPath opts), fs)
      else if optWorkspaceDir opts = '''' then
        (Inl (ErrorsNew ''agentsessions: serve-http runtime requires StartOptions.LogPath or StartOptions.WorkspaceDir''), fs)
      else
        let p = join_path (join_path (clean_path (optWorkspaceDir opts)) ''logs'') ''session.log'' in
        case os_MkdirAll io (dir_path p) fs of
          (Some e, fs') \<Rightarrow> (Inl (Wrapped ''agentsessions: ensure log dir'' e), fs')
        | (None, fs') \<Rightarrow> (Inr (path_text p), fs'))"

definition servePrepare :: "adapter_config \<Rightarrow> child_adapter \<Rightarrow> go_error option" where
  "servePrepare cfg ad =
     (if \<not> BinaryRequired (acCaps cfg) then None
      else case caDetect ad of
        Some b \<Rightarrow> None
      | None \<Rightarrow> Some (binary_not_found ad))"

text \<open>\<open>waitHealthy\<close>, one round: None is another round.\<close>

definition waitHealthy :: "poll \<Rightarrow> go_error option option" where
  "waitHealthy p =
     (case pollAnswer p of
        BadRequest e \<Rightarrow> Some (Some e)
      | HttpResponse status body \<Rightarrow>
          if 200 \<le> status \<and> status < 300 then Some None
          else if pollLate p then Some (Some (ErrorsNew ''agentsessions: serve-http health: timeout''))
          else if pollCtx p then Some (Some ErrContext) else None
      | HttpError e \<Rightarrow>
          if pollLate p then Some (Some (Wrapped ''agentsessions: serve-http health'' e))
          else if pollCtx p then Some (Some ErrContext) else None)"

definition id_member :: "string \<times> json \<Rightarrow> string \<Rightarrow> string option" where
  "id_member m i = (if fold_key (fst m) = ''id'' then decode_string (snd m) i else Some i)"

definition createSession :: "url_lib \<Rightarrow> http_answer \<Rightarrow> serve_session \<Rightarrow> go_error option \<times> serve_session" where
  "createSession ul a s =
     (let s1 = sv_act (SaPost (withWorkdirQuery ul (optWorkdir (svOpts s)) (svBaseURL s @ ''/session'')) ''{}'') s in
      case a of
        BadRequest e \<Rightarrow> (Some e, s)
      | HttpError e \<Rightarrow> (Some (Wrapped ''agentsessions: create serve-http session'' e), s1)
      | HttpResponse status body0 \<Rightarrow>
          let body = take body_limit body0 in
          if status < 200 \<or> 300 \<le> status then (Some (status_error ''create serve-http session'' status body), s1)
          else (case Option.bind (json_parse body) (\<lambda>j. decode_struct id_member j '''') of
                  None \<Rightarrow> (Some (Wrapped ''agentsessions: decode serve-http session'' (ErrorsNew ''json'')), s1)
                | Some i \<Rightarrow>
                    if i = '''' then (Some (ErrorsNew ''agentsessions: create serve-http session: empty id''), s1)
                    else (let s2 = s1\<lparr>svSessionID := i, svLastSessionID := i\<rparr> in
                          (None, if optOnSessionID (svOpts s2) then sv_act (SaOnSessionID i) s2 else s2))))"

text \<open>A failing \<open>Start\<close> keeps its error and runs \<open>Stop\<close>.\<close>

definition start_fails :: "go_error \<Rightarrow> serve_session \<Rightarrow> serve_pc \<times> serve_session" where
  "start_fails e s = (SvStop, s\<lparr>svStartError := Some e\<rparr>)"

definition errEarlyExit :: go_error where
  "errEarlyExit = ErrorsNew ''process exited before printing listen URL''"

definition start_select :: "start_choice \<Rightarrow> serve_session \<Rightarrow> (serve_pc \<times> serve_session) option" where
  "start_select c s =
     (case c of
        ChReady \<Rightarrow>
          (case chQueue (svReadyURL s) of
             [] \<Rightarrow> None
           | base # us \<Rightarrow> Some (SvStartHealth,
               s\<lparr>svBaseURL := trim_right base ''/'', svReadyURL := chan_recv (svReadyURL s)\<rparr>))
      | ChDone \<Rightarrow>
          if svDone s
          then Some (SvStarted, s\<lparr>svStartError := Some (Wrapped ''agentsessions: serve-http start''
                 (case svWaitErr s of None \<Rightarrow> errEarlyExit | Some e \<Rightarrow> e))\<rparr>)
          else None
      | ChTimeout \<Rightarrow> Some (start_fails (ErrorsNew ''agentsessions: serve-http start: timed out waiting for listen URL'') s)
      | ChContext \<Rightarrow> Some (start_fails ErrContext s))"

definition serve_start_step :: "url_lib \<Rightarrow> (serve_input, serve_pc, serve_session) section_step" where
  "serve_start_step ul ev pc s =
     (case pc of
        SvStartSelect \<Rightarrow> (case ev of SinSelect c \<Rightarrow> start_select c s | _ \<Rightarrow> None)
      | SvStartHealth \<Rightarrow>
          (case ev of
             SinPoll p \<Rightarrow>
               Some (case waitHealthy p of
                       None \<Rightarrow> (SvStartHealth, s)
                     | Some None \<Rightarrow> (SvStartSession, s)
                     | Some (Some e) \<Rightarrow> start_fails e s)
           | _ \<Rightarrow> None)
      | SvStartSession \<Rightarrow>
          (case ev of
             SinGo \<Rightarrow>
               if optSessionIDPreset (svOpts s) \<noteq> ''''
               then Some (SvStartLaunch, s\<lparr>svSessionID := optSessionIDPreset (svOpts s)\<rparr>) else None
           | SinHttp a \<Rightarrow>
               if optSessionIDPreset (svOpts s) \<noteq> '''' then None
               else Some (case createSession ul a s of (None, s1) \<Rightarrow> (SvStartLaunch, s1) | (Some e, s1) \<Rightarrow> start_fails e s1)
           | _ \<Rightarrow> None)
      | SvStartLaunch \<Rightarrow>
          (case ev of
             SinGo \<Rightarrow>
               Some (if optAutoFireFirstTurn (svOpts s) \<and> optFirstTurnPayload (svOpts s) \<noteq> []
                     then SvStartTurn (SvSend (optFirstTurnPayload (svOpts s))) else SvStarted,
                     s\<lparr>svLaunched := True\<rparr>)
           | _ \<Rightarrow> None)
      | SvStartTurn p \<Rightarrow>
          (case p of
             SvReturned None \<Rightarrow> Some (SvStarted, s)
           | SvReturned (Some e) \<Rightarrow> Some (start_fails (Wrapped ''agentsessions: auto-fire first turn'' e) s)
           | _ \<Rightarrow> map_option (\<lambda>(p', s'). (SvStartTurn p', s')) (input_step ul ev p s))
      | SvLater p \<Rightarrow>
          (case ev of
             SinGo \<Rightarrow>
               if svLaunched s then Some (p, case p of SvStream b \<Rightarrow> s\<lparr>svStreaming := True\<rparr> | _ \<Rightarrow> s) else None
           | _ \<Rightarrow> None)
      | _ \<Rightarrow> None)"

text \<open>The goroutines together, each at its own program counters.\<close>

definition serve_step :: "url_lib \<Rightarrow> (serve_input, serve_pc, serve_session) section_step" where
  "serve_step ul = orelse_step waiter_step (orelse_step finisher_step (orelse_step (scanner_step ul)
     (orelse_step stream_step (orelse_step (input_step ul) (orelse_step (serve_stop_step ul) (serve_start_step ul))))))"

text \<open>
  The goroutines \<open>Start\<close> makes: waiter, two scanners, finisher and \<open>Start\<close> itself; the
  event stream and the second finisher wait until \<open>Start\<close> launches them.
\<close>

definition serve_threads :: "serve_pc list" where
  "serve_threads = [SvWaiter, SvScan, SvScan, SvFinish, SvStartSelect, SvLater (SvStream []), SvLater SvFinish]"

record serve_oracle =
  seoFs :: fs_oracle
  seoCreateLog :: "go_error option"
  seoEnviron :: "string list"
  seoSpawn :: serve_spawn_oracle

text \<open>\<open>Start\<close> up to the spawn; a failing one keeps the session for its trace.\<close>

definition serveStart ::
  "adapter_config \<Rightarrow> adapter \<Rightarrow> (adapter \<Rightarrow> child_adapter) \<Rightarrow> serve_oracle \<Rightarrow> start_options \<Rightarrow> llm_event chan option \<Rightarrow>
   file_system \<Rightarrow> (go_error option \<times> serve_session option \<times> serve_pc list) \<times> file_system" where
  "serveStart cfg ad behav o' opts0 events fs =
     (if optWorkdir opts0 = ''''
      then ((Some (ErrorsNew ''agentsessions: StartOptions.Workdir is required for serve-http runtime''), None, []), fs)
      else case preparePlant (seoFs o') opts0 ad (acID cfg) fs of
        (pr, fs1) \<Rightarrow>
          (case prError pr of
             Some e \<Rightarrow> ((Some e, None, []), fs1)
           | None \<Rightarrow>
               let opts = prOptions pr; bootDir = prBootDir pr in
               (case resolveServeHTTPLogPath (seoFs o') opts fs1 of
                  (Inl e, fs2) \<Rightarrow> ((Some e, None, []), cleanupBootDir (seoFs o') bootDir fs2)
                | (Inr logPath, fs2) \<Rightarrow>
               (case seoCreateLog o' of
                  Some e \<Rightarrow> ((Some (Wrapped ''agentsessions: open log'' e), None, []), cleanupBootDir (seoFs o') bootDir fs2)
                | None \<Rightarrow>
                    (case serve_spawn (seoEnviron o') (seoSpawn o') (new_serve cfg (behav (prAdapter pr)) bootDir opts events) of
                       (Some e, s) \<Rightarrow> ((Some e, Some (sv_act SaCloseLog s), []), cleanupBootDir (seoFs o') bootDir fs2)
                     | (None, s) \<Rightarrow> ((None, Some s, serve_threads), fs2))))))"

fun serve_start :: "serve_pc \<Rightarrow> bool" where
  "serve_start (SvSend d) = True"
| "serve_start SvStop = True"
| "serve_start pc = False"

abbreviation serve_reach :: "url_lib \<Rightarrow> serve_session \<Rightarrow> serve_pc list \<Rightarrow> serve_session \<Rightarrow> bool" where
  "serve_reach ul \<equiv> threads_reach (serve_step ul) serve_start serve_threads"

section \<open>Queries\<close>

definition serveWait :: "serve_session \<Rightarrow> (int \<times> go_error option) option" where
  "serveWait s = (if svDone s then Some (svWaitCode s, svWaitErr s) else None)"

definition serveResize :: "serve_session \<Rightarrow> go_error option" where
  "serveResize s = None"

definition serveHealth :: "serve_session \<Rightarrow> health_status" where
  "serveHealth s =
     \<lparr>hsAlive = svAlive s, hsPID = (if svAlive s then svStartedPID s else 0), hsState = svState s, hsTurnID = ''''\<rparr>"

definition serveCheckpointHints :: "serve_session \<Rightarrow> bytes option" where
  "serveCheckpointHints s =
     (if \<not> CheckpointResume (acCaps (svConfig s)) \<or> svLastSessionID s = '''' then None else Some (svLastSessionID s))"

definition serveLivePID :: "serve_session \<Rightarrow> int" where
  "serveLivePID s = (if \<not> svAlive s then 0 else svStartedPID s)"

definition serveLastPID :: "serve_session \<Rightarrow> int" where
  "serveLastPID s = svLastPID s"

definition serveProviderSessionID :: "serve_session \<Rightarrow> string" where
  "serveProviderSessionID s = svLastSessionID s"

end
