(* ===== verification/Serve_Life.thy ===== *)
theory Serve_Life imports Serve_Http begin

text \<open>
  The end of a serve-http session: for every interleaving of its goroutines the log is
  closed and the boot directory removed exactly once, nothing panics and \<open>Wait\<close> is
  stable; and the two races the code leaves open, the exit code that the second
  finisher loses and the turn end that overtakes the start of its turn.
\<close>

section \<open>Teardown\<close>

text \<open>What no goroutine but the one in \<open>waitOnce\<close> changes.\<close>

definition teardown :: "serve_session \<Rightarrow> serve_act list" where
  "teardown s = filter (\<lambda>a. a = SaCloseLog \<or> (\<exists>d. a = SaRemoveBootDir d)) (svTrace s)"

definition serve_kept :: "serve_session \<Rightarrow> serve_session \<Rightarrow> bool" where
  "serve_kept s s' \<longleftrightarrow> svDone s' = svDone s \<and> svWaitOnce s' = svWaitOnce s \<and> svWaitCode s' = svWaitCode s \<and>
     svWaitErr s' = svWaitErr s \<and> svBootDir s' = svBootDir s \<and> teardown s' = teardown s \<and> (svAlive s' \<longrightarrow> svAlive s)"

named_theorems serve_kept

lemma serve_kept_refl [serve_kept]: "serve_kept s s"
  by (simp add: serve_kept_def)

lemma sv_act_kept [serve_kept]: "a \<noteq> SaCloseLog \<Longrightarrow> (\<forall>d. a \<noteq> SaRemoveBootDir d) \<Longrightarrow> serve_kept s (sv_act a s)"
  by (simp add: serve_kept_def sv_act_def teardown_def)

lemma writeOutput_kept [serve_kept]: "serve_kept s (writeOutput b s)"
  by (simp add: serve_kept_def writeOutput_def teardown_def)

lemma serve_kept_trans: "serve_kept s t \<Longrightarrow> serve_kept t u \<Longrightarrow> serve_kept s u"
  by (simp add: serve_kept_def)

lemma scan_line_kept: "serve_kept s (scan_line ul l s)"
proof -
  have "serve_kept (writeOutput (l @ [newline]) s) (scan_line ul l s)"
    by (simp add: scan_line_def Let_def serve_kept_def teardown_def split: option.split)
  then show ?thesis by (rule serve_kept_trans[OF writeOutput_kept])
qed

lemma fan_event_sel:
  assumes "fan_event e s = (pc, s')"
  shows "(\<exists>ch. s' = s\<lparr>svEvents := ch\<rparr>) \<and> (pc = SvPanicked \<or> pc = SvStream [])"
proof (cases "tryEventFanout (svEvents s) e")
  case None
  then have "s' = s\<lparr>svEvents := svEvents s\<rparr>" "pc = SvPanicked" using assms by (simp_all add: fan_event_def)
  then show ?thesis by blast
next
  case (Some ch)
  then show ?thesis using assms by (auto simp: fan_event_def)
qed

lemma fan_event_kept: "fan_event e s = (pc, s') \<Longrightarrow> serve_kept s s'"
  by (auto simp: serve_kept_def teardown_def dest!: fan_event_sel)

lemma handleSSEData_kept:
  assumes "handleSSEData d s = (pc, s')"
  shows "serve_kept s s'"
proof -
  let ?s = "writeOutput (d @ [newline]) s"
  have id: "serve_kept ?s (?s\<lparr>svLastSessionID := i\<rparr>)" for i by (simp add: serve_kept_def teardown_def)
  have act: "serve_kept ?s (sv_act (SaOnSessionID i) (?s\<lparr>svLastSessionID := i\<rparr>))" for i
    by (rule serve_kept_trans[OF id, of i]) (simp add: sv_act_kept)
  have "serve_kept ?s s'"
    using assms unfolding handleSSEData_def Let_def
    by (cases "decode_sse d")
      (auto intro: serve_kept_refl fan_event_kept serve_kept_trans[OF id fan_event_kept] serve_kept_trans[OF act fan_event_kept]
        split: if_splits)
  then show ?thesis by (rule serve_kept_trans[OF writeOutput_kept])
qed

lemma postNoBody_kept: "serve_kept s (postNoBody e s)"
  by (simp add: postNoBody_def serve_kept)

lemma createSession_kept: "createSession ul a s = (r, s') \<Longrightarrow> serve_kept s s'"
  by (auto simp: createSession_def Let_def serve_kept_def sv_act_def teardown_def split: http_answer.splits option.splits if_splits)

lemma input_kept: "input_step ul ev pc s = Some (pc', s') \<Longrightarrow> serve_kept s s'"
  by (auto simp: input_step_def Let_def serve_kept_def sv_act_def teardown_def
      split: serve_pc.splits serve_input.splits if_splits http_answer.splits)

lemma stream_kept: "stream_step ev pc s = Some (pc', s') \<Longrightarrow> serve_kept s s'"
  by (auto simp: stream_step_def intro: handleSSEData_kept fan_event_kept
      split: serve_pc.splits serve_input.splits if_splits prod.splits option.splits)
    (simp_all add: serve_kept_def teardown_def)

lemma waiter_kept: "waiter_step ev pc s = Some (pc', s') \<Longrightarrow> serve_kept s s'"
  by (auto simp: waiter_step_def serve_kept_def teardown_def serve_cleanup_def
      split: serve_pc.splits serve_input.splits option.splits prod.splits bool.splits)

lemma scanner_kept: "scanner_step ul ev pc s = Some (pc', s') \<Longrightarrow> serve_kept s s'"
  by (auto simp: scanner_step_def serve_kept scan_line_kept split: serve_pc.splits serve_input.splits)

lemma stop_kept: "serve_stop_step ul ev pc s = Some (pc', s') \<Longrightarrow> serve_kept s s'"
  by (auto simp: serve_stop_step_def Let_def serve_kept_def sv_act_def teardown_def postNoBody_def
      split: serve_pc.splits serve_input.splits once.splits option.splits if_splits)

lemma start_select_kept: "start_select c s = Some (pc', s') \<Longrightarrow> serve_kept s s'"
  by (auto simp: start_select_def start_fails_def serve_kept_def teardown_def split: start_choice.splits list.splits if_splits)

lemma serve_fields_kept [serve_kept]:
  "serve_kept s (s\<lparr>svStartError := e\<rparr>)" "serve_kept s (s\<lparr>svSessionID := i\<rparr>)" "serve_kept s (s\<lparr>svLaunched := b\<rparr>)"
  "serve_kept s (s\<lparr>svStreaming := b\<rparr>)"
  by (simp_all add: serve_kept_def teardown_def)

lemma start_fails_kept: "start_fails e s = (pc, s') \<Longrightarrow> serve_kept s s'"
  by (auto simp: start_fails_def serve_kept)

lemma start_kept:
  assumes "serve_start_step ul ev pc s = Some (pc', s')"
  shows "serve_kept s s'"
proof (cases pc)
  case SvStartSelect
  then show ?thesis using assms by (cases ev) (auto simp: serve_start_step_def intro: start_select_kept)
next
  case SvStartHealth
  then show ?thesis
    using assms by (cases ev) (auto simp: serve_start_step_def serve_kept intro: start_fails_kept split: option.splits)
next
  case SvStartSession
  then show ?thesis
    using assms
    by (cases ev) (auto simp: serve_start_step_def serve_kept dest: createSession_kept start_fails_kept
        intro: serve_kept_trans split: if_splits prod.splits option.splits)
next
  case SvStartLaunch
  then show ?thesis using assms by (cases ev) (auto simp: serve_start_step_def serve_kept)
next
  case (SvStartTurn p)
  have "serve_kept s s'" if "serve_start_step ul ev pc s = map_option (\<lambda>(p', s'). (SvStartTurn p', s')) (input_step ul ev p s)"
    using assms that by (auto intro: input_kept)
  then show ?thesis
    using assms SvStartTurn
    by (cases p) (auto simp: serve_start_step_def serve_kept intro: start_fails_kept split: option.splits)
next
  case (SvLater p)
  then show ?thesis
    using assms by (cases ev) (cases p; auto simp: serve_start_step_def serve_kept split: if_splits)+
qed (use assms in \<open>simp_all add: serve_start_step_def\<close>)

lemma finisher_cases:
  assumes "finisher_step ev pc s = Some (pc', s')"
  shows "serve_kept s s' \<or> (\<exists>err. pc = SvFinishOnce err \<and> s' = finish_once err s)"
  using assms by (auto simp: finisher_step_def serve_kept_def teardown_def split: serve_pc.splits serve_input.splits list.splits if_splits)

lemma orelse_step_Some:
  "orelse_step f g ev pc s = Some r \<longleftrightarrow> f ev pc s = Some r \<or> f ev pc s = None \<and> g ev pc s = Some r"
  by (auto simp: orelse_step_def split: option.splits)

lemma serve_step_elim:
  assumes "serve_step ul ev pc s = Some r"
  obtains (waiter) "waiter_step ev pc s = Some r" | (finisher) "finisher_step ev pc s = Some r"
    | (scanner) "scanner_step ul ev pc s = Some r" | (stream) "stream_step ev pc s = Some r"
    | (send) "input_step ul ev pc s = Some r" | (stop) "serve_stop_step ul ev pc s = Some r"
    | (start) "serve_start_step ul ev pc s = Some r"
  using assms unfolding serve_step_def orelse_step_Some by blast

lemma serve_step_cases:
  assumes "serve_step ul ev pc s = Some (pc', s')"
  shows "serve_kept s s' \<or> (\<exists>err. pc = SvFinishOnce err \<and> s' = finish_once err s)"
  using assms
proof (cases rule: serve_step_elim)
  case finisher
  then show ?thesis by (rule finisher_cases)
qed (blast intro: waiter_kept scanner_kept stream_kept input_kept stop_kept start_kept)+

definition boot_removed :: "serve_session \<Rightarrow> serve_act list" where
  "boot_removed s = (if svBootDir s = '''' then [] else [SaRemoveBootDir (svBootDir s)])"

definition teardown_inv :: "serve_session \<Rightarrow> bool" where
  "teardown_inv s \<longleftrightarrow> svWaitOnce s = svDone s \<and> teardown s = (if svDone s then SaCloseLog # boot_removed s else [])"

lemma finish_once_inv: "teardown_inv s \<Longrightarrow> teardown_inv (finish_once err s)"
  by (simp add: teardown_inv_def finish_once_def teardown_def boot_removed_def)

lemma teardown_step:
  assumes "teardown_inv s" "serve_step ul ev pc s = Some (pc', s')"
  shows "teardown_inv s' \<and> (svDone s \<longrightarrow> svDone s' \<and> svWaitCode s' = svWaitCode s \<and> svWaitErr s' = svWaitErr s) \<and>
    (svAlive s' \<longrightarrow> svAlive s)"
proof -
  consider "serve_kept s s'" | err where "s' = finish_once err s" using serve_step_cases[OF assms(2)] by blast
  then show ?thesis
  proof cases
    case 1
    then show ?thesis using assms(1) unfolding serve_kept_def teardown_inv_def boot_removed_def by simp
  next
    case 2
    have once: "svWaitOnce s = svDone s" using assms(1) by (simp add: teardown_inv_def)
    have "teardown_inv s'" unfolding 2 by (rule finish_once_inv[OF assms(1)])
    then show ?thesis using once unfolding 2 by (simp add: finish_once_def)
  qed
qed

section \<open>The goroutines that end the session\<close>

text \<open>The waiter is the only one that fills and closes \<open>processDone\<close>, one \<open>Stop\<close> runs at a time.\<close>

fun serve_core :: "serve_pc \<Rightarrow> serve_pc" where
  "serve_core (SvLater pc) = serve_core pc"
| "serve_core pc = pc"

fun waiting :: "serve_pc \<Rightarrow> bool" where
  "waiting (SvLater pc) = waiting pc"
| "waiting SvWaiter = True"
| "waiting (SvWaiterSend e) = True"
| "waiting SvWaiterClose = True"
| "waiting SvWaiterPanicked = True"
| "waiting pc = False"

fun stopping :: "serve_pc \<Rightarrow> bool" where
  "stopping (SvLater pc) = stopping pc"
| "stopping SvStopState = True"
| "stopping SvStopCancel = True"
| "stopping SvStopDispose = True"
| "stopping SvStopAbort = True"
| "stopping SvStopWait = True"
| "stopping SvStopTerm = True"
| "stopping SvStopGrace = True"
| "stopping SvStopKill = True"
| "stopping (SvStopOnceEnd e) = True"
| "stopping SvStopPanicked = True"
| "stopping pc = False"

lemma core_roles: "waiting (serve_core pc) = waiting pc" "stopping (serve_core pc) = stopping pc"
  by (induction pc rule: serve_core.induct) simp_all

lemma core_eq_roles: "serve_core pc = serve_core qc \<Longrightarrow> waiting pc = waiting qc \<and> stopping pc = stopping qc"
  by (metis core_roles)

definition process_over :: "serve_session \<Rightarrow> bool" where
  "process_over s \<longleftrightarrow> chClosed (svProcessDone s)"

text \<open>The event fanout panics only on a channel that the caller closed.\<close>

definition fan_safe :: "serve_session \<Rightarrow> bool" where
  "fan_safe s \<longleftrightarrow> (\<forall>c. svEvents s = Some c \<longrightarrow> \<not> chClosed c)"

lemma fan_event_safe:
  assumes "fan_event e s = (pc, s')" "fan_safe s"
  shows "fan_safe s' \<and> pc \<noteq> SvPanicked"
  using assms by (auto simp: fan_event_def fan_safe_def tryEventFanout_def chan_try_send_def split: option.splits if_splits)

text \<open>A section of a goroutine that is neither.\<close>

definition aside :: "serve_pc \<Rightarrow> serve_session \<Rightarrow> serve_pc \<Rightarrow> serve_session \<Rightarrow> bool" where
  "aside pc s pc' s' \<longleftrightarrow> process_over s' = process_over s \<and> svStopOnce s' = svStopOnce s \<and>
     svStopRequested s' = svStopRequested s \<and>
     (fan_safe s \<longrightarrow> fan_safe s' \<and> (serve_core pc' = SvPanicked \<longrightarrow> serve_core pc = SvPanicked)) \<and>
     (serve_core pc' = serve_core pc \<or> \<not> waiting pc \<and> \<not> stopping pc \<and> \<not> waiting pc' \<and> \<not> stopping pc')"

lemmas aside_defs = aside_def process_over_def fan_safe_def

lemma writeOutput_sel [simp]:
  "svProcessDone (writeOutput b s) = svProcessDone s" "svStopOnce (writeOutput b s) = svStopOnce s"
  "svStopRequested (writeOutput b s) = svStopRequested s" "svEvents (writeOutput b s) = svEvents s"
  by (simp_all add: writeOutput_def)

lemma writeOutput_safe [simp]: "fan_safe (writeOutput b s) = fan_safe s"
  by (simp add: fan_safe_def)

lemma fan_safe_upd [simp]: "fan_safe (sv_act a s) = fan_safe s" "fan_safe (s\<lparr>svLastSessionID := i\<rparr>) = fan_safe s"
  by (simp_all add: fan_safe_def sv_act_def)

lemma handleSSEData_calm:
  assumes "handleSSEData d s = (pc', s')"
  shows "process_over s' = process_over s \<and> svStopOnce s' = svStopOnce s \<and> svStopRequested s' = svStopRequested s \<and>
    (pc' = SvPanicked \<or> pc' = SvStream [] \<or> (\<exists>e. pc' = SvTurnClear e))"
  using assms unfolding handleSSEData_def Let_def
  by (auto simp: process_over_def sv_act_def dest!: fan_event_sel split: option.splits if_splits)

lemma handleSSEData_safe:
  assumes "handleSSEData d s = (pc', s')" "fan_safe s"
  shows "fan_safe s' \<and> pc' \<noteq> SvPanicked"
  using assms unfolding handleSSEData_def Let_def
  by (auto dest: fan_event_safe split: option.splits if_splits)

lemma fan_event_aside: "fan_event e s = (pc', s') \<Longrightarrow> aside (SvTurnFan e) s pc' s'"
  using fan_event_safe[of e s pc' s'] by (auto simp: aside_def process_over_def dest!: fan_event_sel)

lemma handleSSEData_aside: "handleSSEData d s = (pc', s') \<Longrightarrow> aside (SvStream b) s pc' s'"
  using handleSSEData_safe[of d s pc' s'] by (auto simp: aside_def dest!: handleSSEData_calm)

lemma stream_aside: "stream_step ev pc s = Some (pc', s') \<Longrightarrow> aside pc s pc' s'"
  unfolding stream_step_def
  by (auto intro: handleSSEData_aside fan_event_aside split: serve_pc.splits serve_input.splits if_splits prod.splits option.splits)
    (simp_all add: aside_defs)

lemma scanner_aside: "scanner_step ul ev pc s = Some (pc', s') \<Longrightarrow> aside pc s pc' s'"
  by (auto simp: scanner_step_def aside_defs scan_line_def Let_def split: serve_pc.splits serve_input.splits option.splits if_splits)

lemma finisher_aside: "finisher_step ev pc s = Some (pc', s') \<Longrightarrow> aside pc s pc' s'"
  by (auto simp: finisher_step_def aside_defs finish_once_def chan_recv_def split: serve_pc.splits serve_input.splits list.splits if_splits)

lemma input_aside: "input_step ul ev pc s = Some (pc', s') \<Longrightarrow> aside pc s pc' s'"
  by (auto simp: input_step_def Let_def aside_defs sv_act_def split: serve_pc.splits serve_input.splits if_splits http_answer.splits)

lemma start_select_aside:
  assumes "start_select c s = Some (pc', s')"
  shows "process_over s' = process_over s" "svStopOnce s' = svStopOnce s" "svStopRequested s' = svStopRequested s"
    "svEvents s' = svEvents s" "pc' = SvStartHealth \<or> pc' = SvStarted \<or> pc' = SvStop"
  using assms by (auto simp: start_select_def start_fails_def process_over_def split: start_choice.splits list.splits if_splits)

lemma createSession_sel:
  assumes "createSession ul a s = (r, s')"
  shows "svProcessDone s' = svProcessDone s" "svStopOnce s' = svStopOnce s" "svStopRequested s' = svStopRequested s" "svEvents s' = svEvents s"
  using assms by (auto simp: createSession_def Let_def sv_act_def split: http_answer.splits option.splits if_splits)

lemma start_turn_aside: "input_step ul ev p s = Some (pc', s') \<Longrightarrow> aside (SvStartTurn p) s (SvStartTurn pc') s'"
  by (drule input_aside) (simp add: aside_def)

lemma start_aside: "serve_start_step ul ev pc s = Some (pc', s') \<Longrightarrow> aside pc s pc' s'"
  unfolding serve_start_step_def
  by (auto simp: start_fails_def intro: start_turn_aside split: serve_pc.splits serve_input.splits option.splits if_splits prod.splits)
    (auto simp: aside_defs dest: createSession_sel start_select_aside)

lemma serve_step_roles:
  assumes "serve_step ul ev pc s = Some (pc', s')"
  obtains "aside pc s pc' s'" | "waiter_step ev pc s = Some (pc', s')" | "serve_stop_step ul ev pc s = Some (pc', s')"
  using assms
proof (cases rule: serve_step_elim)
  case waiter
  then show ?thesis by (rule that(2))
next
  case stop
  then show ?thesis by (rule that(3))
qed (blast intro: that(1) finisher_aside scanner_aside stream_aside input_aside start_aside)+

lemma waiter_role:
  assumes "waiter_step ev pc s = Some (pc', s')"
  shows "waiting pc" "\<not> stopping pc" "\<not> stopping pc'" "svStopOnce s' = svStopOnce s" "svStopRequested s' = svStopRequested s"
    "svEvents s' = svEvents s" "process_over s' = (process_over s \<or> pc = SvWaiterClose)" "waiting pc' = (pc \<noteq> SvWaiterClose \<or> process_over s)"
    "pc' = SvWaiterPanicked \<longrightarrow> process_over s" "serve_core pc' = pc'"
  using assms by (auto simp: waiter_step_def process_over_def chan_try_send_def chan_close_def
      split: serve_pc.splits serve_input.splits option.splits prod.splits bool.splits if_splits)

lemma stop_role:
  assumes "serve_stop_step ul ev pc s = Some (pc', s')"
  shows "\<not> waiting pc" "\<not> waiting pc'" "process_over s' = process_over s" "svEvents s' = svEvents s" "pc' \<noteq> SvPanicked" "serve_core pc' = pc'"
  using assms by (auto simp: serve_stop_step_def Let_def process_over_def postNoBody_def sv_act_def
      split: serve_pc.splits serve_input.splits once.splits option.splits if_splits)

interpretation serve_waiter: turn_flag "serve_step ul" waiting "\<lambda>s. \<not> process_over s" for ul
proof
  fix ev pc s pc' s'
  assume "serve_step ul ev pc s = Some (pc', s')"
  then have *: "waiting pc' = waiting pc \<and> process_over s' = process_over s \<or>
      waiting pc \<and> (waiting pc' \<longrightarrow> process_over s' = process_over s) \<and> (\<not> waiting pc' \<longrightarrow> process_over s')"
  proof (cases rule: serve_step_roles)
    case 1
    then show ?thesis using core_eq_roles[of pc' pc] by (auto simp: aside_def)
  next
    case 2
    show ?thesis using waiter_role[OF 2] by auto
  next
    case 3
    show ?thesis using stop_role[OF 3] by auto
  qed
  show "\<not> \<not> process_over s \<and> \<not> process_over s'" if "\<not> waiting pc" "waiting pc'" using * that by blast
  show "(\<not> process_over s') = (\<not> process_over s)" if "\<not> waiting pc" "\<not> waiting pc'" using * that by blast
  show "(\<not> process_over s') = (\<not> process_over s)" if "waiting pc" "waiting pc'" using * that by blast
  show "\<not> \<not> process_over s'" if "waiting pc" "\<not> waiting pc'" using * that by blast
qed

end
