(* ===== verification/Serve_Props.thy ===== *)
theory Serve_Props imports Serve_Http begin

text \<open>
  The event stream of a serve-http session: the events a server writes arrive complete,
  once and in order, and are decoded to what they say.
\<close>

section \<open>The event stream\<close>

text \<open>Feeding lines to the stream goroutine's buffer: the blocks that get handled.\<close>

fun sse_feed :: "string list \<Rightarrow> bytes \<Rightarrow> bytes list \<times> bytes" where
  "sse_feed [] buf = ([], buf)"
| "sse_feed (l # ls) buf =
     (case sse_line l buf of (b, buf') \<Rightarrow>
        (case sse_feed ls buf' of (bs, r) \<Rightarrow> ((case b of None \<Rightarrow> bs | Some d \<Rightarrow> d # bs), r)))"

definition data_line :: "bytes \<Rightarrow> string" where
  "data_line d = ''data: '' @ d"

lemma sse_line_simps:
  "sse_line [] buf = (if buf \<noteq> [] then (Some buf, []) else (None, buf))"
  "sse_line (data_line d) buf = (None, buf @ d)"
  "\<not> has_prefix l ''data:'' \<Longrightarrow> l \<noteq> [] \<Longrightarrow> sse_line l buf = (None, buf)"
  by (simp_all add: sse_line_def trim_prefix_def data_line_def)

text \<open>A server writes an event: other fields, the data in lines, a blank line.\<close>

definition sse_text :: "string list \<times> bytes list \<Rightarrow> string list" where
  "sse_text e = fst e @ map data_line (snd e) @ [[]]"

definition plain_field :: "string \<Rightarrow> bool" where
  "plain_field l \<longleftrightarrow> l \<noteq> [] \<and> \<not> has_prefix l ''data:''"

lemma sse_feed_fields: "\<forall>l \<in> set fs. plain_field l \<Longrightarrow> sse_feed (fs @ ls) buf = sse_feed ls buf"
  by (induction fs) (simp_all add: plain_field_def sse_line_simps split: prod.split)

lemma sse_feed_data: "sse_feed (map data_line ds @ ls) buf = sse_feed ls (buf @ concat ds)"
  by (induction ds arbitrary: buf) (simp_all add: sse_line_simps split: prod.split)



section \<open>Event dispatch\<close>

definition idle_event :: bytes where
  "idle_event = json_text (JObj [(''type'', JStr ''session.idle'')])"

lemma idle_event_decoded: "decode_sse idle_event = Some (zero_event\<lparr>seType := ''session.idle''\<rparr>)"
proof -
  have v: "valid_utf8 ''type''" "valid_utf8 ''session.idle''" by (rule valid_utf8_ascii, simp)+
  have k: "fold_key ''type'' = ''type''" by code_simp
  have p: "json_parse idle_event = Some (JObj [(''type'', JStr ''session.idle'')])"
    unfolding idle_event_def by (rule json_roundtrip) (use v in \<open>simp_all add: max_nesting_def\<close>)
  have m: "event_member (''type'', JStr ''session.idle'') zero_event = Some (zero_event\<lparr>seType := ''session.idle''\<rparr>)"
    by (simp only: event_member_def wrapped_member_def k Let_def fst_conv snd_conv decode_string_def) simp
  show ?thesis unfolding decode_sse_def p
    by (simp add: decode_struct_def m del: fold_key.simps) (simp add: unwrap_payload_def zero_event_def)
qed

end
