(* ===== verification/Serve_Races.thy ===== *)
theory Serve_Races imports Serve_Life Serve_Props Adapter_Props begin

text \<open>
  The theorems on the end of a serve-http session: the teardown happens exactly once and
  \<open>Wait\<close> is stable; the exit code that the second finisher loses; the end of a turn that
  overtakes its start.
\<close>

section \<open>Nothing panics\<close>

lemma stop_once_role:
  assumes "serve_stop_step ul ev pc s = Some (pc', s')"
  shows "stopping pc' \<Longrightarrow> \<not> stopping pc \<Longrightarrow> svStopOnce s \<noteq> OnceRunning \<and> svStopOnce s' = OnceRunning \<and> pc' = SvStopState"
    "\<not> stopping pc' \<Longrightarrow> \<not> stopping pc \<Longrightarrow> svStopOnce s' = svStopOnce s"
    "stopping pc' \<Longrightarrow> stopping pc \<Longrightarrow> svStopOnce s' = svStopOnce s"
    "\<not> stopping pc' \<Longrightarrow> stopping pc \<Longrightarrow> svStopOnce s' \<noteq> OnceRunning"
  using assms by (auto simp: serve_stop_step_def Let_def postNoBody_def sv_act_def
      split: serve_pc.splits serve_input.splits once.splits option.splits if_splits)

interpretation serve_stopping: turn_flag "serve_step ul" stopping "\<lambda>s. svStopOnce s = OnceRunning" for ul
proof
  fix ev pc s pc' s'
  assume "serve_step ul ev pc s = Some (pc', s')"
  then have *: "stopping pc' = stopping pc \<and> svStopOnce s' = svStopOnce s \<or> serve_stop_step ul ev pc s = Some (pc', s')"
  proof (cases rule: serve_step_roles)
    case 1
    then show ?thesis using core_eq_roles[of pc' pc] by (auto simp: aside_def)
  next
    case 2
    show ?thesis using waiter_role[OF 2] by auto
  qed simp
  show "\<not> svStopOnce s = OnceRunning \<and> svStopOnce s' = OnceRunning" if "\<not> stopping pc" "stopping pc'"
    using * stop_once_role(1) that by blast
  show "(svStopOnce s' = OnceRunning) = (svStopOnce s = OnceRunning)" if "\<not> stopping pc" "\<not> stopping pc'"
    using * stop_once_role(2) that by auto
  show "(svStopOnce s' = OnceRunning) = (svStopOnce s = OnceRunning)" if "stopping pc" "stopping pc'"
    using * stop_once_role(3) that by auto
  show "\<not> svStopOnce s' = OnceRunning" if "stopping pc" "\<not> stopping pc'"
    using * stop_once_role(4) that by blast
qed

text \<open>A session as \<open>Start\<close> leaves it when it has made its goroutines.\<close>

definition serve_fresh :: "serve_session \<Rightarrow> bool" where
  "serve_fresh s \<longleftrightarrow> \<not> process_over s \<and> chQueue (svProcessDone s) = [] \<and> svStopOnce s = OnceNew \<and> \<not> svStopRequested s \<and>
     \<not> svDone s \<and> \<not> svWaitOnce s \<and> teardown s = [] \<and> svAlive s \<and> fan_safe s"

lemma serve_start_role: "serve_start pc \<Longrightarrow> \<not> waiting pc \<and> \<not> stopping pc \<and> serve_core pc \<noteq> SvPanicked"
  by (cases pc) simp_all

lemma serve_threads_counts:
  assumes "serve_fresh s"
  shows "count_in waiting serve_threads = of_bool (\<not> process_over s)"
    "count_in stopping serve_threads = of_bool (svStopOnce s = OnceRunning)"
  using assms by (simp_all add: serve_threads_def count_in_def serve_fresh_def)

lemma waiter_never_panics:
  assumes "serve_reach ul s0 ts s" "serve_fresh s0"
  shows "\<forall>pc \<in> set ts. waiting pc \<longrightarrow> serve_core pc \<noteq> SvWaiterPanicked"
proof -
  have "True \<and> (\<forall>pc \<in> set ts. waiting pc \<longrightarrow> serve_core pc \<noteq> SvWaiterPanicked)"
  proof (rule serve_waiter.turn_invariant[where P = "\<lambda>s. True" and G = "\<lambda>s pc. serve_core pc \<noteq> SvWaiterPanicked", OF assms(1)
        serve_threads_counts(1)[OF assms(2)]])
    show "\<And>pc. serve_start pc \<Longrightarrow> \<not> waiting pc" using serve_start_role by blast
    show "\<forall>pc \<in> set serve_threads. waiting pc \<longrightarrow> serve_core pc \<noteq> SvWaiterPanicked" by (simp add: serve_threads_def)
  next
    fix ev pc s pc' s'
    assume a: "\<not> waiting pc" "serve_step ul ev pc s = Some (pc', s')"
    have "\<not> waiting pc'" using a(2)
    proof (cases rule: serve_step_roles)
      case 1
      then show ?thesis using a(1) core_eq_roles[of pc' pc] by (auto simp: aside_def)
    next
      case 2
      then show ?thesis using waiter_role(1) a(1) by blast
    next
      case 3
      then show ?thesis using stop_role(2) by blast
    qed
    then show "True \<and> (waiting pc' \<longrightarrow> serve_core pc' \<noteq> SvWaiterPanicked) \<and>
       (\<forall>qc. waiting qc \<longrightarrow> serve_core qc \<noteq> SvWaiterPanicked \<longrightarrow> serve_core qc \<noteq> SvWaiterPanicked)" by blast
  next
    fix ev pc s pc' s'
    assume a: "waiting pc" "\<not> process_over s" "serve_core pc \<noteq> SvWaiterPanicked" "serve_step ul ev pc s = Some (pc', s')"
    from a(4) have "waiting pc' \<longrightarrow> serve_core pc' \<noteq> SvWaiterPanicked"
    proof (cases rule: serve_step_roles)
      case 1
      then show ?thesis using a(1,3) by (auto simp: aside_def)
    next
      case 2
      then show ?thesis using waiter_role(9,10)[OF 2] a(2) by auto
    next
      case 3
      then show ?thesis using stop_role(1) a(1) by blast
    qed
    then show "True \<and> (waiting pc' \<longrightarrow> serve_core pc' \<noteq> SvWaiterPanicked)" by simp
  qed simp
  then show ?thesis by blast
qed

text \<open>\<open>stopRequested\<close> is closed by the one run of the first \<open>sync.Once\<close>.\<close>

definition serve_stop_fact :: "serve_session \<Rightarrow> serve_pc \<Rightarrow> bool" where
  "serve_stop_fact s pc \<longleftrightarrow> serve_core pc \<noteq> SvStopPanicked \<and>
     (serve_core pc \<in> {SvStopState, SvStopCancel} \<longrightarrow> \<not> svStopRequested s)"

lemma stop_request_step:
  assumes "serve_stop_step ul ev pc s = Some (pc', s')"
  shows "stopping pc \<Longrightarrow> serve_stop_fact s pc \<Longrightarrow> stopping pc' \<Longrightarrow> serve_stop_fact s' pc'"
    "\<not> stopping pc \<Longrightarrow> svStopRequested s' = svStopRequested s" "svStopRequested s' \<longrightarrow> svStopRequested s \<or> stopping pc"
    "svStopOnce s = OnceNew \<and> stopping pc \<or> svStopOnce s \<noteq> OnceNew \<longrightarrow> svStopOnce s' = svStopOnce s \<or> svStopOnce s' = OnceDone"
    "stopping pc' \<Longrightarrow> \<not> stopping pc \<Longrightarrow> svStopOnce s = OnceNew"
  using assms by (auto simp: serve_stop_step_def serve_stop_fact_def Let_def postNoBody_def sv_act_def
      split: serve_pc.splits serve_input.splits once.splits option.splits if_splits)

lemma stop_never_panics:
  assumes "serve_reach ul s0 ts s" "serve_fresh s0"
  shows "(svStopOnce s = OnceNew \<longrightarrow> \<not> svStopRequested s) \<and> (\<forall>pc \<in> set ts. stopping pc \<longrightarrow> serve_stop_fact s pc)"
proof (rule serve_stopping.turn_invariant[where P = "\<lambda>s. svStopOnce s = OnceNew \<longrightarrow> \<not> svStopRequested s" and G = serve_stop_fact,
      OF assms(1) serve_threads_counts(2)[OF assms(2)]])
  show "\<And>pc. serve_start pc \<Longrightarrow> \<not> stopping pc" using serve_start_role by blast
  show "svStopOnce s0 = OnceNew \<longrightarrow> \<not> svStopRequested s0" using assms(2) by (simp add: serve_fresh_def)
  show "\<forall>pc \<in> set serve_threads. stopping pc \<longrightarrow> serve_stop_fact s0 pc" by (simp add: serve_threads_def)
next
  fix ev pc s pc' s'
  assume a: "svStopOnce s = OnceNew \<longrightarrow> \<not> svStopRequested s" "\<not> stopping pc" "serve_step ul ev pc s = Some (pc', s')"
  from a(3) have same: "svStopRequested s' = svStopRequested s"
    and once: "svStopOnce s' = OnceNew \<longrightarrow> svStopOnce s = OnceNew"
    and new: "stopping pc' \<longrightarrow> pc' = SvStopState \<and> svStopOnce s = OnceNew"
  proof (atomize (full), cases rule: serve_step_roles)
    case 1
    then show "svStopRequested s' = svStopRequested s \<and> (svStopOnce s' = OnceNew \<longrightarrow> svStopOnce s = OnceNew) \<and>
       (stopping pc' \<longrightarrow> pc' = SvStopState \<and> svStopOnce s = OnceNew)"
      using a(2) core_eq_roles[of pc' pc] by (auto simp: aside_def)
  next
    case 2
    then show "svStopRequested s' = svStopRequested s \<and> (svStopOnce s' = OnceNew \<longrightarrow> svStopOnce s = OnceNew) \<and>
       (stopping pc' \<longrightarrow> pc' = SvStopState \<and> svStopOnce s = OnceNew)"
      using waiter_role[OF 2] by auto
  next
    case 3
    then show "svStopRequested s' = svStopRequested s \<and> (svStopOnce s' = OnceNew \<longrightarrow> svStopOnce s = OnceNew) \<and>
       (stopping pc' \<longrightarrow> pc' = SvStopState \<and> svStopOnce s = OnceNew)"
      using a(2) stop_request_step[OF 3] stop_once_role[OF 3] by (cases "stopping pc'") auto
  qed
  show "(svStopOnce s' = OnceNew \<longrightarrow> \<not> svStopRequested s') \<and> (stopping pc' \<longrightarrow> serve_stop_fact s' pc') \<and>
     (\<forall>qc. stopping qc \<longrightarrow> serve_stop_fact s qc \<longrightarrow> serve_stop_fact s' qc)"
    using a(1) same once new by (auto simp: serve_stop_fact_def)
next
  fix ev pc s pc' s'
  assume a: "svStopOnce s = OnceNew \<longrightarrow> \<not> svStopRequested s" "stopping pc" "svStopOnce s = OnceRunning" "serve_stop_fact s pc"
    "serve_step ul ev pc s = Some (pc', s')"
  from a(5) show "(svStopOnce s' = OnceNew \<longrightarrow> \<not> svStopRequested s') \<and> (stopping pc' \<longrightarrow> serve_stop_fact s' pc')"
  proof (cases rule: serve_step_roles)
    case 1
    then show ?thesis using a by (auto simp: aside_def serve_stop_fact_def)
  next
    case 2
    then show ?thesis using waiter_role(2) a(2) by blast
  next
    case 3
    then show ?thesis using stop_request_step(1,4)[OF 3] a(2,3,4) by (cases "stopping pc'") auto
  qed
qed


lemma event_never_panics:
  assumes "serve_reach ul s0 ts s" "serve_fresh s0"
  shows "fan_safe s \<and> (\<forall>pc \<in> set ts. serve_core pc \<noteq> SvPanicked)"
proof (rule threads_invariant[where P = fan_safe and Q = "\<lambda>s pc. serve_core pc \<noteq> SvPanicked", OF assms(1)])
  show "fan_safe s0" using assms(2) by (simp add: serve_fresh_def)
  show "\<forall>pc \<in> set serve_threads. serve_core pc \<noteq> SvPanicked" by (simp add: serve_threads_def)
  show "\<And>pc s. serve_start pc \<Longrightarrow> serve_core pc \<noteq> SvPanicked" using serve_start_role by blast
next
  fix ev pc s pc' s'
  assume a: "fan_safe s" "serve_core pc \<noteq> SvPanicked" "serve_step ul ev pc s = Some (pc', s')"
  from a(3) show "fan_safe s' \<and> serve_core pc' \<noteq> SvPanicked"
  proof (cases rule: serve_step_roles)
    case 1
    then show ?thesis using a(1,2) by (auto simp: aside_def)
  next
    case 2
    have "pc' \<noteq> SvPanicked" using waiter_role(8)[OF 2] 2
      by (auto simp: waiter_step_def split: serve_pc.splits serve_input.splits option.splits prod.splits bool.splits)
    then show ?thesis using waiter_role(6,10)[OF 2] a(1) by (simp add: fan_safe_def)
  next
    case 3
    then show ?thesis using stop_role[OF 3] a(1) by (simp add: fan_safe_def)
  qed
qed

section \<open>The teardown\<close>

lemma teardown_reach:
  assumes "threads_reach (serve_step ul) serve_start ts0 s0 ts s" "teardown_inv s0"
  shows "teardown_inv s \<and> svBootDir s = svBootDir s0 \<and> (serveWait s0 \<noteq> None \<longrightarrow> serveWait s = serveWait s0) \<and>
    (svAlive s \<longrightarrow> svAlive s0)"
  using assms(1)
proof (induction rule: threads_reach.induct)
  case (move ts s n ev pc' s')
  have "svBootDir s' = svBootDir s"
    using serve_step_cases[OF move.hyps(3)] by (auto simp: serve_kept_def finish_once_def)
  then show ?case using move.IH teardown_step[OF _ move.hyps(3)] by (simp add: serveWait_def split: if_splits)
qed (use assms(2) in simp_all)

lemma serve_spawn_fresh:
  assumes "serve_spawn environ o' s = (None, s')" "serve_fresh s"
  shows "serve_fresh s' \<and> svBootDir s' = svBootDir s"
  using assms unfolding serve_spawn_def Let_def
  by (auto simp: serve_fresh_def sv_act_def teardown_def process_over_def fan_safe_def
      split: option.splits sum.splits prod.splits if_splits)

lemma serveStart_fresh:
  assumes "serveStart cfg ad behav o' opts events fs = ((None, Some s, ts), fs')" "\<forall>c. events = Some c \<longrightarrow> \<not> chClosed c"
  shows "serve_fresh s \<and> ts = serve_threads"
proof -
  have new: "serve_fresh (new_serve cfg' ad' dir opts' events)" for cfg' ad' dir opts'
    using assms(2) by (simp add: serve_fresh_def new_serve_def teardown_def process_over_def fan_safe_def)
  show ?thesis using assms(1) serve_spawn_fresh[OF _ new] unfolding serveStart_def Let_def
    by (auto split: option.splits sum.splits prod.splits if_splits)
qed



section \<open>Two finishers\<close>

lemma finish_first:
  assumes "chQueue (svProcessDone s) = [err]"
  shows "inputs_run (serve_step ul) [SinGo, SinGo, SinGo, SinGo] (SvFinish, s) =
     Some (SvFinishEnd, finish_once err (s\<lparr>svProcessDone := (svProcessDone s)\<lparr>chQueue := []\<rparr>,
       svAlive := False, svState := LiveStateStopped\<rparr>))"
  using assms by (simp add: serve_step_def orelse_step_def waiter_step_def finisher_step_def chan_recv_def)

lemma finish_second:
  assumes "chQueue (svProcessDone s) = []" "chClosed (svProcessDone s)"
  shows "inputs_run (serve_step ul) [SinGo, SinGo, SinGo, SinGo] (SvFinish, s) =
     Some (SvFinishEnd, finish_once None (s\<lparr>svAlive := False, svState := LiveStateStopped\<rparr>))"
  using assms by (simp add: serve_step_def orelse_step_def waiter_step_def finisher_step_def)

lemma finish_received:
  "inputs_run (serve_step ul) [SinGo, SinGo, SinGo] (SvFinishAlive err, s) =
     Some (SvFinishEnd, finish_once err (s\<lparr>svAlive := False, svState := LiveStateStopped\<rparr>))"
  by (simp add: serve_step_def orelse_step_def waiter_step_def finisher_step_def)

text \<open>C37.
  The exit code depends on a race.  \<open>Start\<close> runs \<open>finishOnProcessExit\<close> twice; the
  process result is in the channel once, whoever receives after it finds the channel
  closed and takes that for a clean exit.  From every state in which both wait and the
  child has ended with \<open>err\<close>, one order of the two makes \<open>Wait\<close> return the code and
  error of \<open>err\<close>, and another one code 0 and no error, whatever \<open>err\<close> is.
\<close>

theorem serve_exit_code_lost:
  assumes "i < length ts" "j < length ts" "i \<noteq> j" "ts ! i = SvFinish" "ts ! j = SvFinish"
    and "chQueue (svProcessDone s) = [err]" "chClosed (svProcessDone s)" "\<not> svWaitOnce s"
  shows "(\<exists>s'. threads_run (serve_step ul) (map (Move i) [SinGo, SinGo, SinGo, SinGo]) (ts, s) = Some (ts[i := SvFinishEnd], s') \<and>
        serveWait s' = Some (process_exit_result err)) \<and>
     (\<exists>s'. threads_run (serve_step ul) (Move i SinGo # map (Move j) [SinGo, SinGo, SinGo, SinGo] @ map (Move i) [SinGo, SinGo, SinGo])
          (ts, s) = Some (ts[i := SvFinishEnd, j := SvFinishEnd], s') \<and> serveWait s' = Some (0, None))"
proof
  let ?q = "s\<lparr>svProcessDone := (svProcessDone s)\<lparr>chQueue := []\<rparr>\<rparr>"
  let ?s1 = "finish_once err (?q\<lparr>svAlive := False, svState := LiveStateStopped\<rparr>)"
  have "inputs_run (serve_step ul) [SinGo, SinGo, SinGo, SinGo] (ts ! i, s) = Some (SvFinishEnd, ?s1)"
    unfolding assms(4) by (rule finish_first[OF assms(6)])
  from inputs_run_threads[OF assms(1) this]
  show "\<exists>s'. threads_run (serve_step ul) (map (Move i) [SinGo, SinGo, SinGo, SinGo]) (ts, s) = Some (ts[i := SvFinishEnd], s') \<and>
        serveWait s' = Some (process_exit_result err)"
    by (rule exI[of _ ?s1, OF conjI]) (use assms(8) in \<open>simp add: serveWait_def finish_once_def\<close>)
next
  let ?q = "s\<lparr>svProcessDone := (svProcessDone s)\<lparr>chQueue := []\<rparr>\<rparr>"
  let ?ts = "ts[i := SvFinishAlive err]"
  let ?s2 = "finish_once None (?q\<lparr>svAlive := False, svState := LiveStateStopped\<rparr>)"
  let ?s3 = "finish_once err (?s2\<lparr>svAlive := False, svState := LiveStateStopped\<rparr>)"
  have a: "threads_run (serve_step ul) [Move i SinGo] (ts, s) = Some (?ts, ?q)"
    using assms(1,4,6) by (simp add: serve_step_def orelse_step_def waiter_step_def finisher_step_def chan_recv_def)
  have "inputs_run (serve_step ul) [SinGo, SinGo, SinGo, SinGo] (?ts ! j, ?q) = Some (SvFinishEnd, ?s2)"
    using finish_second[of ?q ul] assms(3,5,7) by simp
  from inputs_run_threads[OF _ this] assms(2)
  have b: "threads_run (serve_step ul) (map (Move j) [SinGo, SinGo, SinGo, SinGo]) (?ts, ?q) = Some (?ts[j := SvFinishEnd], ?s2)"
    by simp
  have "inputs_run (serve_step ul) [SinGo, SinGo, SinGo] (?ts[j := SvFinishEnd] ! i, ?s2) = Some (SvFinishEnd, ?s3)"
    using finish_received[of ul err ?s2] assms(1,3) by simp
  from inputs_run_threads[OF _ this] assms(1)
  have c: "threads_run (serve_step ul) (map (Move i) [SinGo, SinGo, SinGo]) (?ts[j := SvFinishEnd], ?s2) =
      Some (?ts[j := SvFinishEnd, i := SvFinishEnd], ?s3)" by simp
  have "threads_run (serve_step ul) ([Move i SinGo] @ map (Move j) [SinGo, SinGo, SinGo, SinGo] @ map (Move i) [SinGo, SinGo, SinGo]) (ts, s) =
      Some (?ts[j := SvFinishEnd, i := SvFinishEnd], ?s3)"
    unfolding threads_run_append[OF a] threads_run_append[OF b] by (rule c)
  moreover have "?ts[j := SvFinishEnd, i := SvFinishEnd] = ts[i := SvFinishEnd, j := SvFinishEnd]"
    using assms(3) by (simp add: list_update_swap)
  moreover have "serveWait ?s3 = Some (0, None)" using assms(8) by (simp add: serveWait_def finish_once_def process_exit_result_def)
  ultimately show "\<exists>s'. threads_run (serve_step ul) (Move i SinGo # map (Move j) [SinGo, SinGo, SinGo, SinGo] @ map (Move i) [SinGo, SinGo, SinGo])
          (ts, s) = Some (ts[i := SvFinishEnd, j := SvFinishEnd], s') \<and> serveWait s' = Some (0, None)"
    by (metis append_Cons append_Nil)
qed

section \<open>A turn that ends before it begins\<close>

text \<open>The stream goroutine on the lines of one idle event.\<close>

definition idle_lines :: "serve_input list" where
  "idle_lines = [SinLine (data_line idle_event), SinLine [], SinGo, SinGo, SinGo, SinGo]"

lemma idle_event_handled:
  "handleSSEData idle_event s = (SvTurnClear (llm_event EventDone ''''), writeOutput (idle_event @ [newline]) s)"
  unfolding handleSSEData_def Let_def idle_event_decoded option.case by (simp add: zero_event_def)

lemma stream_idle_run:
  assumes "svAlive s" "fan_safe s"
  shows "\<exists>s'. inputs_run (serve_step ul) idle_lines (SvStream [], s) = Some (SvStream [], s') \<and>
    \<not> svTurnInFlight s' \<and> svState s' = LiveStateIdle \<and> svAlive s'"
proof -
  let ?u = "(writeOutput (idle_event @ [newline]) s)\<lparr>svTurnInFlight := False, svState := LiveStateIdle\<rparr>"
  have al: "svAlive (writeOutput (idle_event @ [newline]) s)" using assms(1) by (simp add: writeOutput_def)
  obtain pc u where f: "fan_event (llm_event EventDone '''') ?u = (pc, u)" by fastforce
  have "fan_safe ?u" using assms(2) by (simp add: fan_safe_def)
  then have pc: "pc = SvStream []" using fan_event_safe[OF f] fan_event_sel[OF f] by auto
  have ne: "idle_event \<noteq> []" by (simp add: idle_event_def)
  have "inputs_run (serve_step ul) idle_lines (SvStream [], s) = Some (SvStream [], u)"
    using f pc al ne unfolding idle_lines_def
    by (simp add: serve_step_def orelse_step_def waiter_step_def finisher_step_def scanner_step_def stream_step_def
        sse_line_simps idle_event_handled)
  moreover have "\<not> svTurnInFlight u \<and> svState u = LiveStateIdle \<and> svAlive u" using fan_event_sel[OF f] al by auto
  ultimately show ?thesis by blast
qed

text \<open>C38.
  The end of a turn can overtake its beginning.  The server has accepted the prompt;
  before \<open>SendInput\<close> stores the processing state, the idle event of this very turn
  arrives and is handled completely.  Then \<open>SendInput\<close> stores it: the live session
  reports that it is processing although no turn is in flight, and nothing will
  correct that until another turn ends.
\<close>

theorem serve_idle_overtaken:
  assumes "n < length ts" "ts ! n = SvPost d" "m < length ts" "ts ! m = SvStream []" "svAlive s" "fan_safe s"
    and "200 \<le> status" "status < 300"
  shows "\<exists>s'. threads_run (serve_step ul)
       ([Move n (SinHttp (HttpResponse status body))] @ map (Move m) idle_lines @ [Move n SinGo]) (ts, s) =
         Some (ts[n := SvReturned None], s') \<and>
       \<not> svTurnInFlight s' \<and> hsAlive (serveHealth s') \<and> hsState (serveHealth s') = LiveStateProcessing"
proof -
  let ?s1 = "sv_act (SaPost (session_url ul ''/prompt_async'' s) (json_text (prompt_json d))) s"
  let ?ts = "ts[n := SvProcessing]"
  have nm: "n \<noteq> m" using assms(2,4) by auto
  have a: "threads_run (serve_step ul) [Move n (SinHttp (HttpResponse status body))] (ts, s) = Some (?ts, ?s1)"
    using assms(1,2,7,8) by (simp add: serve_step_def orelse_step_def waiter_step_def finisher_step_def scanner_step_def
        stream_step_def input_step_def Let_def)
  have safe: "svAlive ?s1" "fan_safe ?s1" using assms(5,6) by (simp_all add: sv_act_def fan_safe_def)
  obtain u where u: "inputs_run (serve_step ul) idle_lines (SvStream [], ?s1) = Some (SvStream [], u)"
    "\<not> svTurnInFlight u" "svAlive u"
    using stream_idle_run[OF safe] by blast
  have m: "m < length ?ts" "?ts ! m = SvStream []" "?ts[m := SvStream []] = ?ts"
    using assms(3,4) nm by (auto simp: list_update_same_conv)
  from inputs_run_threads[OF m(1), of "serve_step ul" idle_lines ?s1] u(1) m(2,3)
  have b: "threads_run (serve_step ul) (map (Move m) idle_lines) (?ts, ?s1) = Some (?ts, u)" by simp
  have c: "threads_run (serve_step ul) [Move n SinGo] (?ts, u) = Some (ts[n := SvReturned None], u\<lparr>svState := LiveStateProcessing\<rparr>)"
    using assms(1) by (simp add: serve_step_def orelse_step_def waiter_step_def finisher_step_def scanner_step_def
        stream_step_def input_step_def)
  show ?thesis
    unfolding threads_run_append[OF a] threads_run_append[OF b] c
    using u(2,3) by (intro exI[of _ "u\<lparr>svState := LiveStateProcessing\<rparr>"]) (simp add: serveHealth_def)
qed


section \<open>Examples\<close>

definition demo_serve_options :: start_options where
  "demo_serve_options = plant_options\<lparr>optLogPath := ''/w/log'', optSessionIDPreset := ''s1'', optAutoPlantBootDir := False\<rparr>"

definition demo_url :: url_lib where
  "demo_url = \<lparr>ulRequestURI = (\<lambda>u. True), ulSetQuery = (\<lambda>u k v. Some u), ulPathEscape = (\<lambda>p. p)\<rparr>"

definition demo_serve_oracle :: serve_oracle where
  "demo_serve_oracle = \<lparr>seoFs = sample_io, seoCreateLog = None, seoEnviron = [],
     seoSpawn = \<lparr>ssStdout = None, ssStderr = None, ssSandbox = Inr, ssLimits = (\<lambda>c. (None, c)), ssStart = Inr 42\<rparr>\<rparr>"

definition demo_serve :: serve_session where
  "demo_serve = snd (serve_spawn [] (seoSpawn demo_serve_oracle)
     (new_serve demo_turn_config demo_turn_child '''' demo_serve_options None))"

lemma demo_serve_start:
  "serveStart demo_turn_config demo_turn_adapter (\<lambda>a. demo_turn_child) demo_serve_oracle demo_serve_options None empty_fs =
     ((None, Some demo_serve, serve_threads), empty_fs)"
  by (simp add: serveStart_def preparePlant_def no_plant_def demo_serve_options_def plant_options_def demo_serve_def
      resolveServeHTTPLogPath_def demo_serve_oracle_def serve_spawn_def demo_turn_child_def new_serve_def Let_def)

lemma demo_serve_sel:
  "svReadyURL demo_serve = new_chan 1" "svProcessDone demo_serve = new_chan 1" "svAlive demo_serve" "\<not> svDone demo_serve"
  "optSessionIDPreset (svOpts demo_serve) = ''s1''" "\<not> optAutoFireFirstTurn (svOpts demo_serve)" "optFanout (svOpts demo_serve) = None"
  "optProfileID (svOpts demo_serve) = ''''" "\<not> svWaitOnce demo_serve" "svEvents demo_serve = None" "svBootDir demo_serve = ''''"
  "\<not> svLaunched demo_serve" "\<not> svTurnInFlight demo_serve"
  by (simp_all add: demo_serve_options_def plant_options_def demo_serve_def demo_serve_oracle_def serve_spawn_def
      demo_turn_child_def new_serve_def sv_act_def Let_def)

text \<open>\<open>Start\<close> runs to its end.\<close>

definition demo_up :: "(serve_input, serve_pc) sched list" where
  "demo_up = map (Move 1) [SinLine ''http://h''] @
     map (Move 4) [SinSelect ChReady, SinPoll (Poll (HttpResponse 200 []) False False), SinGo, SinGo] @
     map (Move 5) [SinGo] @ map (Move 6) [SinGo]"

definition demo_up_threads :: "serve_pc list" where
  "demo_up_threads = [SvWaiter, SvScan, SvScan, SvFinish, SvStarted, SvStream [], SvFinish]"

lemma runes_ascii: "\<forall>c \<in> set s. of_char c < (128::nat) \<Longrightarrow> runes s = map (\<lambda>c. (of_char c, [c])) s"
proof (induction s)
  case (Cons c s)
  have "decode_rune (c # s) = (of_char c, 1)" using Cons.prems by (intro decode_rune_ascii) simp
  then show ?case using Cons by (subst runes.simps) (simp del: decode_rune.simps)
qed simp

lemma fields_word: "\<forall>r \<in> set rs. \<not> is_space (fst r) \<Longrightarrow>
    fields_loop rs acc = (if acc @ concat (map snd rs) = [] then [] else [acc @ concat (map snd rs)])"
  by (induction rs arbitrary: acc) (auto simp del: concat_eq_Nil_conv)

lemma str_fields_word:
  assumes "s \<noteq> []" "\<forall>c \<in> set s. of_char c < (128::nat) \<and> \<not> is_space (of_char c)"
  shows "str_fields s = [s]"
proof -
  have "runes s = map (\<lambda>c. (of_char c, [c])) s" using assms(2) by (intro runes_ascii) blast
  then show ?thesis using assms fields_word[of "map (\<lambda>c. (of_char c, [c])) s" "[]"]
    by (simp add: str_fields_def comp_def concat_map_singleton[of id, simplified])
qed

lemma demo_listen: "parseServeHTTPListenURL demo_url ''http://h'' = ''http://h''"
proof -
  have "str_index ''http://h'' ''http://'' = Some 0" by simp
  moreover have "str_fields ''http://h'' = [''http://h'']" by (rule str_fields_word) (simp_all add: is_space_def)
  moreover have "trim_right ''http://h'' ''.,;)'' = ''http://h''" by (simp add: trim_right_def)
  ultimately show ?thesis by (simp only: parseServeHTTPListenURL_def option.case drop_0 list.case Let_def) (simp add: demo_url_def)
qed

lemma demo_scan:
  assumes "svReadyURL s = new_chan 1"
  shows "inputs_run (serve_step demo_url) [SinLine ''http://h''] (SvScan, s) =
    Some (SvScan, (writeOutput (''http://h'' @ [newline]) s)\<lparr>svReadyURL := (new_chan 1)\<lparr>chQueue := [''http://h'']\<rparr>\<rparr>)"
proof -
  have "svReadyURL (writeOutput (''http://h'' @ [newline]) s) = new_chan 1" using assms by (simp add: writeOutput_def)
  then have "scan_line demo_url ''http://h'' s =
      (writeOutput (''http://h'' @ [newline]) s)\<lparr>svReadyURL := (new_chan 1)\<lparr>chQueue := [''http://h'']\<rparr>\<rparr>"
    unfolding scan_line_def Let_def demo_listen by (simp add: chan_try_send_def)
  then show ?thesis by (simp add: serve_step_def orelse_step_def waiter_step_def finisher_step_def scanner_step_def)
qed

lemma start_run:
  assumes "chQueue (svReadyURL s) = [''http://h'']" "optSessionIDPreset (svOpts s) = ''s1''" "\<not> optAutoFireFirstTurn (svOpts s)"
  shows "inputs_run (serve_step ul) [SinSelect ChReady, SinPoll (Poll (HttpResponse 200 []) False False), SinGo, SinGo] (SvStartSelect, s) =
    Some (SvStarted, s\<lparr>svBaseURL := trim_right ''http://h'' ''/'', svReadyURL := chan_recv (svReadyURL s), svSessionID := ''s1'',
      svLaunched := True\<rparr>)"
  using assms by (simp add: serve_step_def orelse_step_def waiter_step_def finisher_step_def scanner_step_def stream_step_def
      input_step_def serve_stop_step_def serve_start_step_def start_select_def waitHealthy_def)

lemma launch_run:
  assumes "svLaunched s"
  shows "inputs_run (serve_step ul) [SinGo] (SvLater (SvStream []), s) = Some (SvStream [], s\<lparr>svStreaming := True\<rparr>)"
    "inputs_run (serve_step ul) [SinGo] (SvLater SvFinish, s) = Some (SvFinish, s)"
  using assms by (simp_all add: serve_step_def orelse_step_def waiter_step_def finisher_step_def scanner_step_def stream_step_def
      input_step_def serve_stop_step_def serve_start_step_def)

lemma demo_up_run:
  "\<exists>s. threads_run (serve_step demo_url) demo_up (serve_threads, demo_serve) = Some (demo_up_threads, s) \<and>
     svProcessDone s = new_chan 1 \<and> \<not> svWaitOnce s \<and> svAlive s \<and> svEvents s = None \<and> optProfileID (svOpts s) = '''' \<and> \<not> svTurnInFlight s"
proof -
  let ?s1 = "(writeOutput (''http://h'' @ [newline]) demo_serve)\<lparr>svReadyURL := (new_chan 1)\<lparr>chQueue := [''http://h'']\<rparr>\<rparr>"
  let ?s2 = "?s1\<lparr>svBaseURL := trim_right ''http://h'' ''/'', svReadyURL := chan_recv (svReadyURL ?s1), svSessionID := ''s1'',
      svLaunched := True\<rparr>"
  let ?s3 = "?s2\<lparr>svStreaming := True\<rparr>"
  let ?t2 = "serve_threads[4 := SvStarted]" and ?t3 = "[SvWaiter, SvScan, SvScan, SvFinish, SvStarted, SvStream [], SvLater SvFinish]"
  have sel: "chQueue (svReadyURL ?s1) = [''http://h'']" "optSessionIDPreset (svOpts ?s1) = ''s1''" "\<not> optAutoFireFirstTurn (svOpts ?s1)"
    using demo_serve_sel by (simp_all add: writeOutput_def)
  have l: "1 < length serve_threads" "4 < length serve_threads" "5 < length ?t2" "6 < length ?t3" by (simp_all add: serve_threads_def)
  have pc: "serve_threads ! 1 = SvScan" "serve_threads[1 := SvScan] = serve_threads" "serve_threads ! 4 = SvStartSelect"
    "?t2 ! 5 = SvLater (SvStream [])" "?t2[5 := SvStream []] = ?t3" "?t3 ! 6 = SvLater SvFinish" "?t3[6 := SvFinish] = demo_up_threads"
    by (simp_all add: serve_threads_def demo_up_threads_def)
  note a = inputs_run_threads[OF l(1), unfolded pc(1), OF demo_scan[OF demo_serve_sel(1)], unfolded pc(2)]
  note b = inputs_run_threads[OF l(2), unfolded pc(3), OF start_run[OF sel]]
  have up: "svLaunched ?s2" "svLaunched ?s3" by simp_all
  note c = inputs_run_threads[OF l(3), unfolded pc(4), OF launch_run(1)[OF up(1)], unfolded pc(5)]
  note d = inputs_run_threads[OF l(4), unfolded pc(6), OF launch_run(2)[OF up(2)], unfolded pc(7)]
  have run: "threads_run (serve_step demo_url) demo_up (serve_threads, demo_serve) = Some (demo_up_threads, ?s3)"
    unfolding demo_up_def threads_run_append[OF a] threads_run_append[OF b] threads_run_append[OF c] by (rule d)
  show ?thesis by (rule exI[of _ ?s3], rule conjI[OF run]) (use demo_serve_sel in \<open>simp add: writeOutput_def\<close>)
qed


definition demo_exit :: go_error where
  "demo_exit = AsExecExitError (Exited 3)"

lemma demo_exit_result: "process_exit_result (Some demo_exit) = (3, None)"
  by (simp add: process_exit_result_def demo_exit_def int32_def)

text \<open>The child has ended with exit code 3, and its waiter has sent that and closed the channel.\<close>

lemma demo_ended:
  "\<exists>s. serve_reach demo_url demo_serve [SvWaiterEnd, SvScan, SvScan, SvFinish, SvStarted, SvStream [], SvFinish] s \<and>
     chQueue (svProcessDone s) = [Some demo_exit] \<and> chClosed (svProcessDone s) \<and> \<not> svWaitOnce s"
proof -
  obtain s where s: "threads_run (serve_step demo_url) demo_up (serve_threads, demo_serve) = Some (demo_up_threads, s)"
    "svProcessDone s = new_chan 1" "\<not> svWaitOnce s" "optProfileID (svOpts s) = ''''"
    using demo_up_run by blast
  let ?u = "s\<lparr>svTrace := svTrace s @ [SaLimitCleanup],
     svProcessDone := (new_chan 1)\<lparr>chQueue := [Some demo_exit], chClosed := True\<rparr>\<rparr>"
  have l: "0 < length demo_up_threads" by (simp add: demo_up_threads_def)
  have pc: "demo_up_threads ! 0 = SvWaiter"
    "demo_up_threads[0 := SvWaiterEnd] = [SvWaiterEnd, SvScan, SvScan, SvFinish, SvStarted, SvStream [], SvFinish]"
    by (simp_all add: demo_up_threads_def)
  have "inputs_run (serve_step demo_url) [SinExit (Some demo_exit), SinGo, SinGo] (demo_up_threads ! 0, s) = Some (SvWaiterEnd, ?u)"
    using s(2,4) by (simp add: pc serve_step_def orelse_step_def waiter_step_def chan_try_send_def chan_close_def serve_cleanup_def)
  note b = inputs_run_threads[OF l this, unfolded pc(2)]
  have run: "threads_run (serve_step demo_url) (demo_up @ map (Move 0) [SinExit (Some demo_exit), SinGo, SinGo]) (serve_threads, demo_serve) =
      Some ([SvWaiterEnd, SvScan, SvScan, SvFinish, SvStarted, SvStream [], SvFinish], ?u)"
    unfolding threads_run_append[OF s(1)] by (rule b)
  have "serve_reach demo_url demo_serve [SvWaiterEnd, SvScan, SvScan, SvFinish, SvStarted, SvStream [], SvFinish] ?u"
    by (rule threads_run_reach[OF run threads_reach.init]) (auto simp: demo_up_def)
  then show ?thesis using s(3) by (intro exI[of _ ?u]) simp
qed

theorem serve_exit_code_lost_witness:
  "\<exists>ts s s1 s2. serve_reach demo_url demo_serve ts s \<and> threads_reach (serve_step demo_url) serve_start ts s (ts[3 := SvFinishEnd]) s1 \<and>
     threads_reach (serve_step demo_url) serve_start ts s (ts[3 := SvFinishEnd, 6 := SvFinishEnd]) s2 \<and>
     serveWait s1 = Some (3, None) \<and> serveWait s2 = Some (0, None)"
proof -
  let ?ts = "[SvWaiterEnd, SvScan, SvScan, SvFinish, SvStarted, SvStream [], SvFinish]"
  obtain s where s: "serve_reach demo_url demo_serve ?ts s" "chQueue (svProcessDone s) = [Some demo_exit]"
    "chClosed (svProcessDone s)" "\<not> svWaitOnce s"
    using demo_ended by blast
  have pcs: "3 < length ?ts" "6 < length ?ts" "(3::nat) \<noteq> 6" "?ts ! 3 = SvFinish" "?ts ! 6 = SvFinish" by simp_all
  obtain s1 s2 where r: "threads_run (serve_step demo_url) (map (Move 3) [SinGo, SinGo, SinGo, SinGo]) (?ts, s) = Some (?ts[3 := SvFinishEnd], s1)"
    "serveWait s1 = Some (process_exit_result (Some demo_exit))"
    "threads_run (serve_step demo_url) (Move 3 SinGo # map (Move 6) [SinGo, SinGo, SinGo, SinGo] @ map (Move 3) [SinGo, SinGo, SinGo])
          (?ts, s) = Some (?ts[3 := SvFinishEnd, 6 := SvFinishEnd], s2)" "serveWait s2 = Some (0, None)"
    using serve_exit_code_lost[OF pcs s(2-4), of demo_url] by blast
  have "threads_reach (serve_step demo_url) serve_start ?ts s (?ts[3 := SvFinishEnd]) s1"
    by (rule threads_run_reach[OF r(1) threads_reach.init]) auto
  moreover have "threads_reach (serve_step demo_url) serve_start ?ts s (?ts[3 := SvFinishEnd, 6 := SvFinishEnd]) s2"
    by (rule threads_run_reach[OF r(3) threads_reach.init]) auto
  ultimately show ?thesis using s(1) r(2,4) demo_exit_result by (intro exI[of _ ?ts] exI[of _ s] exI[of _ s1] exI[of _ s2]) simp
qed


theorem serve_idle_overtaken_witness:
  "\<exists>ts s. serve_reach demo_url demo_serve ts s \<and> SvReturned None \<in> set ts \<and> hsState (serveHealth s) = LiveStateProcessing \<and> \<not> svTurnInFlight s"
proof -
  obtain s where s: "threads_run (serve_step demo_url) demo_up (serve_threads, demo_serve) = Some (demo_up_threads, s)"
    "svAlive s" "svEvents s = None" "\<not> svTurnInFlight s"
    using demo_up_run by blast
  let ?ts = "demo_up_threads @ [SvPost ''hi'']" and ?u = "s\<lparr>svTurnInFlight := True\<rparr>"
  let ?up = "demo_up @ [Spawn (SvSend ''hi''), Move 7 SinGo, Move 7 SinGo]"
  have run: "threads_run (serve_step demo_url) ?up (serve_threads, demo_serve) = Some (?ts, ?u)"
    unfolding threads_run_append[OF s(1)]
    using s(2,4) by (simp add: demo_up_threads_def serve_step_def orelse_step_def waiter_step_def finisher_step_def scanner_step_def
        stream_step_def input_step_def)
  have r: "serve_reach demo_url demo_serve ?ts ?u"
    by (rule threads_run_reach[OF run threads_reach.init]) (auto simp: demo_up_def)
  have pcs: "7 < length ?ts" "?ts ! 7 = SvPost ''hi''" "5 < length ?ts" "?ts ! 5 = SvStream []" "svAlive ?u" "fan_safe ?u"
    using s(2,3) by (simp_all add: demo_up_threads_def fan_safe_def)
  obtain s' where f: "threads_run (serve_step demo_url)
       ([Move 7 (SinHttp (HttpResponse 204 []))] @ map (Move 5) idle_lines @ [Move 7 SinGo]) (?ts, ?u) = Some (?ts[7 := SvReturned None], s')"
    "\<not> svTurnInFlight s'" "hsState (serveHealth s') = LiveStateProcessing"
    using serve_idle_overtaken[OF pcs, of 204 demo_url "[]"] by auto
  have "serve_reach demo_url demo_serve (?ts[7 := SvReturned None]) s'"
    by (rule threads_run_reach[OF f(1) r]) auto
  moreover have "SvReturned None \<in> set (?ts[7 := SvReturned None])" using pcs(1) by (rule set_update_memI)
  ultimately show ?thesis using f(2,3) by blast
qed

end
