(* ===== verification/Streaming_Stdio.thy ===== *)
theory Streaming_Stdio imports Long_Lived_Props begin

text \<open>
  \<open>streaming_stdio_session.go\<close>, translated function by function: the file repeats the
  lifecycle of \<open>pty_session.go\<close> over two pipes.  Each function is proved equal to the
  shared definition of \<open>Long_Lived\<close> and \<open>Long_Lived_Run\<close> at a streaming child.
\<close>

section \<open>The functions of the file\<close>

definition streaming_Prepare :: "child_config \<Rightarrow> go_error option" where
  "streaming_Prepare cfg =
     (if \<not> BinaryRequired (ccCaps cfg) then None
      else case caDetect (ccAdapter cfg) of
        None \<Rightarrow> Some (binary_not_found (ccAdapter cfg))
      | Some b \<Rightarrow> None)"

definition streaming_LogPath :: "fs_oracle \<Rightarrow> start_options \<Rightarrow> file_system \<Rightarrow> (go_error + string) \<times> file_system" where
  "streaming_LogPath io opts fs =
     (if optLogPath opts \<noteq> '''' then (Inr (optLogPath opts), fs)
      else if optWorkspaceDir opts = '''' then
        (Inl (ErrorsNew ''agentsessions: streaming-stdio runtime requires StartOptions.LogPath or StartOptions.WorkspaceDir''), fs)
      else
        let p = join_path (join_path (clean_path (optWorkspaceDir opts)) ''logs'') ''session.log'' in
        case os_MkdirAll io (dir_path p) fs of
          (Some e, fs') \<Rightarrow> (Inl (Wrapped ''agentsessions: ensure log dir'' e), fs')
        | (None, fs') \<Rightarrow> (Inr (path_text p), fs'))"

definition streaming_tickActivity :: "child_session \<Rightarrow> child_session" where
  "streaming_tickActivity s =
     (case optSupervisor (csOpts s) of
        None \<Rightarrow> s
      | Some so \<Rightarrow> if ActivityCallback so then act ActActivity s else s)"

text \<open>The command of an attempt, and the attempt.\<close>

definition streaming_spawn_cmd :: "child_config \<Rightarrow> child_session \<Rightarrow> nat \<Rightarrow> string \<Rightarrow> cmd" where
  "streaming_spawn_cmd cfg s attempt binary =
     (let opts = csOpts s;
          systemPrompt = (if optBootMode opts = ''stdin'' then '''' else optBootPrompt opts);
          preset = (if attempt > 0 \<and> ProviderSessionID (ccCaps cfg) \<and> csLastSessionID s \<noteq> ''''
                    then csLastSessionID s else optSessionIDPreset opts);
          args = caBuildArgs (ccAdapter cfg) '''' systemPrompt preset @ optExtraArgs opts
      in configureCommandProcessGroup
           \<lparr>cmdPath = binary, cmdArgs = binary # args, cmdDir = optWorkdir opts,
            cmdEnv = (if optEnv opts \<noteq> [] then optEnv opts else ccEnviron cfg),
            cmdExtraFiles = optExtraFiles opts, cmdSetpgid = False,
            cmdStderr = (if optStderr opts then StderrCaller else StderrLog), cmdPid = None\<rparr>)"

definition streaming_spawnAttempt ::
  "child_config \<Rightarrow> spawn_oracle \<Rightarrow> nat \<Rightarrow> child_session \<Rightarrow> (go_error + cmd) \<times> child_session" where
  "streaming_spawnAttempt cfg o' attempt s =
     (case caDetect (ccAdapter cfg) of
        None \<Rightarrow> (Inl (binary_not_found (ccAdapter cfg)), s)
      | Some binary \<Rightarrow>
          let opts = csOpts s; c0 = streaming_spawn_cmd cfg s attempt binary; sandboxed = (optProfileID opts \<noteq> '''');
              cleanup = ActLimitCleanup # (if sandboxed then [ActSandboxCleanup] else []) in
          (case (if sandboxed then spSandbox o' c0 else Inr c0) of
             Inl e \<Rightarrow> (Inl (Wrapped ''agentsessions: sandbox apply'' e), s)
           | Inr c1 \<Rightarrow>
              let s1 = (if sandboxed then act ActSandboxApply s else s) in
              (case spLimits o' c1 of
                 (Some e, c2) \<Rightarrow>
                   (Inl (Wrapped ''agentsessions: apply resource limits'' e), if sandboxed then act ActSandboxCleanup s1 else s1)
               | (None, c2) \<Rightarrow>
              (case spStdin o' of
                 Some e \<Rightarrow> (Inl (Wrapped ''agentsessions: stdin pipe'' e), acts cleanup s1)
               | None \<Rightarrow>
              (case spStdout o' of
                 Some e \<Rightarrow> (Inl (Wrapped ''agentsessions: stdout pipe'' e), acts (ActCloseStdin # cleanup) s1)
               | None \<Rightarrow>
              (case spStart o' of
                 Inl e \<Rightarrow> (Inl (Wrapped ''agentsessions: start'' e), acts ([ActCloseStdin, ActCloseStdout] @ cleanup) s1)
               | Inr pid \<Rightarrow>
                   let c3 = c2\<lparr>cmdPid := Some pid\<rparr>;
                       s2 = act (ActSpawn pid c3) (s1\<lparr>csCmd := Some c3, csInput := True,
                              csStartedPID := (if attempt = 0 then int32 pid else csStartedPID s1), csLastPID := int32 pid\<rparr>)
                   in if attempt = 0 \<and> optBootMode opts = ''stdin'' \<and> optBootPrompt opts \<noteq> '''' then
                        (case spBootWrite o' of
                           Some e \<Rightarrow>
                             (Inl (Wrapped ''agentsessions: write boot prompt'' e),
                              acts ([ActSignal SIGKILL, ActWaitChild, ActCloseStdin, ActCloseStdout] @ cleanup) s2)
                         | None \<Rightarrow> (Inr c3, streaming_tickActivity (act (ActWrite (optBootPrompt opts)) s2)))
                      else (Inr c3, s2)))))))"

definition streaming_SendInput :: "go_error option \<Rightarrow> bytes \<Rightarrow> child_session \<Rightarrow> go_error option \<times> child_session" where
  "streaming_SendInput werr data s =
     (if \<not> csAlive s then (Some ErrNoInputChannel, s)
      else if \<not> csInput s then (Some ErrNoInputChannel, s)
      else let payload = (if data = [] \<or> last data \<noteq> newline then data @ [newline] else data) in
        case werr of
          Some e \<Rightarrow> (Some e, s)
        | None \<Rightarrow> (None, streaming_tickActivity (act (ActWrite payload) s)))"

text \<open>The end of an unsupervised session, and the deferred end of a supervised one.\<close>

definition streaming_legacy_done :: "go_error option \<Rightarrow> child_session \<Rightarrow> child_session" where
  "streaming_legacy_done err s =
     (let s1 = (act ActCloseLog s)\<lparr>csAlive := False, csState := LiveStateStopped\<rparr> in
      if csWaitOnce s1 then s1
      else (case err of
              None \<Rightarrow> s1\<lparr>csWaitOnce := True, csWaitCode := 0, csWaitErr := None, csDone := True\<rparr>
            | Some e \<Rightarrow>
                (case as_exec_exit e of
                   Some ps \<Rightarrow> s1\<lparr>csWaitOnce := True, csWaitCode := int32 (psExitCode ps), csWaitErr := None, csDone := True\<rparr>
                 | None \<Rightarrow> s1\<lparr>csWaitOnce := True, csWaitCode := -1, csWaitErr := Some e, csDone := True\<rparr>)))"

definition streaming_spawnWaiterLegacy :: "child_config \<Rightarrow> int \<Rightarrow> go_error option \<Rightarrow> child_session \<Rightarrow> child_session" where
  "streaming_spawnWaiterLegacy cfg elapsed err s =
     (let pid = (case csCmd s of None \<Rightarrow> 0 | Some c \<Rightarrow> (case cmdPid c of None \<Rightarrow> 0 | Some p \<Rightarrow> p));
          s1 = acts (map ActAbnormalWait (logAbnormalWait ''streaming-stdio'' (ccID cfg) pid elapsed err)) s;
          s2 = streaming_legacy_done err (acts [ActCloseStdin, ActCloseStdout] (s1\<lparr>csInput := False\<rparr>));
          s3 = acts (ActLimitCleanup # (if optProfileID (csOpts s2) \<noteq> '''' then [ActSandboxCleanup] else [])) s2
      in if csBootDir s3 = '''' then s3 else act ActRemoveBootDir s3)"

definition streaming_finish_supervised :: "exit_error option \<Rightarrow> child_session \<Rightarrow> child_session" where
  "streaming_finish_supervised lastExit s =
     (let s1 = (act ActCloseLog s)\<lparr>csAlive := False, csState := LiveStateStopped\<rparr>;
          s2 = (if csWaitOnce s1 then s1
                else (case lastExit of
                        None \<Rightarrow> s1\<lparr>csWaitOnce := True, csWaitCode := 0, csWaitErr := None, csDone := True\<rparr>
                      | Some xe \<Rightarrow> s1\<lparr>csWaitOnce := True, csWaitCode := int32 (xeCode xe),
                                      csWaitErr := Some (AsExitError xe), csDone := True\<rparr>))
      in if csBootDir s2 = '''' then s2 else act ActRemoveBootDir s2)"

text \<open>One tick of each supervisor, and their interval.\<close>

definition streaming_superviseInterval :: "int \<Rightarrow> int" where
  "streaming_superviseInterval threshold =
     (let t = (if threshold < 0 then - (- threshold div 4) else threshold div 4)
      in if t < 100 * millisecond then 100 * millisecond else t)"

definition streaming_superviseIdle_tick ::
  "int \<Rightarrow> int \<Rightarrow> activity_tracker \<Rightarrow> int \<Rightarrow> sup_state \<Rightarrow> sup_decision \<times> sup_state" where
  "streaming_superviseIdle_tick threshold startedAt a now cause =
     (let idle = idleSince a startedAt now in
      if idle < threshold then (SupContinue, cause)
      else let (won, cause') = trySetCause CauseIdleTimeout cause in
        if \<not> won then (SupReturn, cause') else (SupKillGrace, cause'))"

definition streaming_superviseWatchdog_tick ::
  "int \<Rightarrow> int \<Rightarrow> activity_tracker \<Rightarrow> int \<Rightarrow> sup_state \<Rightarrow> sup_decision \<times> sup_state" where
  "streaming_superviseWatchdog_tick threshold startedAt a now cause =
     (let idle = idleSince a startedAt now in
      if idle < threshold then (SupContinue, cause)
      else let (won, cause') = trySetCause CauseWatchdogKill cause in
        if \<not> won then (SupReturn, cause') else (SupKillNow, cause'))"

text \<open>Queries.\<close>

definition streaming_Wait :: "child_session \<Rightarrow> (int \<times> go_error option) option" where
  "streaming_Wait s = (if csDone s then Some (csWaitCode s, csWaitErr s) else None)"

definition streaming_Resize :: "child_session \<Rightarrow> go_error option" where
  "streaming_Resize s = None"

definition streaming_Health :: "child_session \<Rightarrow> health_status" where
  "streaming_Health s =
     (let pid = (if csAlive s then csStartedPID s else 0)
      in \<lparr>hsAlive = csAlive s, hsPID = pid, hsState = csState s, hsTurnID = ''''\<rparr>)"

definition streaming_CheckpointHints :: "child_config \<Rightarrow> child_session \<Rightarrow> bytes option" where
  "streaming_CheckpointHints cfg s =
     (if \<not> CheckpointResume (ccCaps cfg) then None
      else if csLastSessionID s = '''' then None else Some (csLastSessionID s))"

definition streaming_LivePID :: "child_session \<Rightarrow> int" where
  "streaming_LivePID s = (if \<not> csAlive s then 0 else csStartedPID s)"

definition streaming_LastPID :: "child_session \<Rightarrow> int" where
  "streaming_LastPID s = csLastPID s"

definition streaming_ProviderSessionID :: "child_session \<Rightarrow> string" where
  "streaming_ProviderSessionID s = csLastSessionID s"

section \<open>Reading\<close>

definition streaming_reader_line :: "child_config \<Rightarrow> bytes \<Rightarrow> child_session \<Rightarrow> child_session option" where
  "streaming_reader_line cfg raw s =
     (let s1 = sink_write (raw @ [newline]) (streaming_tickActivity s) in
      case (case caParseLine (ccAdapter cfg) raw of None \<Rightarrow> Some s1 | Some evs \<Rightarrow> handle_events evs s1) of
        None \<Rightarrow> None
      | Some s2 \<Rightarrow> Some (typed_events cfg raw s2))"

fun streaming_read_lines :: "child_config \<Rightarrow> bytes list \<Rightarrow> child_session \<Rightarrow> child_session option" where
  "streaming_read_lines cfg [] s = Some s"
| "streaming_read_lines cfg (l # ls) s =
     (case streaming_reader_line cfg l s of None \<Rightarrow> None | Some s' \<Rightarrow> streaming_read_lines cfg ls s')"

definition streaming_runReaderLoop :: "child_config \<Rightarrow> bytes \<Rightarrow> child_session \<Rightarrow> child_session option" where
  "streaming_runReaderLoop cfg output s = streaming_read_lines cfg (fst (scan_lines scannerLimit output)) s"

section \<open>Supervision\<close>

definition streaming_waitOnceSupervised ::
  "child_config \<Rightarrow> supervisor_options \<Rightarrow> attempt_oracle \<Rightarrow> child_session \<Rightarrow> (exit_error option \<times> child_session) option" where
  "streaming_waitOnceSupervised cfg so a s =
     (case streaming_runReaderLoop cfg (aoOutput a) s of
        None \<Rightarrow> None
      | Some s1 \<Rightarrow>
          let pid = (case csCmd s1 of None \<Rightarrow> 0 | Some c \<Rightarrow> (case cmdPid c of None \<Rightarrow> 0 | Some p \<Rightarrow> p));
              s2 = acts (map ActAbnormalWait (logAbnormalWait ''streaming-stdio'' (ccID cfg) pid (aoElapsed a) (aoWaitErr a))) s1
          in Some (buildExitError (aoState a) (aoWaitErr a) (attempt_cause so a),
                   acts [ActCloseStdin, ActCloseStdout] (s2\<lparr>csInput := False\<rparr>)))"

text \<open>The loop from attempt \<open>n\<close> on; \<open>left\<close> counts down \<open>maxRestarts - n\<close>.\<close>

fun streaming_restart_loop ::
  "child_config \<Rightarrow> supervisor_options \<Rightarrow> (nat \<Rightarrow> attempt_oracle) \<Rightarrow> nat \<Rightarrow> nat \<Rightarrow> child_session \<Rightarrow>
   (exit_error option \<times> child_session) option" where
  "streaming_restart_loop cfg so env left attempt s =
     (case streaming_waitOnceSupervised cfg so (env attempt) s of
        None \<Rightarrow> None
      | Some (exit, s0) \<Rightarrow>
          let s1 = acts (ActLimitCleanup # (if optProfileID (csOpts s0) \<noteq> '''' then [ActSandboxCleanup] else [])) s0 in
          if aoStopAfter (env attempt) then Some (exit, s1)
          else (case exit of
            None \<Rightarrow> Some (None, s1)
          | Some xe \<Rightarrow>
              if \<not> restartEligible (Some xe) then Some (Some xe, s1)
              else (case left of
                0 \<Rightarrow> Some (Some (with_cause CauseRestartExhausted xe), s1)
              | Suc left' \<Rightarrow>
                  let s2 = act (ActBackoff (computeRestartBackoff (word_of_nat (Suc attempt)) (MaxRestartBackoff so))) s1 in
                  if aoStopInBackoff (env attempt) then Some (Some xe, s2)
                  else
                    let s3 = (if OnRestart so then act (ActOnRestart (Suc attempt) xe) s2 else s2) in
                    (case streaming_spawnAttempt cfg (aoSpawn (env attempt)) (Suc attempt) s3 of
                       (Inl e, s4) \<Rightarrow> Some (Some (ExitError (-1) 0 False None CauseRestartExhausted (Some e)), s4)
                     | (Inr c, s4) \<Rightarrow> streaming_restart_loop cfg so env left' (Suc attempt) s4))))"

definition streaming_runSupervised ::
  "child_config \<Rightarrow> supervisor_options \<Rightarrow> (nat \<Rightarrow> attempt_oracle) \<Rightarrow> child_session \<Rightarrow> child_session option" where
  "streaming_runSupervised cfg so env s =
     (let restarts = (if RestartOnCrash so < 0 then 0 else RestartOnCrash so) in
      case streaming_restart_loop cfg so env (nat restarts) 0 s of
        None \<Rightarrow> None
      | Some (lastExit, s') \<Rightarrow> Some (streaming_finish_supervised lastExit s'))"

section \<open>Stop and Start\<close>

definition streamingStop :: "stop_oracle \<Rightarrow> child_session \<Rightarrow> go_error option \<times> child_session" where
  "streamingStop o' s =
     (if csStopOnce s then (None, s)
      else
        let s0 = s\<lparr>csStopOnce := True, csAlive := False, csState := LiveStateStopped, csStopRequested := True\<rparr>;
            s1 = (if csInput s0 then act ActCloseStdin s0 else s0) in
        (case csCmd s1 of
           None \<Rightarrow> (None, s1)
         | Some c \<Rightarrow>
             if cmdPid c = None then (None, s1)
             else if stDoneInEofGrace o' then (None, s1)
             else
               let s2 = act (ActSignal SIGTERM) s1 in
               (case stTermErr o' of
                  Some e \<Rightarrow> (None, s2)
                | None \<Rightarrow> if stDoneInGrace o' then (None, s2) else (stKillErr o', act (ActSignal SIGKILL) s2))))"

definition streamingStart ::
  "child_config \<Rightarrow> adapter \<Rightarrow> (adapter \<Rightarrow> child_adapter) \<Rightarrow> start_oracle \<Rightarrow> start_options \<Rightarrow>
   stream_event chan option \<Rightarrow> file_system \<Rightarrow> start_result" where
  "streamingStart cfg ad behav o' opts0 events fs =
     (if optWorkdir opts0 = ''''
      then failed_start cfg (ErrorsNew ''agentsessions: StartOptions.Workdir is required for streaming-stdio runtime'') None fs
      else case preparePlant (soFs o') opts0 ad (ccID cfg) fs of
        (pr, fs1) \<Rightarrow>
          (case prError pr of
             Some e \<Rightarrow> failed_start cfg e None fs1
           | None \<Rightarrow>
               let opts = prOptions pr; bootDir = prBootDir pr; cfg = cfg\<lparr>ccAdapter := behav (prAdapter pr)\<rparr> in
               (case streaming_LogPath (soFs o') opts fs1 of
                  (Inl e, fs2) \<Rightarrow> failed_start cfg e None (cleanupBootDir (soFs o') bootDir fs2)
                | (Inr logPath, fs2) \<Rightarrow>
               (case soCreateLog o' of
                  Some e \<Rightarrow> failed_start cfg (Wrapped ''agentsessions: open log'' e) None (cleanupBootDir (soFs o') bootDir fs2)
                | None \<Rightarrow>
               (case streaming_spawnAttempt cfg (soSpawn o') 0 (new_child opts bootDir events) of
                  (Inl e, s1) \<Rightarrow> failed_start cfg e (Some (act ActCloseLog s1)) (cleanupBootDir (soFs o') bootDir fs2)
                | (Inr c, s1) \<Rightarrow>
                    let ok = (\<lambda>s. \<lparr>srError = None, srSession = Some s, srFs = fs2, srCfg = cfg,
                                srSupervised = (optSupervisor opts \<noteq> None)\<rparr>) in
                    if optAutoFireFirstTurn opts \<and> optFirstTurnPayload opts \<noteq> [] \<and>
                       \<not> (optBootMode opts = ''stdin'' \<and> optBootPrompt opts \<noteq> '''')
                    then (case streaming_SendInput (soFirstTurn o') (optFirstTurnPayload opts) s1 of
                            (Some e, s2) \<Rightarrow>
                              failed_start cfg (Wrapped ''agentsessions: auto-fire first turn'' e) (Some (snd (streamingStop (soStop o') s2))) fs2
                          | (None, s2) \<Rightarrow> ok s2)
                    else ok s1)))))"

section \<open>Agreement with the shared model\<close>

lemma streaming_tick_eq: "streaming_tickActivity s = tickActivity s"
  by (simp add: streaming_tickActivity_def tickActivity_def split: option.split)

lemma streaming_no_pty: "ccKind cfg = StreamingChild \<Longrightarrow> ccKind cfg \<noteq> PtyChild"
  by simp

lemma streaming_spawn_eq:
  assumes "ccKind cfg \<noteq> PtyChild"
  shows "streaming_spawnAttempt cfg o' n s = spawnAttempt cfg o' n s"
proof -
  have c: "streaming_spawn_cmd cfg s n b = spawn_cmd cfg s n b" for b
    using assms by (simp add: streaming_spawn_cmd_def spawn_cmd_def resume_id_def Let_def)
  show ?thesis using assms
    unfolding streaming_spawnAttempt_def spawnAttempt_def c streaming_tick_eq spawn_err_def spawn_cleanup_def boot_on_stdin_def Let_def
    by (simp only: assms not_False_eq_True if_True if_False simp_thms append.simps)
qed

lemma streaming_send_eq: "streaming_SendInput w d s = childSendInput w d s"
  by (simp add: streaming_SendInput_def childSendInput_def input_alive_def input_write_def frame_input_def streaming_tick_eq Let_def
      split: option.split)

lemma legacy_done_eq:
  "streaming_legacy_done err s = (case legacy_result err of (code, werr) \<Rightarrow> finish code werr s)"
proof -
  have m: "int32 (-1) = -1" by (simp add: int32_def)
  then show ?thesis
    by (simp add: streaming_legacy_done_def legacy_result_def finish_def Let_def split: option.split)
qed

lemma streaming_waiter_eq:
  assumes "ccKind cfg = StreamingChild"
  shows "streaming_spawnWaiterLegacy cfg elapsed err s = spawnWaiterLegacy cfg elapsed err s"
  unfolding streaming_spawnWaiterLegacy_def spawnWaiterLegacy_def legacy_done_eq assms kind_text.simps clear_input_def
    close_io.simps remove_boot_dir_def spawn_cleanup_def Let_def
  by (cases "legacy_result err") (simp only: prod.case)

lemma streaming_finish_eq: "streaming_finish_supervised x s = finish_supervised x s"
  by (simp add: streaming_finish_supervised_def finish_supervised_def finish_def remove_boot_dir_def Let_def split: option.split)

lemma streaming_ticks_eq:
  "streaming_superviseIdle_tick = superviseIdle_tick" "streaming_superviseWatchdog_tick = superviseWatchdog_tick"
  "streaming_superviseInterval = superviseInterval"
  by (auto simp: fun_eq_iff streaming_superviseIdle_tick_def superviseIdle_tick_def streaming_superviseWatchdog_tick_def
      superviseWatchdog_tick_def streaming_superviseInterval_def superviseInterval_def Let_def abs_if sgn_if split: prod.split)

lemma streaming_queries_eq:
  assumes "ccKind cfg = StreamingChild"
  shows "streaming_Prepare cfg = prepare cfg" "streaming_LogPath io opts fs = resolveLogPath StreamingChild io opts fs" "streaming_Wait s = childWait s"
    "streaming_Resize s = childResize cfg ioctl s" "streaming_Health s = childHealth s" "streaming_CheckpointHints cfg s = childCheckpointHints cfg s"
    "streaming_LivePID s = childLivePID s" "streaming_LastPID s = childLastPID s" "streaming_ProviderSessionID s = childProviderSessionID s"
  using assms by (simp_all add: streaming_Prepare_def prepare_def streaming_LogPath_def resolveLogPath_def errLogPath_def streaming_Wait_def childWait_def
      streaming_Resize_def childResize_def streaming_Health_def childHealth_def streaming_CheckpointHints_def childCheckpointHints_def streaming_LivePID_def
      childLivePID_def streaming_LastPID_def childLastPID_def streaming_ProviderSessionID_def childProviderSessionID_def Let_def split: option.split)

lemma streaming_read_eq:
  assumes "ccKind cfg = StreamingChild"
  shows "streaming_runReaderLoop cfg out s = runReaderLoop cfg acc out s"
proof -
  have line: "streaming_reader_line cfg l u = reader_line cfg acc l u" for l u
    using assms by (simp add: streaming_reader_line_def reader_line_def streaming_tick_eq Let_def split: option.split)
  have "streaming_read_lines cfg ls u = read_lines cfg acc ls u" for ls u
    by (induction ls arbitrary: u) (simp_all add: line split: option.split)
  then show ?thesis by (simp add: streaming_runReaderLoop_def runReaderLoop_def)
qed

lemma streaming_wait_once_eq:
  assumes "ccKind cfg = StreamingChild"
  shows "streaming_waitOnceSupervised cfg so a s = waitOnceSupervised cfg acc so a s"
  using assms streaming_read_eq[OF assms, of _ _ acc]
  by (simp add: streaming_waitOnceSupervised_def waitOnceSupervised_def clear_input_def attempt_exit_def Let_def split: option.split)

lemma streaming_loop_eq:
  assumes "ccKind cfg = StreamingChild"
  shows "streaming_restart_loop cfg so env left a s = restart_loop cfg acc so env left a s"
proof (induction left arbitrary: a s)
  case 0
  show ?case
    unfolding streaming_restart_loop.simps[of _ _ _ 0] restart_loop.simps[of _ _ _ _ 0] streaming_wait_once_eq[OF assms, of _ _ _ acc]
      spawn_cleanup_def Let_def nat.case ..
next
  case (Suc left)
  show ?case
    unfolding streaming_restart_loop.simps[of _ _ _ "Suc left"] restart_loop.simps[of _ _ _ _ "Suc left"]
      streaming_wait_once_eq[OF assms, of _ _ _ acc] streaming_spawn_eq[OF streaming_no_pty[OF assms]] Suc.IH spawn_cleanup_def Let_def nat.case ..
qed

lemma streaming_supervised_eq:
  assumes "ccKind cfg = StreamingChild"
  shows "streaming_runSupervised cfg so env s = runSupervised cfg acc so env s"
proof -
  have "nat (if RestartOnCrash so < 0 then 0 else RestartOnCrash so) = maxRestarts so" by (simp add: maxRestarts_def)
  then show ?thesis
    unfolding streaming_runSupervised_def runSupervised_def streaming_loop_eq[OF assms, of so env _ _ _ acc] streaming_finish_eq Let_def
    by (simp only:)
qed

lemma streaming_stop_eq:
  assumes "ccKind cfg \<noteq> PtyChild"
  shows "streamingStop o' s = childStop cfg o' s"
  using assms by (simp add: streamingStop_def childStop_def stop_kill_def stop_begin_def Let_def split: option.split)

lemma streaming_start_eq:
  assumes "ccKind cfg = StreamingChild"
  shows "streamingStart cfg ad behav o' opts events fs = childStart cfg ad behav o' opts events fs"
proof -
  have k: "ccKind (cfg\<lparr>ccAdapter := b\<rparr>) = StreamingChild" for b using assms by simp
  have stop: "childStop (cfg\<lparr>ccAdapter := b\<rparr>) q u = streamingStop q u" for b q u
    using streaming_stop_eq[OF streaming_no_pty[OF k]] by (rule sym)
  note eqs = streaming_spawn_eq[OF streaming_no_pty[OF k]] streaming_queries_eq(2)[OF assms] streaming_send_eq stop
  show ?thesis
    unfolding streamingStart_def childStart_def eqs errWorkdir_def boot_on_stdin_def Let_def
    by (simp only: assms child_kind.distinct kind_text.simps simp_thms if_False append.simps)
qed



end
