(* ===== verification/Jsonrpc_Session.thy ===== *)
theory Jsonrpc_Session imports Long_Lived_Run Jsonrpc begin

text \<open>
  \<open>jsonrpc_stdio_session.go\<close>: the runtime, and a running session as the goroutines
  that share the struct.  \<open>Jsonrpc\<close> has the client of the file; here are the process
  lifecycle around it and the composition of the two.

  The fields \<open>alive\<close>, \<open>stdin\<close> and \<open>stopOnce\<close> belong to both halves.  They live in the
  child record; \<open>rpc_view\<close> is the client state with its three fields read from there.
\<close>

section \<open>The functions the file repeats\<close>

definition jsonrpc_Prepare :: "child_config \<Rightarrow> go_error option" where
  "jsonrpc_Prepare cfg =
     (if \<not> BinaryRequired (ccCaps cfg) then None
      else case caDetect (ccAdapter cfg) of
        None \<Rightarrow> Some (binary_not_found (ccAdapter cfg))
      | Some b \<Rightarrow> None)"

definition jsonrpc_LogPath :: "fs_oracle \<Rightarrow> start_options \<Rightarrow> file_system \<Rightarrow> (go_error + string) \<times> file_system" where
  "jsonrpc_LogPath io opts fs =
     (if optLogPath opts \<noteq> '''' then (Inr (optLogPath opts), fs)
      else if optWorkspaceDir opts = '''' then
        (Inl (ErrorsNew ''agentsessions: jsonrpc-stdio runtime requires StartOptions.LogPath or StartOptions.WorkspaceDir''), fs)
      else
        let p = join_path (join_path (clean_path (optWorkspaceDir opts)) ''logs'') ''session.log'' in
        case os_MkdirAll io (dir_path p) fs of
          (Some e, fs') \<Rightarrow> (Inl (Wrapped ''agentsessions: ensure log dir'' e), fs')
        | (None, fs') \<Rightarrow> (Inr (path_text p), fs'))"

definition jsonrpc_tickActivity :: "child_session \<Rightarrow> child_session" where
  "jsonrpc_tickActivity s =
     (case optSupervisor (csOpts s) of
        None \<Rightarrow> s
      | Some so \<Rightarrow> if ActivityCallback so then act ActActivity s else s)"

definition jsonrpc_spawn_cmd :: "child_config \<Rightarrow> child_session \<Rightarrow> nat \<Rightarrow> string \<Rightarrow> cmd" where
  "jsonrpc_spawn_cmd cfg s attempt binary =
     (let opts = csOpts s;
          systemPrompt = (if optBootMode opts = ''stdin'' then '''' else optBootPrompt opts);
          preset = (if attempt > 0 \<and> ProviderSessionID (ccCaps cfg) \<and> csLastSessionID s \<noteq> ''''
                    then csLastSessionID s else optSessionIDPreset opts);
          args = caBuildArgs (ccAdapter cfg) '''' systemPrompt preset @ optExtraArgs opts
      in configureCommandProcessGroup
           \<lparr>cmdPath = binary, cmdArgs = binary # args, cmdDir = optWorkdir opts,
            cmdEnv = (if optEnv opts \<noteq> [] then optEnv opts else ccEnviron cfg),
            cmdExtraFiles = optExtraFiles opts, cmdSetpgid = False,
            cmdStderr = (if optStderr opts then StderrCaller else StderrLog), cmdPid = None\<rparr>)"

definition jsonrpc_spawnAttempt ::
  "child_config \<Rightarrow> spawn_oracle \<Rightarrow> nat \<Rightarrow> child_session \<Rightarrow> (go_error + cmd) \<times> child_session" where
  "jsonrpc_spawnAttempt cfg o' attempt s =
     (case caDetect (ccAdapter cfg) of
        None \<Rightarrow> (Inl (binary_not_found (ccAdapter cfg)), s)
      | Some binary \<Rightarrow>
          let opts = csOpts s; c0 = jsonrpc_spawn_cmd cfg s attempt binary; sandboxed = (optProfileID opts \<noteq> '''');
              cleanup = ActLimitCleanup # (if sandboxed then [ActSandboxCleanup] else []) in
          (case (if sandboxed then spSandbox o' c0 else Inr c0) of
             Inl e \<Rightarrow> (Inl (Wrapped ''agentsessions: sandbox apply'' e), s)
           | Inr c1 \<Rightarrow>
              let s1 = (if sandboxed then act ActSandboxApply s else s) in
              (case spLimits o' c1 of
                 (Some e, c2) \<Rightarrow>
                   (Inl (Wrapped ''agentsessions: apply resource limits'' e), if sandboxed then act ActSandboxCleanup s1 else s1)
               | (None, c2) \<Rightarrow>
              (case spStdin o' of
                 Some e \<Rightarrow> (Inl (Wrapped ''agentsessions: stdin pipe'' e), acts cleanup s1)
               | None \<Rightarrow>
              (case spStdout o' of
                 Some e \<Rightarrow> (Inl (Wrapped ''agentsessions: stdout pipe'' e), acts (ActCloseStdin # cleanup) s1)
               | None \<Rightarrow>
              (case spStart o' of
                 Inl e \<Rightarrow> (Inl (Wrapped ''agentsessions: start'' e), acts ([ActCloseStdin, ActCloseStdout] @ cleanup) s1)
               | Inr pid \<Rightarrow>
                   let c3 = c2\<lparr>cmdPid := Some pid\<rparr>;
                       s2 = act (ActSpawn pid c3) (s1\<lparr>csCmd := Some c3, csInput := True,
                              csStartedPID := (if attempt = 0 then int32 pid else csStartedPID s1), csLastPID := int32 pid\<rparr>)
                   in if attempt = 0 \<and> optBootMode opts = ''stdin'' \<and> optBootPrompt opts \<noteq> '''' then
                        (case spBootWrite o' of
                           Some e \<Rightarrow>
                             (Inl (Wrapped ''agentsessions: write boot prompt'' e),
                              acts ([ActSignal SIGKILL, ActWaitChild, ActCloseStdin, ActCloseStdout] @ cleanup) s2)
                         | None \<Rightarrow> (Inr c3, jsonrpc_tickActivity (act (ActWrite (optBootPrompt opts)) s2)))
                      else (Inr c3, s2)))))))"

definition jsonrpc_SendInput :: "go_error option \<Rightarrow> bytes \<Rightarrow> child_session \<Rightarrow> go_error option \<times> child_session" where
  "jsonrpc_SendInput werr data s =
     (if \<not> csAlive s then (Some ErrNoInputChannel, s)
      else if \<not> csInput s then (Some ErrNoInputChannel, s)
      else let payload = (if data = [] \<or> last data \<noteq> newline then data @ [newline] else data) in
        case werr of
          Some e \<Rightarrow> (Some e, s)
        | None \<Rightarrow> (None, jsonrpc_tickActivity (act (ActWrite payload) s)))"

definition jsonrpc_superviseInterval :: "int \<Rightarrow> int" where
  "jsonrpc_superviseInterval threshold =
     (let t = (if threshold < 0 then - (- threshold div 4) else threshold div 4)
      in if t < 100 * millisecond then 100 * millisecond else t)"

definition jsonrpc_superviseIdle_tick ::
  "int \<Rightarrow> int \<Rightarrow> activity_tracker \<Rightarrow> int \<Rightarrow> sup_state \<Rightarrow> sup_decision \<times> sup_state" where
  "jsonrpc_superviseIdle_tick threshold startedAt a now cause =
     (let idle = idleSince a startedAt now in
      if idle < threshold then (SupContinue, cause)
      else let (won, cause') = trySetCause CauseIdleTimeout cause in
        if \<not> won then (SupReturn, cause') else (SupKillGrace, cause'))"

definition jsonrpc_superviseWatchdog_tick ::
  "int \<Rightarrow> int \<Rightarrow> activity_tracker \<Rightarrow> int \<Rightarrow> sup_state \<Rightarrow> sup_decision \<times> sup_state" where
  "jsonrpc_superviseWatchdog_tick threshold startedAt a now cause =
     (let idle = idleSince a startedAt now in
      if idle < threshold then (SupContinue, cause)
      else let (won, cause') = trySetCause CauseWatchdogKill cause in
        if \<not> won then (SupReturn, cause') else (SupKillNow, cause'))"

definition jsonrpc_Wait :: "child_session \<Rightarrow> (int \<times> go_error option) option" where
  "jsonrpc_Wait s = (if csDone s then Some (csWaitCode s, csWaitErr s) else None)"

definition jsonrpc_Resize :: "child_session \<Rightarrow> go_error option" where
  "jsonrpc_Resize s = None"

definition jsonrpc_Health :: "child_session \<Rightarrow> health_status" where
  "jsonrpc_Health s =
     (let pid = (if csAlive s then csStartedPID s else 0)
      in \<lparr>hsAlive = csAlive s, hsPID = pid, hsState = csState s, hsTurnID = ''''\<rparr>)"

definition jsonrpc_CheckpointHints :: "child_config \<Rightarrow> child_session \<Rightarrow> bytes option" where
  "jsonrpc_CheckpointHints cfg s =
     (if \<not> CheckpointResume (ccCaps cfg) then None
      else if csLastSessionID s = '''' then None else Some (csLastSessionID s))"

definition jsonrpc_LivePID :: "child_session \<Rightarrow> int" where
  "jsonrpc_LivePID s = (if \<not> csAlive s then 0 else csStartedPID s)"

definition jsonrpc_LastPID :: "child_session \<Rightarrow> int" where
  "jsonrpc_LastPID s = csLastPID s"

definition jsonrpc_ProviderSessionID :: "child_session \<Rightarrow> string" where
  "jsonrpc_ProviderSessionID s = csLastSessionID s"

section \<open>State\<close>

text \<open>
  Where the goroutines are: the waiter of an unsupervised session (\<open>Jw\<close>) or the
  supervised loop (\<open>Js\<close>, with the attempt), the stop watcher of the attempt, \<open>Stop\<close>.
\<close>

datatype jsonrpc_waiter =
    JwWait
  | JwReading "go_error option"
  | JwCleanup
  | JsWait nat
  | JsReading nat "process_state option" "go_error option" string
  | JsDecide nat "exit_error option"
  | JsBackoff nat exit_error
  | JsRespawn nat exit_error
  | JsFinish "exit_error option"
  | JsRemove
  | JwReturned

datatype jsonrpc_watcher = WatchStop | WatchGrace | WatchDone

datatype jsonrpc_stopper = StopIdle | StopEofGrace | StopGrace | StopReturned

record jsonrpc_session =
  jsChild :: child_session
  jsRpc :: rpc_state
  jsWaiter :: jsonrpc_waiter
  jsWatch :: jsonrpc_watcher
  jsStop :: jsonrpc_stopper
  jsCtxDone :: bool

text \<open>The session as \<open>Start\<close> leaves it, its reader running.\<close>

definition jsonrpc_started :: "child_session \<Rightarrow> jsonrpc_session" where
  "jsonrpc_started c =
     \<lparr>jsChild = c, jsRpc = new_rpc, jsWaiter = (if optSupervisor (csOpts c) = None then JwWait else JsWait 0),
      jsWatch = WatchStop, jsStop = StopIdle, jsCtxDone = False\<rparr>"

definition rpc_view :: "jsonrpc_session \<Rightarrow> rpc_state" where
  "rpc_view s = (jsRpc s)\<lparr>rpAlive := csAlive (jsChild s), rpStdin := csInput (jsChild s), rpStopOnce := csStopOnce (jsChild s)\<rparr>"

definition on_child :: "(child_session \<Rightarrow> child_session) \<Rightarrow> jsonrpc_session \<Rightarrow> jsonrpc_session" where
  "on_child f s = s\<lparr>jsChild := f (jsChild s)\<rparr>"

definition on_rpc :: "(rpc_state \<Rightarrow> rpc_state) \<Rightarrow> jsonrpc_session \<Rightarrow> jsonrpc_session" where
  "on_rpc f s = s\<lparr>jsRpc := f (rpc_view s)\<rparr>"

text \<open>The hooks of the options; \<open>h\<close> is what the request hook does.\<close>

definition notify_of :: "jsonrpc_session \<Rightarrow> bool" where
  "notify_of s = optJsonRpcNotificationHook (csOpts (jsChild s))"

definition hook_of :: "(string \<Rightarrow> json option \<Rightarrow> (go_error + json) \<times> jsonrpc_error option) \<Rightarrow> jsonrpc_session \<Rightarrow> request_hook" where
  "hook_of h s = (if optJsonRpcRequestHook (csOpts (jsChild s)) then Some h else None)"

section \<open>The reader\<close>

definition jsonrpc_respond ::
  "(string \<Rightarrow> json option \<Rightarrow> (go_error + json) \<times> jsonrpc_error option) \<Rightarrow> rpc_frame \<Rightarrow> jsonrpc_session \<Rightarrow> jsonrpc_session" where
  "jsonrpc_respond h fr s =
     (case response_json (hook_of h s) fr of
        None \<Rightarrow> s
      | Some j \<Rightarrow>
          let s1 = on_rpc (respondToServerRequest (hook_of h s) fr) s;
              s2 = (if csInput (jsChild s) then on_child (act (ActWrite (json_text j @ [newline]))) s1 else s1)
          in on_child jsonrpc_tickActivity s2)"

definition jsonrpc_route ::
  "(string \<Rightarrow> json option \<Rightarrow> (go_error + json) \<times> jsonrpc_error option) \<Rightarrow> rpc_frame \<Rightarrow> jsonrpc_session \<Rightarrow> jsonrpc_session" where
  "jsonrpc_route h fr s =
     (if frMethod fr \<noteq> '''' \<and> frID fr \<noteq> None then jsonrpc_respond h fr s
      else on_rpc (route_frame (notify_of s) (hook_of h s) fr) s)"

text \<open>One scanned line; None is a panic of the event fanout.\<close>

definition jsonrpc_reader_line ::
  "child_config \<Rightarrow> (string \<Rightarrow> json option \<Rightarrow> (go_error + json) \<times> jsonrpc_error option) \<Rightarrow> bytes \<Rightarrow>
   jsonrpc_session \<Rightarrow> jsonrpc_session option" where
  "jsonrpc_reader_line cfg h raw s =
     (let c1 = sink_write (raw @ [newline]) (jsonrpc_tickActivity (jsChild s)) in
      case decode_frame raw of
        None \<Rightarrow> Some (s\<lparr>jsChild := c1\<rparr>)
      | Some fr \<Rightarrow>
          (case (case caParseLine (ccAdapter cfg) raw of None \<Rightarrow> Some c1 | Some evs \<Rightarrow> handle_events evs c1) of
             None \<Rightarrow> None
           | Some c2 \<Rightarrow> Some (jsonrpc_route h fr (s\<lparr>jsChild := typed_events cfg raw c2\<rparr>))))"

section \<open>The waiter and the supervised loop\<close>

text \<open>After \<open>cmd.Wait\<close>: the diagnosis, then the input goes under the lock and the pipes close.\<close>

definition jsonrpc_waited :: "child_config \<Rightarrow> int \<Rightarrow> go_error option \<Rightarrow> child_session \<Rightarrow> child_session" where
  "jsonrpc_waited cfg elapsed err c =
     (let pid = (case csCmd c of None \<Rightarrow> 0 | Some d \<Rightarrow> (case cmdPid d of None \<Rightarrow> 0 | Some p \<Rightarrow> p));
          c1 = acts (map ActAbnormalWait (logAbnormalWait ''jsonrpc-stdio'' (ccID cfg) pid elapsed err)) c
      in acts [ActCloseStdin, ActCloseStdout] (c1\<lparr>csInput := False\<rparr>))"

text \<open>After \<open>copyDone\<close>: the log, the dead marks, and the result once.\<close>

definition jsonrpc_legacy_done :: "go_error option \<Rightarrow> child_session \<Rightarrow> child_session" where
  "jsonrpc_legacy_done err c =
     (let c1 = (act ActCloseLog c)\<lparr>csAlive := False, csState := LiveStateStopped\<rparr> in
      if csWaitOnce c1 then c1
      else (case err of
              None \<Rightarrow> c1\<lparr>csWaitOnce := True, csWaitCode := 0, csWaitErr := None, csDone := True\<rparr>
            | Some e \<Rightarrow>
                (case as_exec_exit e of
                   Some ps \<Rightarrow> c1\<lparr>csWaitOnce := True, csWaitCode := int32 (psExitCode ps), csWaitErr := None, csDone := True\<rparr>
                 | None \<Rightarrow> c1\<lparr>csWaitOnce := True, csWaitCode := -1, csWaitErr := Some e, csDone := True\<rparr>)))"

definition jsonrpc_supervised_done :: "exit_error option \<Rightarrow> child_session \<Rightarrow> child_session" where
  "jsonrpc_supervised_done lastExit c =
     (let c1 = (act ActCloseLog c)\<lparr>csAlive := False, csState := LiveStateStopped\<rparr> in
      if csWaitOnce c1 then c1
      else (case lastExit of
              None \<Rightarrow> c1\<lparr>csWaitOnce := True, csWaitCode := 0, csWaitErr := None, csDone := True\<rparr>
            | Some xe \<Rightarrow> c1\<lparr>csWaitOnce := True, csWaitCode := int32 (xeCode xe), csWaitErr := Some (AsExitError xe), csDone := True\<rparr>))"

definition jsonrpc_attempt_cleanup :: "child_session \<Rightarrow> child_session" where
  "jsonrpc_attempt_cleanup c = acts (ActLimitCleanup # (if optProfileID (csOpts c) \<noteq> '''' then [ActSandboxCleanup] else [])) c"

definition jsonrpc_remove_boot_dir :: "child_session \<Rightarrow> child_session" where
  "jsonrpc_remove_boot_dir c = (if csBootDir c = '''' then c else act ActRemoveBootDir c)"

text \<open>The body of the loop after \<open>waitOnceSupervised\<close> returned \<open>exit\<close>: where it goes, and the backoff.\<close>

definition jsonrpc_decide ::
  "supervisor_options \<Rightarrow> bool \<Rightarrow> nat \<Rightarrow> exit_error option \<Rightarrow> child_session \<Rightarrow> jsonrpc_waiter \<times> child_session" where
  "jsonrpc_decide so ctxDone n exit c =
     (let restarts = (if RestartOnCrash so < 0 then 0 else RestartOnCrash so) in
      if ctxDone \<or> csStopRequested c then (JsFinish exit, c)
      else case exit of
        None \<Rightarrow> (JsFinish None, c)
      | Some xe \<Rightarrow>
          if \<not> restartEligible (Some xe) then (JsFinish (Some xe), c)
          else if int n \<ge> restarts then (JsFinish (Some (with_cause CauseRestartExhausted xe)), c)
          else (JsBackoff n xe, act (ActBackoff (computeRestartBackoff (word_of_nat (Suc n)) (MaxRestartBackoff so))) c))"

definition jsonrpc_restart ::
  "child_config \<Rightarrow> supervisor_options \<Rightarrow> spawn_oracle \<Rightarrow> nat \<Rightarrow> exit_error \<Rightarrow> child_session \<Rightarrow> jsonrpc_waiter \<times> child_session" where
  "jsonrpc_restart cfg so o' n xe c =
     (let c1 = (if OnRestart so then act (ActOnRestart (Suc n) xe) c else c) in
      case jsonrpc_spawnAttempt cfg o' (Suc n) c1 of
        (Inl e, c2) \<Rightarrow> (JsFinish (Some (ExitError (-1) 0 False None CauseRestartExhausted (Some e))), c2)
      | (Inr d, c2) \<Rightarrow> (JsWait (Suc n), c2))"

section \<open>Stop and Start\<close>

text \<open>The first section of \<open>Stop\<close>: the marks, stdin, the pending calls.\<close>

definition jsonrpc_stop_begin :: "jsonrpc_session \<Rightarrow> jsonrpc_session" where
  "jsonrpc_stop_begin s =
     (let c = jsChild s;
          s1 = on_rpc rpc_stop s;
          c1 = c\<lparr>csStopOnce := True, csAlive := False, csState := LiveStateStopped, csStopRequested := True\<rparr>;
          c2 = (if csInput c then act ActCloseStdin c1 else c1)
      in s1\<lparr>jsChild := c2,
            jsStop := (case csCmd c of None \<Rightarrow> StopReturned
                       | Some d \<Rightarrow> if cmdPid d = None then StopReturned else StopEofGrace)\<rparr>)"

text \<open>\<open>Stop\<close> on its own, with the answers of its two waits and signals.\<close>

definition jsonrpcStop :: "stop_oracle \<Rightarrow> jsonrpc_session \<Rightarrow> go_error option \<times> jsonrpc_session" where
  "jsonrpcStop o' s =
     (if csStopOnce (jsChild s) then (None, s)
      else
        let s1 = jsonrpc_stop_begin s in
        if jsStop s1 = StopReturned then (None, s1)
        else if stDoneInEofGrace o' then (None, s1\<lparr>jsStop := StopReturned\<rparr>)
        else
          let s2 = on_child (act (ActSignal SIGTERM)) s1 in
          (case stTermErr o' of
             Some e \<Rightarrow> (None, s2\<lparr>jsStop := StopReturned\<rparr>)
           | None \<Rightarrow>
               if stDoneInGrace o' then (None, s2\<lparr>jsStop := StopReturned\<rparr>)
               else (stKillErr o', (on_child (act (ActSignal SIGKILL)) s2)\<lparr>jsStop := StopReturned\<rparr>)))"

definition jsonrpcStart ::
  "child_config \<Rightarrow> adapter \<Rightarrow> (adapter \<Rightarrow> child_adapter) \<Rightarrow> start_oracle \<Rightarrow> start_options \<Rightarrow>
   stream_event chan option \<Rightarrow> file_system \<Rightarrow> start_result" where
  "jsonrpcStart cfg ad behav o' opts0 events fs =
     (if optWorkdir opts0 = ''''
      then failed_start cfg (ErrorsNew ''agentsessions: StartOptions.Workdir is required for jsonrpc-stdio runtime'') None fs
      else case preparePlant (soFs o') opts0 ad (ccID cfg) fs of
        (pr, fs1) \<Rightarrow>
          (case prError pr of
             Some e \<Rightarrow> failed_start cfg e None fs1
           | None \<Rightarrow>
               let opts = prOptions pr; bootDir = prBootDir pr; cfg = cfg\<lparr>ccAdapter := behav (prAdapter pr)\<rparr> in
               (case jsonrpc_LogPath (soFs o') opts fs1 of
                  (Inl e, fs2) \<Rightarrow> failed_start cfg e None (cleanupBootDir (soFs o') bootDir fs2)
                | (Inr logPath, fs2) \<Rightarrow>
               (case soCreateLog o' of
                  Some e \<Rightarrow> failed_start cfg (Wrapped ''agentsessions: open log'' e) None (cleanupBootDir (soFs o') bootDir fs2)
                | None \<Rightarrow>
               (case jsonrpc_spawnAttempt cfg (soSpawn o') 0 (new_child opts bootDir events) of
                  (Inl e, s1) \<Rightarrow> failed_start cfg e (Some (act ActCloseLog s1)) (cleanupBootDir (soFs o') bootDir fs2)
                | (Inr c, s1) \<Rightarrow>
                    let ok = (\<lambda>s. \<lparr>srError = None, srSession = Some s, srFs = fs2, srCfg = cfg,
                                srSupervised = (optSupervisor opts \<noteq> None)\<rparr>) in
                    if optAutoFireFirstTurn opts \<and> optFirstTurnPayload opts \<noteq> [] \<and>
                       \<not> (optBootMode opts = ''stdin'' \<and> optBootPrompt opts \<noteq> '''')
                    then (case jsonrpc_SendInput (soFirstTurn o') (optFirstTurnPayload opts) s1 of
                            (Some e, s2) \<Rightarrow>
                              failed_start cfg (Wrapped ''agentsessions: auto-fire first turn'' e) (Some (jsChild (snd (jsonrpcStop (soStop o') (jsonrpc_started s2))))) fs2
                          | (None, s2) \<Rightarrow> ok s2)
                    else ok s1)))))"

section \<open>Interleaving\<close>

text \<open>
  The sections of the goroutines, with what the outside answers in each: the reader
  (\<open>SnLine\<close>, \<open>SnReaderExit\<close>), the sections of a \<open>Call\<close> and the sends of taken responses
  (\<open>SnClient\<close>), the locked part of a \<open>SendInput\<close> that saw the session alive at some
  time before, the waiter, the loop, the stop watcher, \<open>Stop\<close>, and the end of the
  context.  What the two supervisors do during an attempt is the machine of
  \<open>Supervision\<close>; here they leave the cause given to \<open>SnWaited\<close>.
\<close>

datatype session_event =
    SnLine bytes
  | SnReaderExit
  | SnClient rpc_event
  | SnInput "go_error option" bytes
  | SnWaited int "process_state option" "go_error option" string
  | SnReaderDone
  | SnDecide
  | SnTimer
  | SnBackoffCut
  | SnRespawn spawn_oracle
  | SnCleanup
  | SnWatchTerm
  | SnWatchKill
  | SnProcDone
  | SnStop
  | SnStopTerm "go_error option"
  | SnStopKill
  | SnStopSeen
  | SnCtxDone

datatype session_fault = ClientFault rpc_fault | FanoutClosed

fun call_section :: "rpc_event \<Rightarrow> bool" where
  "call_section (EvCall m p) = True"
| "call_section (EvRegister n) = True"
| "call_section (EvEncode n) = True"
| "call_section (EvStdin n) = True"
| "call_section (EvWrite n w) = True"
| "call_section (EvReceive n) = True"
| "call_section (EvCancel n) = True"
| "call_section (EvSend k) = True"
| "call_section ev = False"

text \<open>The write of a \<open>Call\<close> reaches the pipe and ticks the activity.\<close>

definition client_effect :: "rpc_event \<Rightarrow> jsonrpc_session \<Rightarrow> child_session" where
  "client_effect ev s =
     (case ev of
        EvWrite n None \<Rightarrow>
          (case call_at n (jsRpc s) of
             Some (CallHasStdin i ch e) \<Rightarrow> jsonrpc_tickActivity (act (ActWrite (e @ [newline])) (jsChild s))
           | _ \<Rightarrow> jsChild s)
      | _ \<Rightarrow> jsChild s)"

definition client_section ::
  "(string \<Rightarrow> json option \<Rightarrow> (go_error + json) \<times> jsonrpc_error option) \<Rightarrow> rpc_event \<Rightarrow> jsonrpc_session \<Rightarrow>
   (session_fault + jsonrpc_session) option" where
  "client_section h ev s =
     (if \<not> call_section ev then None
      else case rpc_exec (notify_of s) (hook_of h s) ev (rpc_view s) of
        None \<Rightarrow> None
      | Some (Inl f) \<Rightarrow> Some (Inl (ClientFault f))
      | Some (Inr r) \<Rightarrow> Some (Inr (s\<lparr>jsChild := client_effect ev s, jsRpc := r\<rparr>)))"

text \<open>The waiter and the supervised loop.\<close>

definition waiter_section ::
  "child_config \<Rightarrow> session_event \<Rightarrow> jsonrpc_session \<Rightarrow> jsonrpc_session option" where
  "waiter_section cfg ev s =
     (let c = jsChild s; goto = (\<lambda>w c'. Some (s\<lparr>jsWaiter := w, jsChild := c'\<rparr>)) in
      case jsWaiter s of
        JwWait \<Rightarrow> (case ev of SnWaited t ps err cause \<Rightarrow> goto (JwReading err) (jsonrpc_waited cfg t err c) | _ \<Rightarrow> None)
      | JwReading err \<Rightarrow>
          (case ev of SnReaderDone \<Rightarrow> if rpReader (jsRpc s) then None else goto JwCleanup (jsonrpc_legacy_done err c) | _ \<Rightarrow> None)
      | JwCleanup \<Rightarrow>
          (case ev of SnCleanup \<Rightarrow> goto JwReturned (jsonrpc_remove_boot_dir (jsonrpc_attempt_cleanup c)) | _ \<Rightarrow> None)
      | JsWait n \<Rightarrow>
          (case ev of
             SnWaited t ps err cause \<Rightarrow>
               if jsWatch s = WatchDone then goto (JsReading n ps err cause) (jsonrpc_waited cfg t err c) else None
           | _ \<Rightarrow> None)
      | JsReading n ps err cause \<Rightarrow>
          (case ev of
             SnReaderDone \<Rightarrow>
               if rpReader (jsRpc s) then None
               else goto (JsDecide n (buildExitError ps err cause)) (jsonrpc_attempt_cleanup c)
           | _ \<Rightarrow> None)
      | JsDecide n exit \<Rightarrow>
          (case (ev, optSupervisor (csOpts c)) of
             (SnDecide, Some so) \<Rightarrow> (case jsonrpc_decide so (jsCtxDone s) n exit c of (w, c') \<Rightarrow> goto w c')
           | _ \<Rightarrow> None)
      | JsBackoff n xe \<Rightarrow>
          (case ev of
             SnTimer \<Rightarrow> goto (JsRespawn n xe) c
           | SnBackoffCut \<Rightarrow> if jsCtxDone s \<or> csStopRequested c then goto (JsFinish (Some xe)) c else None
           | _ \<Rightarrow> None)
      | JsRespawn n xe \<Rightarrow>
          (case (ev, optSupervisor (csOpts c)) of
             (SnRespawn o', Some so) \<Rightarrow>
               (case jsonrpc_restart cfg so o' n xe c of
                  (JsWait m, c') \<Rightarrow>
                    Some (s\<lparr>jsWaiter := JsWait m, jsChild := c', jsRpc := (jsRpc s)\<lparr>rpReader := True\<rparr>, jsWatch := WatchStop\<rparr>)
                | (w, c') \<Rightarrow> goto w c')
           | _ \<Rightarrow> None)
      | JsFinish exit \<Rightarrow> (case ev of SnCleanup \<Rightarrow> goto JsRemove (jsonrpc_supervised_done exit c) | _ \<Rightarrow> None)
      | JsRemove \<Rightarrow> (case ev of SnCleanup \<Rightarrow> goto JwReturned (jsonrpc_remove_boot_dir c) | _ \<Rightarrow> None)
      | JwReturned \<Rightarrow> None)"

text \<open>The stop watcher of an attempt: \<open>killWithGrace\<close>, or the end of the process.\<close>

definition watch_section :: "session_event \<Rightarrow> jsonrpc_session \<Rightarrow> jsonrpc_session option" where
  "watch_section ev s =
     (case jsWaiter s of
        JsWait n \<Rightarrow>
          (case (jsWatch s, ev) of
             (WatchStop, SnWatchTerm) \<Rightarrow>
               if csStopRequested (jsChild s) \<or> jsCtxDone s
               then Some ((on_child (act (ActSignal SIGTERM)) s)\<lparr>jsWatch := WatchGrace\<rparr>) else None
           | (WatchGrace, SnWatchKill) \<Rightarrow> Some ((on_child (act (ActSignal SIGKILL)) s)\<lparr>jsWatch := WatchDone\<rparr>)
           | (WatchStop, SnProcDone) \<Rightarrow> Some (s\<lparr>jsWatch := WatchDone\<rparr>)
           | (WatchGrace, SnProcDone) \<Rightarrow> Some (s\<lparr>jsWatch := WatchDone\<rparr>)
           | _ \<Rightarrow> None)
      | _ \<Rightarrow> None)"

definition stop_section :: "session_event \<Rightarrow> jsonrpc_session \<Rightarrow> jsonrpc_session option" where
  "stop_section ev s =
     (case (jsStop s, ev) of
        (StopIdle, SnStop) \<Rightarrow> if csStopOnce (jsChild s) then None else Some (jsonrpc_stop_begin s)
      | (StopEofGrace, SnStopSeen) \<Rightarrow> if csDone (jsChild s) then Some (s\<lparr>jsStop := StopReturned\<rparr>) else None
      | (StopEofGrace, SnStopTerm err) \<Rightarrow>
          Some ((on_child (act (ActSignal SIGTERM)) s)\<lparr>jsStop := (if err = None then StopGrace else StopReturned)\<rparr>)
      | (StopGrace, SnStopSeen) \<Rightarrow> if csDone (jsChild s) then Some (s\<lparr>jsStop := StopReturned\<rparr>) else None
      | (StopGrace, SnStopKill) \<Rightarrow> Some ((on_child (act (ActSignal SIGKILL)) s)\<lparr>jsStop := StopReturned\<rparr>)
      | _ \<Rightarrow> None)"

text \<open>One section; None: not enabled.\<close>

definition session_exec ::
  "child_config \<Rightarrow> (string \<Rightarrow> json option \<Rightarrow> (go_error + json) \<times> jsonrpc_error option) \<Rightarrow> session_event \<Rightarrow>
   jsonrpc_session \<Rightarrow> (session_fault + jsonrpc_session) option" where
  "session_exec cfg h ev s =
     (case ev of
        SnLine raw \<Rightarrow>
          if \<not> rpReader (jsRpc s) then None
          else (case jsonrpc_reader_line cfg h raw s of None \<Rightarrow> Some (Inl FanoutClosed) | Some s' \<Rightarrow> Some (Inr s'))
      | SnReaderExit \<Rightarrow> if rpReader (jsRpc s) then Some (Inr (on_rpc reader_exit s)) else None
      | SnClient e \<Rightarrow> client_section h e s
      | SnInput werr d \<Rightarrow> Some (Inr (on_child (\<lambda>c. snd (input_write werr (frame_input d) c)) s))
      | SnCtxDone \<Rightarrow> Some (Inr (s\<lparr>jsCtxDone := True\<rparr>))
      | SnWatchTerm \<Rightarrow> map_option Inr (watch_section ev s)
      | SnWatchKill \<Rightarrow> map_option Inr (watch_section ev s)
      | SnProcDone \<Rightarrow> map_option Inr (watch_section ev s)
      | SnStop \<Rightarrow> map_option Inr (stop_section ev s)
      | SnStopTerm e \<Rightarrow> map_option Inr (stop_section ev s)
      | SnStopKill \<Rightarrow> map_option Inr (stop_section ev s)
      | SnStopSeen \<Rightarrow> map_option Inr (stop_section ev s)
      | _ \<Rightarrow> map_option Inr (waiter_section cfg ev s))"

fun session_run ::
  "child_config \<Rightarrow> (string \<Rightarrow> json option \<Rightarrow> (go_error + json) \<times> jsonrpc_error option) \<Rightarrow> session_event list \<Rightarrow>
   jsonrpc_session \<Rightarrow> (session_fault + jsonrpc_session) option" where
  "session_run cfg h [] s = Some (Inr s)"
| "session_run cfg h (ev # evs) s =
     (case session_exec cfg h ev s of
        Some (Inr s') \<Rightarrow> session_run cfg h evs s'
      | r \<Rightarrow> r)"

inductive session_reach ::
  "child_config \<Rightarrow> (string \<Rightarrow> json option \<Rightarrow> (go_error + json) \<times> jsonrpc_error option) \<Rightarrow> jsonrpc_session \<Rightarrow>
   session_event list \<Rightarrow> jsonrpc_session \<Rightarrow> bool"
  for cfg :: child_config and h :: "string \<Rightarrow> json option \<Rightarrow> (go_error + json) \<times> jsonrpc_error option" and s0 :: jsonrpc_session where
  init: "session_reach cfg h s0 [] s0"
| step: "session_reach cfg h s0 evs s \<Longrightarrow> session_exec cfg h ev s = Some (Inr s') \<Longrightarrow>
     session_reach cfg h s0 (evs @ [ev]) s'"

inductive_cases session_reach_NilE: "session_reach cfg h s0 [] s"

end
