(* ===== verification/Jsonrpc_Session_Inv.thy ===== *)
theory Jsonrpc_Session_Inv imports Jsonrpc_Session Long_Lived_Spec Jsonrpc_Props begin

text \<open>
  The invariant of a running JSON-RPC session, for every interleaving of its
  goroutines, and the simulation of its client half by \<open>Jsonrpc\<close>.
\<close>

section \<open>What a section adds to the trace\<close>

fun quiet_act :: "act \<Rightarrow> bool" where
  "quiet_act ActCloseLog = False"
| "quiet_act ActRemoveBootDir = False"
| "quiet_act (ActLog b) = False"
| "quiet_act (ActSpawn p c) = False"
| "quiet_act a = True"

fun reader_act :: "act \<Rightarrow> bool" where
  "reader_act (ActLog b) = True"
| "reader_act a = quiet_act a"

lemma quiet_reader: "quiet_act a \<Longrightarrow> reader_act a"
  by (cases a) simp_all

definition extends :: "(act \<Rightarrow> bool) \<Rightarrow> child_session \<Rightarrow> child_session \<Rightarrow> bool" where
  "extends P c c' \<longleftrightarrow> csAlive c' = csAlive c \<and> csInput c' = csInput c \<and> csStopOnce c' = csStopOnce c \<and>
     csStopRequested c' = csStopRequested c \<and> csOpts c' = csOpts c \<and> csDone c' = csDone c \<and> csWaitOnce c' = csWaitOnce c \<and>
     csWaitCode c' = csWaitCode c \<and> csWaitErr c' = csWaitErr c \<and> csBootDir c' = csBootDir c \<and> csState c' = csState c \<and>
     (\<exists>t. csTrace c' = csTrace c @ t \<and> (\<forall>a \<in> set t. P a))"

named_theorems ext

lemma extends_refl [ext]: "extends P c c"
  by (simp add: extends_def)

lemma extends_trans: "extends P a b \<Longrightarrow> extends P b c \<Longrightarrow> extends P a c"
  by (auto simp: extends_def)

lemma extends_mono: "extends P a b \<Longrightarrow> (\<And>x. P x \<Longrightarrow> Q x) \<Longrightarrow> extends Q a b"
  by (auto simp: extends_def)

lemma extends_acts [ext]: "\<forall>a \<in> set as. P a \<Longrightarrow> extends P c (acts as c)"
  by (simp add: extends_def acts_def)

lemma extends_act [ext]: "P a \<Longrightarrow> extends P c (act a c)"
  by (simp add: extends_def act_def)

lemma extends_tick [ext]: "extends quiet_act c (jsonrpc_tickActivity c)"
  by (simp add: jsonrpc_tickActivity_def ext split: option.split)

lemma extends_input [ext]: "extends quiet_act c (snd (input_write w d c))"
  by (simp add: input_write_def tickActivity_def extends_def act_def split: option.split)

lemma extends_events: "handle_events evs c = Some c' \<Longrightarrow> extends quiet_act c c'"
proof (induction evs arbitrary: c)
  case Nil
  then show ?case by (simp add: ext)
next
  case (Cons ev evs)
  let ?c1 = "if evIsSessionID ev \<and> evSessionID ev \<noteq> ''''
       then (let c' = c\<lparr>csLastSessionID := evSessionID ev\<rparr>
             in if optOnSessionID (csOpts c) then act (ActOnSessionID (evSessionID ev)) c' else c') else c"
  have one: "extends quiet_act c (?c1\<lparr>csEvents := ch\<rparr>)" for ch by (simp add: extends_def act_def Let_def)
  obtain ch where "handle_events evs (?c1\<lparr>csEvents := ch\<rparr>) = Some c'"
    using Cons.prems by (auto simp: Let_def split: option.splits)
  then show ?case using Cons.IH one extends_trans by blast
qed

lemma extends_typed: "extends quiet_act c (typed_events cfg raw c)"
  by (auto simp: typed_events_def ext split: option.split)

section \<open>The two halves\<close>

lemma rpc_view_sel [simp]:
  "rpAlive (rpc_view s) = csAlive (jsChild s)" "rpStdin (rpc_view s) = csInput (jsChild s)"
  "rpStopOnce (rpc_view s) = csStopOnce (jsChild s)" "rpReader (rpc_view s) = rpReader (jsRpc s)"
  "rpPending (rpc_view s) = rpPending (jsRpc s)" "rpCalls (rpc_view s) = rpCalls (jsRpc s)"
  "rpChans (rpc_view s) = rpChans (jsRpc s)" "rpInflight (rpc_view s) = rpInflight (jsRpc s)"
  by (simp_all add: rpc_view_def)

lemma rpc_view_eqI:
  "rpAlive r = csAlive c \<Longrightarrow> rpStdin r = csInput c \<Longrightarrow> rpStopOnce r = csStopOnce c \<Longrightarrow>
   jsRpc s = r \<Longrightarrow> jsChild s = c \<Longrightarrow> rpc_view s = r"
  by (cases r) (simp add: rpc_view_def)

lemma rpc_view_cong:
  "jsRpc s' = jsRpc s \<Longrightarrow> csAlive (jsChild s') = csAlive (jsChild s) \<Longrightarrow> csInput (jsChild s') = csInput (jsChild s) \<Longrightarrow>
   csStopOnce (jsChild s') = csStopOnce (jsChild s) \<Longrightarrow> rpc_view s' = rpc_view s"
  by (simp add: rpc_view_def)

lemma rpc_view_extends: "extends P (jsChild s) (jsChild s') \<Longrightarrow> jsRpc s' = jsRpc s \<Longrightarrow> rpc_view s' = rpc_view s"
  by (rule rpc_view_cong) (simp_all add: extends_def)

definition keeps_link :: "rpc_state \<Rightarrow> rpc_state \<Rightarrow> bool" where
  "keeps_link r r' \<longleftrightarrow> rpAlive r' = rpAlive r \<and> rpStdin r' = rpStdin r \<and> rpStopOnce r' = rpStopOnce r \<and> rpReader r' = rpReader r"

lemma keeps_link_set_pc [simp]: "keeps_link r (set_pc n pc r') = keeps_link r r'"
  by (simp add: keeps_link_def)

lemma keeps_link_pend [simp]: "keeps_link r (pend_delete i r') = keeps_link r r'"
  by (simp add: keeps_link_def pend_delete_def)

lemma keeps_link_refl [simp]: "keeps_link r r"
  by (simp add: keeps_link_def)

lemma keeps_link_deliver: "keeps_link r (deliver_take j x e r)"
  by (simp add: keeps_link_def deliver_take_def split: option.split)

lemma keeps_link_route: "keeps_link r (route_frame n h fr r)"
  using keeps_link_deliver
  by (auto simp: route_frame_def respondToServerRequest_def split: option.split) (simp_all add: keeps_link_def)

lemma call_section_link:
  assumes "rpc_exec n h ev r = Some (Inr r')" "call_section ev"
  shows "keeps_link r r'"
proof (cases ev)
  case (EvCall m p)
  then show ?thesis using assms by (cases "rpAlive r") (auto simp: rpc_exec_def call_begin_def Let_def keeps_link_def)
next
  case (EvRegister k)
  then show ?thesis
    using assms by (auto simp: rpc_exec_def call_register_def split: option.splits call_pc.splits) (simp add: keeps_link_def)
next
  case (EvEncode k)
  then show ?thesis using assms by (auto simp: rpc_exec_def call_encode_def split: option.splits call_pc.splits sum.splits)
next
  case (EvStdin k)
  then show ?thesis using assms by (auto simp: rpc_exec_def call_stdin_def split: option.splits call_pc.splits)
next
  case (EvWrite k w)
  then show ?thesis
    using assms by (auto simp: rpc_exec_def call_write_def split: option.splits call_pc.splits) (simp add: keeps_link_def)
next
  case (EvReceive k)
  then show ?thesis
    using assms by (auto simp: rpc_exec_def call_receive_def Let_def split: option.splits call_pc.splits list.splits if_splits)
      (simp add: keeps_link_def)
next
  case (EvCancel k)
  then show ?thesis using assms by (auto simp: rpc_exec_def call_cancel_def split: option.splits call_pc.splits)
next
  case (EvSend k)
  then show ?thesis
    using assms by (auto simp: rpc_exec_def send_response_def keeps_link_def split: option.splits if_splits prod.splits bool.splits)
qed (use assms(2) in simp_all)

section \<open>The reader\<close>

lemma respond_effect:
  "extends quiet_act (jsChild s) (jsChild (jsonrpc_respond h fr s)) \<and> jsWaiter (jsonrpc_respond h fr s) = jsWaiter s \<and>
   jsWatch (jsonrpc_respond h fr s) = jsWatch s \<and> jsStop (jsonrpc_respond h fr s) = jsStop s \<and>
   jsCtxDone (jsonrpc_respond h fr s) = jsCtxDone s \<and>
   rpc_view (jsonrpc_respond h fr s) = respondToServerRequest (hook_of h s) fr (rpc_view s)"
proof (cases "response_json (hook_of h s) fr")
  case None
  then show ?thesis by (simp add: jsonrpc_respond_def respondToServerRequest_def ext)
next
  case (Some j)
  let ?c = "if csInput (jsChild s) then act (ActWrite (json_text j @ [newline])) (jsChild s) else jsChild s"
  let ?r = "respondToServerRequest (hook_of h s) fr (rpc_view s)"
  have c: "jsChild (jsonrpc_respond h fr s) = jsonrpc_tickActivity ?c" and r: "jsRpc (jsonrpc_respond h fr s) = ?r"
    and p: "jsWaiter (jsonrpc_respond h fr s) = jsWaiter s" "jsWatch (jsonrpc_respond h fr s) = jsWatch s"
      "jsStop (jsonrpc_respond h fr s) = jsStop s" "jsCtxDone (jsonrpc_respond h fr s) = jsCtxDone s"
    using Some by (simp_all add: jsonrpc_respond_def Let_def on_child_def on_rpc_def)
  have "extends quiet_act (jsChild s) ?c" by (simp add: ext)
  then have e: "extends quiet_act (jsChild s) (jsChild (jsonrpc_respond h fr s))"
    unfolding c by (rule extends_trans) (rule extends_tick)
  have "rpAlive ?r = csAlive (jsChild s)" "rpStdin ?r = csInput (jsChild s)" "rpStopOnce ?r = csStopOnce (jsChild s)"
    by (simp_all add: respondToServerRequest_def split: option.split)
  then have "rpc_view (jsonrpc_respond h fr s) = ?r"
    using e r by (intro rpc_view_eqI[OF _ _ _ _ refl]) (simp_all add: extends_def)
  then show ?thesis using e p by simp
qed

lemma route_effect:
  "extends quiet_act (jsChild s) (jsChild (jsonrpc_route h fr s)) \<and> jsWaiter (jsonrpc_route h fr s) = jsWaiter s \<and>
   jsWatch (jsonrpc_route h fr s) = jsWatch s \<and> jsStop (jsonrpc_route h fr s) = jsStop s \<and>
   jsCtxDone (jsonrpc_route h fr s) = jsCtxDone s \<and>
   rpc_view (jsonrpc_route h fr s) = route_frame (notify_of s) (hook_of h s) fr (rpc_view s)"
proof (cases "frMethod fr \<noteq> '''' \<and> frID fr \<noteq> None")
  case True
  then show ?thesis using respond_effect[of s h fr] by (simp add: jsonrpc_route_def route_frame_def)
next
  case False
  let ?r = "route_frame (notify_of s) (hook_of h s) fr (rpc_view s)"
  have k: "keeps_link (rpc_view s) ?r" by (rule keeps_link_route)
  have "rpc_view (on_rpc (route_frame (notify_of s) (hook_of h s) fr) s) = ?r"
    using k by (intro rpc_view_eqI[OF _ _ _ _ refl]) (simp_all add: keeps_link_def on_rpc_def)
  moreover have "jsonrpc_route h fr s = on_rpc (route_frame (notify_of s) (hook_of h s) fr) s"
    unfolding jsonrpc_route_def using False by (rule if_not_P)
  ultimately show ?thesis by (simp add: on_rpc_def ext)
qed

text \<open>What a scanned line changes; the client half is one frame of \<open>Jsonrpc\<close>.\<close>

lemma reader_line_effect:
  assumes "jsonrpc_reader_line cfg h raw s = Some s'"
  shows "extends reader_act (jsChild s) (jsChild s')" "jsWaiter s' = jsWaiter s" "jsWatch s' = jsWatch s"
    "jsStop s' = jsStop s" "jsCtxDone s' = jsCtxDone s"
    "rpc_view s' = reader_frame (notify_of s) (hook_of h s) raw (rpc_view s)"
proof -
  let ?c1 = "sink_write (raw @ [newline]) (jsonrpc_tickActivity (jsChild s))"
  have c1: "extends reader_act (jsChild s) ?c1"
    by (rule extends_trans[OF extends_mono[OF extends_tick quiet_reader]]) (simp_all add: sink_write_def ext)
  have "extends reader_act (jsChild s) (jsChild s') \<and> jsWaiter s' = jsWaiter s \<and> jsWatch s' = jsWatch s \<and>
     jsStop s' = jsStop s \<and> jsCtxDone s' = jsCtxDone s \<and>
     rpc_view s' = reader_frame (notify_of s) (hook_of h s) raw (rpc_view s)"
  proof (cases "decode_frame raw")
    case None
    then have "s' = s\<lparr>jsChild := ?c1\<rparr>" using assms by (simp add: jsonrpc_reader_line_def Let_def)
    then show ?thesis using c1 None rpc_view_extends[of reader_act s s'] by (simp add: reader_frame_def)
  next
    case (Some fr)
    obtain c2 where c2: "extends quiet_act ?c1 c2" "s' = jsonrpc_route h fr (s\<lparr>jsChild := typed_events cfg raw c2\<rparr>)"
    proof (cases "caParseLine (ccAdapter cfg) raw")
      case None
      then show ?thesis using that[OF extends_refl] assms Some by (simp add: jsonrpc_reader_line_def Let_def)
    next
      case evs: (Some evs)
      then obtain c2 where "handle_events evs ?c1 = Some c2" "s' = jsonrpc_route h fr (s\<lparr>jsChild := typed_events cfg raw c2\<rparr>)"
        using assms Some by (auto simp: jsonrpc_reader_line_def Let_def split: option.splits)
      then show ?thesis using that extends_events by blast
    qed
    let ?c3 = "typed_events cfg raw c2"
    let ?s1 = "s\<lparr>jsChild := ?c3\<rparr>"
    have c3: "extends reader_act (jsChild s) ?c3"
      by (rule extends_trans[OF c1 extends_mono[OF extends_trans[OF c2(1) extends_typed] quiet_reader]])
    have v: "rpc_view ?s1 = rpc_view s" using c3 by (intro rpc_view_extends) simp_all
    have o: "notify_of ?s1 = notify_of s" "hook_of h ?s1 = hook_of h s"
      using c3 by (simp_all add: notify_of_def hook_of_def extends_def)
    note r = route_effect[of ?s1 h fr]
    have "extends reader_act (jsChild s) (jsChild s')"
      unfolding c2(2) using r by (intro extends_trans[OF c3] extends_mono[OF _ quiet_reader]) simp_all
    moreover have "rpc_view s' = reader_frame (notify_of s) (hook_of h s) raw (rpc_view s)"
      unfolding c2(2) using r v o Some by (simp add: reader_frame_def)
    ultimately show ?thesis unfolding c2(2) using r by simp
  qed
  then show "extends reader_act (jsChild s) (jsChild s')" "jsWaiter s' = jsWaiter s" "jsWatch s' = jsWatch s"
    "jsStop s' = jsStop s" "jsCtxDone s' = jsCtxDone s"
    "rpc_view s' = reader_frame (notify_of s) (hook_of h s) raw (rpc_view s)" by simp_all
qed

section \<open>Spawning again\<close>

fun spawn_act :: "act \<Rightarrow> bool" where
  "spawn_act (ActSpawn p c) = True"
| "spawn_act a = quiet_act a"

lemma quiet_spawn: "quiet_act a \<Longrightarrow> spawn_act a"
  by (cases a) simp_all

lemma quiet_spawns: "\<forall>a \<in> set t. quiet_act a \<Longrightarrow> spawns t = 0"
  by (induction t) (auto split: act.split)

lemma respawn_effect:
  assumes "jsonrpc_spawnAttempt cfg o' (Suc n) c = (r, c')"
  shows "case r of Inl e \<Rightarrow> extends quiet_act c c'
     | Inr d \<Rightarrow> extends spawn_act (c\<lparr>csInput := True\<rparr>) c' \<and> spawns (csTrace c') = Suc (spawns (csTrace c))"
proof (cases "caDetect (ccAdapter cfg)")
  case None
  then show ?thesis using assms by (auto simp: jsonrpc_spawnAttempt_def ext)
next
  case (Some b)
  show ?thesis
    using assms Some unfolding jsonrpc_spawnAttempt_def Let_def option.case
    by (auto simp: extends_def act_def acts_def split: sum.splits prod.splits option.splits if_splits)
qed

section \<open>The waiter\<close>

fun waiting :: "jsonrpc_waiter \<Rightarrow> bool" where
  "waiting JwWait = True"
| "waiting (JsWait n) = True"
| "waiting w = False"

fun reading :: "jsonrpc_waiter \<Rightarrow> bool" where
  "reading (JwReading e) = True"
| "reading (JsReading n ps e c) = True"
| "reading w = False"

text \<open>The reader has ended; the result is recorded.\<close>

definition parked :: "jsonrpc_waiter \<Rightarrow> bool" where
  "parked w \<longleftrightarrow> \<not> waiting w \<and> \<not> reading w"

fun finished :: "jsonrpc_waiter \<Rightarrow> bool" where
  "finished JwCleanup = True"
| "finished JsRemove = True"
| "finished JwReturned = True"
| "finished w = False"

fun attempt_no :: "jsonrpc_waiter \<Rightarrow> nat option" where
  "attempt_no (JsWait n) = Some n"
| "attempt_no (JsReading n ps e c) = Some n"
| "attempt_no (JsDecide n x) = Some n"
| "attempt_no (JsBackoff n x) = Some n"
| "attempt_no (JsRespawn n x) = Some n"
| "attempt_no w = None"

fun again :: "jsonrpc_waiter \<Rightarrow> bool" where
  "again (JsBackoff n x) = True"
| "again (JsRespawn n x) = True"
| "again w = False"

definition restart_bound :: "child_session \<Rightarrow> nat" where
  "restart_bound c = (case optSupervisor (csOpts c) of None \<Rightarrow> 0 | Some so \<Rightarrow> nat (RestartOnCrash so))"

lemma finished_parked: "finished w \<Longrightarrow> parked w"
  by (cases w) (simp_all add: parked_def)

lemma again_parked: "again w \<Longrightarrow> parked w \<and> \<not> finished w"
  by (cases w) (simp_all add: parked_def)

lemma waited_effect:
  "extends quiet_act (c\<lparr>csInput := False\<rparr>) (jsonrpc_waited cfg t err c)"
  by (auto simp: jsonrpc_waited_def Let_def extends_def acts_def)

lemma cleanup_effect: "extends quiet_act c (jsonrpc_attempt_cleanup c)"
  by (simp add: jsonrpc_attempt_cleanup_def ext)

text \<open>Where the loop goes after an attempt.\<close>

lemma decide_effect:
  assumes "jsonrpc_decide so ctxDone n exit c = (w, c')"
  shows "extends quiet_act c c'" "parked w" "\<not> finished w"
    "(\<exists>x. w = JsFinish x) \<or> (\<exists>xe. w = JsBackoff n xe \<and> int n < RestartOnCrash so) \<and> \<not> csStopRequested c"
  using assms
  by (auto simp: jsonrpc_decide_def Let_def parked_def ext split: if_splits option.splits)

lemma restart_effect:
  assumes "jsonrpc_restart cfg so o' n xe c = (w, c')"
  shows "(\<exists>x. w = JsFinish x) \<and> extends quiet_act c c' \<or>
     w = JsWait (Suc n) \<and> extends spawn_act (c\<lparr>csInput := True\<rparr>) c' \<and> spawns (csTrace c') = Suc (spawns (csTrace c))"
proof -
  let ?c1 = "if OnRestart so then act (ActOnRestart (Suc n) xe) c else c"
  obtain r c2 where sp: "jsonrpc_spawnAttempt cfg o' (Suc n) ?c1 = (r, c2)" by (cases "jsonrpc_spawnAttempt cfg o' (Suc n) ?c1")
  have c1: "extends quiet_act c ?c1" "extends spawn_act (c\<lparr>csInput := True\<rparr>) (?c1\<lparr>csInput := True\<rparr>)"
    "spawns (csTrace ?c1) = spawns (csTrace c)"
    by (simp_all add: ext extends_def act_def)
  note e = respawn_effect[OF sp]
  show ?thesis
  proof (cases r)
    case (Inl x)
    then show ?thesis using assms sp e extends_trans[OF c1(1)] by (auto simp: jsonrpc_restart_def Let_def)
  next
    case (Inr d)
    then show ?thesis using assms sp e extends_trans[OF c1(2)] c1(3) by (auto simp: jsonrpc_restart_def Let_def)
  qed
qed

lemma waiter_section_elim:
  assumes "waiter_section cfg ev s = Some s'"
  obtains (waited) w t err where "s' = s\<lparr>jsWaiter := w, jsChild := jsonrpc_waited cfg t err (jsChild s)\<rparr>"
      "waiting (jsWaiter s)" "reading w" "attempt_no w = attempt_no (jsWaiter s)"
    | (ended) err where "jsWaiter s = JwReading err" "\<not> rpReader (jsRpc s)"
      "s' = s\<lparr>jsWaiter := JwCleanup, jsChild := jsonrpc_legacy_done err (jsChild s)\<rparr>"
    | (ended_supervised) x where "jsWaiter s = JsFinish x"
      "s' = s\<lparr>jsWaiter := JsRemove, jsChild := jsonrpc_supervised_done x (jsChild s)\<rparr>"
    | (removed) c where "finished (jsWaiter s)" "jsWaiter s \<noteq> JwReturned" "extends quiet_act (jsChild s) c"
      "s' = s\<lparr>jsWaiter := JwReturned, jsChild := jsonrpc_remove_boot_dir c\<rparr>"
    | (moved) w c where "s' = s\<lparr>jsWaiter := w, jsChild := c\<rparr>" "extends quiet_act (jsChild s) c" "parked w" "\<not> finished w"
      "\<not> finished (jsWaiter s)" "parked (jsWaiter s) \<or> \<not> rpReader (jsRpc s)" "\<not> waiting (jsWaiter s)"
      "attempt_no w = None \<and> \<not> again w \<or> attempt_no w = attempt_no (jsWaiter s) \<and>
         (again w \<longrightarrow> again (jsWaiter s) \<or> (\<exists>n. attempt_no w = Some n \<and> n < restart_bound (jsChild s)) \<and> \<not> csStopRequested (jsChild s))"
    | (respawned) n xe c where "jsWaiter s = JsRespawn n xe"
      "s' = s\<lparr>jsWaiter := JsWait (Suc n), jsChild := c, jsRpc := (jsRpc s)\<lparr>rpReader := True\<rparr>, jsWatch := WatchStop\<rparr>"
      "extends spawn_act ((jsChild s)\<lparr>csInput := True\<rparr>) c" "spawns (csTrace c) = Suc (spawns (csTrace (jsChild s)))"
proof (cases "jsWaiter s")
  case JwWait
  then show ?thesis using assms waited[where w = "JwReading e" for e] by (auto simp: waiter_section_def Let_def split: session_event.splits)
next
  case (JwReading e)
  then show ?thesis using assms ended by (auto simp: waiter_section_def Let_def split: session_event.splits if_splits)
next
  case JwCleanup
  then show ?thesis using assms removed[OF _ _ cleanup_effect] by (auto simp: waiter_section_def Let_def split: session_event.splits)
next
  case (JsWait n)
  then show ?thesis using assms waited[where w = "JsReading n a b c" for a b c] by (auto simp: waiter_section_def Let_def split: session_event.splits if_splits)
next
  case (JsReading n ps err cause)
  then have r: "\<not> rpReader (jsRpc s)"
    "s' = s\<lparr>jsWaiter := JsDecide n (buildExitError ps err cause), jsChild := jsonrpc_attempt_cleanup (jsChild s)\<rparr>"
    using assms by (auto simp: waiter_section_def Let_def split: session_event.splits if_splits)
  show ?thesis by (rule moved[OF r(2) cleanup_effect]) (use r(1) JsReading in \<open>simp_all add: parked_def\<close>)
next
  case (JsDecide n exit)
  then obtain so w c where d: "optSupervisor (csOpts (jsChild s)) = Some so"
    "jsonrpc_decide so (jsCtxDone s) n exit (jsChild s) = (w, c)" "s' = s\<lparr>jsWaiter := w, jsChild := c\<rparr>"
    using assms by (auto simp: waiter_section_def Let_def split: session_event.splits option.splits prod.splits)
  note e = decide_effect[OF d(2)]
  show ?thesis
    by (rule moved[OF d(3) e(1,2,3)]) (use JsDecide e(4) d(1) in \<open>auto simp: parked_def restart_bound_def\<close>)
next
  case (JsBackoff n xe)
  then consider "s' = s\<lparr>jsWaiter := JsRespawn n xe, jsChild := jsChild s\<rparr>"
    | "s' = s\<lparr>jsWaiter := JsFinish (Some xe), jsChild := jsChild s\<rparr>"
    using assms by (auto simp: waiter_section_def Let_def split: session_event.splits if_splits)
  then show ?thesis
  proof cases
    case 1
    show ?thesis by (rule moved[OF 1 extends_refl]) (use JsBackoff in \<open>simp_all add: parked_def\<close>)
  next
    case 2
    show ?thesis by (rule moved[OF 2 extends_refl]) (use JsBackoff in \<open>simp_all add: parked_def\<close>)
  qed
next
  case (JsRespawn n xe)
  then obtain so o' where so: "optSupervisor (csOpts (jsChild s)) = Some so" and ev: "ev = SnRespawn o'"
    using assms by (auto simp: waiter_section_def Let_def split: session_event.splits option.splits)
  obtain w c where r: "jsonrpc_restart cfg so o' n xe (jsChild s) = (w, c)"
    by (cases "jsonrpc_restart cfg so o' n xe (jsChild s)")
  from restart_effect[OF r] show ?thesis
  proof
    assume w: "(\<exists>x. w = JsFinish x) \<and> extends quiet_act (jsChild s) c"
    then have "s' = s\<lparr>jsWaiter := w, jsChild := c\<rparr>"
      using assms JsRespawn so ev r by (auto simp: waiter_section_def Let_def)
    then show ?thesis using w JsRespawn by (intro moved[where w = w and c = c]) (auto simp: parked_def)
  next
    assume w: "w = JsWait (Suc n) \<and> extends spawn_act ((jsChild s)\<lparr>csInput := True\<rparr>) c \<and>
      spawns (csTrace c) = Suc (spawns (csTrace (jsChild s)))"
    then have "s' = s\<lparr>jsWaiter := JsWait (Suc n), jsChild := c, jsRpc := (jsRpc s)\<lparr>rpReader := True\<rparr>, jsWatch := WatchStop\<rparr>"
      using assms JsRespawn so ev r by (auto simp: waiter_section_def Let_def)
    then show ?thesis using w JsRespawn respawned by blast
  qed
next
  case (JsFinish x)
  then show ?thesis using assms ended_supervised by (auto simp: waiter_section_def Let_def split: session_event.splits)
next
  case JsRemove
  then show ?thesis using assms removed[OF _ _ extends_refl] by (auto simp: waiter_section_def Let_def split: session_event.splits)
next
  case JwReturned
  then show ?thesis using assms by (simp add: waiter_section_def Let_def)
qed

section \<open>The invariant\<close>

definition is_log :: "act \<Rightarrow> bool" where
  "is_log a \<longleftrightarrow> (case a of ActLog b \<Rightarrow> True | _ \<Rightarrow> False)"

text \<open>Nothing is logged after the log was closed.\<close>

definition logs_before_close :: "act list \<Rightarrow> bool" where
  "logs_before_close tr \<longleftrightarrow> (\<forall>a \<in> set (dropWhile (\<lambda>a. a \<noteq> ActCloseLog) tr). \<not> is_log a)"

definition session_inv :: "jsonrpc_session \<Rightarrow> bool" where
  "session_inv s \<longleftrightarrow>
     (let c = jsChild s; w = jsWaiter s; tr = csTrace c in
      (rpReader (jsRpc s) \<longrightarrow> \<not> parked w) \<and> (csInput c \<longrightarrow> waiting w) \<and>
      (csDone c \<longleftrightarrow> finished w) \<and> (csWaitOnce c \<longleftrightarrow> csDone c) \<and>
      (csDone c \<longrightarrow> \<not> csAlive c \<and> csState c = LiveStateStopped) \<and>
      count_act ActCloseLog tr = of_bool (csDone c) \<and>
      count_act ActRemoveBootDir tr = of_bool (w = JwReturned \<and> csBootDir c \<noteq> []) \<and>
      logs_before_close tr \<and>
      (csStopOnce c \<longrightarrow> \<not> csAlive c) \<and> (csStopRequested c \<longleftrightarrow> csStopOnce c) \<and>
      (case attempt_no w of
         Some n \<Rightarrow> spawns tr = Suc n \<and> n \<le> restart_bound c \<and> (again w \<longrightarrow> n < restart_bound c)
       | None \<Rightarrow> 1 \<le> spawns tr \<and> spawns tr \<le> Suc (restart_bound c)))"

lemma logs_append:
  assumes "logs_before_close tr" "ActCloseLog \<in> set tr \<Longrightarrow> \<forall>a \<in> set t. \<not> is_log a" "\<forall>a \<in> set t. a \<noteq> ActCloseLog"
  shows "logs_before_close (tr @ t)"
proof (cases "ActCloseLog \<in> set tr")
  case True
  then have "dropWhile (\<lambda>a. a \<noteq> ActCloseLog) (tr @ t) = dropWhile (\<lambda>a. a \<noteq> ActCloseLog) tr @ t"
    by (rule dropWhile_append1) simp
  then show ?thesis using assms(1,2) True by (auto simp: logs_before_close_def)
next
  case False
  then have "\<forall>a \<in> set (tr @ t). a \<noteq> ActCloseLog" using assms(3) by auto
  then have "dropWhile (\<lambda>a. a \<noteq> ActCloseLog) (tr @ t) = []" by (rule dropWhile_eq_Nil_conv[THEN iffD2])
  then show ?thesis unfolding logs_before_close_def by (simp only: list.set ball_empty)
qed

lemma logs_close: "ActCloseLog \<notin> set tr \<Longrightarrow> logs_before_close (tr @ [ActCloseLog])"
proof -
  assume "ActCloseLog \<notin> set tr"
  then have "dropWhile (\<lambda>a. a \<noteq> ActCloseLog) (tr @ [ActCloseLog]) = dropWhile (\<lambda>a. a \<noteq> ActCloseLog) [ActCloseLog]"
    by (intro dropWhile_append2) auto
  then show ?thesis by (simp add: logs_before_close_def is_log_def)
qed

lemma count_act_0: "count_act a tr = 0 \<longleftrightarrow> a \<notin> set tr"
  by (auto simp: count_act_def filter_empty_conv)

lemma quiet_counts:
  assumes "\<forall>a \<in> set t. P a" "P = quiet_act \<or> P = reader_act \<or> P = spawn_act"
  shows "count_act ActCloseLog t = 0" "count_act ActRemoveBootDir t = 0"
    "P \<noteq> spawn_act \<Longrightarrow> spawns t = 0" "P \<noteq> reader_act \<Longrightarrow> \<forall>a \<in> set t. \<not> is_log a"
proof -
  have n: "\<not> P ActCloseLog" "\<not> P ActRemoveBootDir" using assms(2) by auto
  then show "count_act ActCloseLog t = 0" "count_act ActRemoveBootDir t = 0" using assms(1) unfolding count_act_0 by blast+
  show "\<forall>a \<in> set t. \<not> is_log a" if "P \<noteq> reader_act"
    using assms that by (auto simp: is_log_def split: act.splits)
  show "spawns t = 0" if "P \<noteq> spawn_act"
    using assms that by (auto simp: spawns_def filter_empty_conv split: act.splits)
qed

text \<open>A section that only extends the child, with the waiter where it was.\<close>

lemma session_inv_extends:
  assumes "session_inv s" "extends P (jsChild s) (jsChild s')" "P = quiet_act \<or> P = reader_act \<and> rpReader (jsRpc s)"
    and "jsWaiter s' = jsWaiter s" "rpReader (jsRpc s') \<Longrightarrow> rpReader (jsRpc s)"
  shows "session_inv s'"
proof -
  obtain t where t: "csTrace (jsChild s') = csTrace (jsChild s) @ t" "\<forall>a \<in> set t. P a"
    using assms(2) by (auto simp: extends_def)
  have P: "P = quiet_act \<or> P = reader_act \<or> P = spawn_act" using assms(3) by blast
  have "spawn_act (ActSpawn 0 undefined) \<noteq> quiet_act (ActSpawn 0 undefined)" "reader_act (ActLog []) \<noteq> quiet_act (ActLog [])"
    "spawn_act (ActSpawn 0 undefined) \<noteq> reader_act (ActSpawn 0 undefined)" by simp_all
  then have ne: "quiet_act \<noteq> spawn_act" "reader_act \<noteq> spawn_act" "quiet_act \<noteq> reader_act" by metis+
  note q = quiet_counts[OF t(2) P]
  have closed: "ActCloseLog \<in> set (csTrace (jsChild s)) \<Longrightarrow> csDone (jsChild s)"
    using assms(1) count_act_0[of ActCloseLog "csTrace (jsChild s)"] by (auto simp: session_inv_def Let_def)
  have "\<not> csDone (jsChild s)" if "rpReader (jsRpc s)"
    using assms(1) that finished_parked by (auto simp: session_inv_def Let_def)
  then have l: "logs_before_close (csTrace (jsChild s) @ t)"
    using assms(1,3) closed q(1,4) ne by (intro logs_append) (auto simp: session_inv_def Let_def count_act_0)
  have sp: "spawns t = 0" using q(3) assms(3) ne by auto
  show ?thesis
    using assms l q(1,2) sp unfolding session_inv_def Let_def t(1) restart_bound_def
    by (auto simp: extends_def split: option.splits)
qed

lemma session_invD:
  assumes "session_inv s"
  shows "rpReader (jsRpc s) \<Longrightarrow> \<not> parked (jsWaiter s)" "csInput (jsChild s) \<Longrightarrow> waiting (jsWaiter s)"
    "csDone (jsChild s) \<longleftrightarrow> finished (jsWaiter s)" "csWaitOnce (jsChild s) \<longleftrightarrow> csDone (jsChild s)"
    "csDone (jsChild s) \<Longrightarrow> \<not> csAlive (jsChild s) \<and> csState (jsChild s) = LiveStateStopped"
    "count_act ActCloseLog (csTrace (jsChild s)) = of_bool (csDone (jsChild s))"
    "count_act ActRemoveBootDir (csTrace (jsChild s)) = of_bool (jsWaiter s = JwReturned \<and> csBootDir (jsChild s) \<noteq> [])"
    "logs_before_close (csTrace (jsChild s))"
    "csStopOnce (jsChild s) \<Longrightarrow> \<not> csAlive (jsChild s)" "csStopRequested (jsChild s) \<longleftrightarrow> csStopOnce (jsChild s)"
    "attempt_no (jsWaiter s) = Some n \<Longrightarrow> spawns (csTrace (jsChild s)) = Suc n \<and> n \<le> restart_bound (jsChild s) \<and>
       (again (jsWaiter s) \<longrightarrow> n < restart_bound (jsChild s))"
    "1 \<le> spawns (csTrace (jsChild s)) \<and> spawns (csTrace (jsChild s)) \<le> Suc (restart_bound (jsChild s))"
  using assms unfolding session_inv_def Let_def by (cases "attempt_no (jsWaiter s)"; simp)+

lemma session_invI:
  assumes "rpReader (jsRpc s) \<Longrightarrow> \<not> parked (jsWaiter s)" "csInput (jsChild s) \<Longrightarrow> waiting (jsWaiter s)"
    "csDone (jsChild s) \<longleftrightarrow> finished (jsWaiter s)" "csWaitOnce (jsChild s) \<longleftrightarrow> csDone (jsChild s)"
    "csDone (jsChild s) \<Longrightarrow> \<not> csAlive (jsChild s) \<and> csState (jsChild s) = LiveStateStopped"
    "count_act ActCloseLog (csTrace (jsChild s)) = of_bool (csDone (jsChild s))"
    "count_act ActRemoveBootDir (csTrace (jsChild s)) = of_bool (jsWaiter s = JwReturned \<and> csBootDir (jsChild s) \<noteq> [])"
    "logs_before_close (csTrace (jsChild s))"
    "csStopOnce (jsChild s) \<Longrightarrow> \<not> csAlive (jsChild s)" "csStopRequested (jsChild s) \<longleftrightarrow> csStopOnce (jsChild s)"
    "case attempt_no (jsWaiter s) of
         Some n \<Rightarrow> spawns (csTrace (jsChild s)) = Suc n \<and> n \<le> restart_bound (jsChild s) \<and> (again (jsWaiter s) \<longrightarrow> n < restart_bound (jsChild s))
       | None \<Rightarrow> 1 \<le> spawns (csTrace (jsChild s)) \<and> spawns (csTrace (jsChild s)) \<le> Suc (restart_bound (jsChild s))"
  shows "session_inv s"
  unfolding session_inv_def Let_def using assms by (intro conjI impI) blast+

text \<open>The waiter moves on; the log was not yet closed.\<close>

lemma session_inv_move:
  assumes "session_inv s" "extends P c c'" "P = quiet_act \<or> P = spawn_act"
    and c: "\<exists>i. c = (jsChild s)\<lparr>csInput := i\<rparr>"
    and "jsChild s' = c'" "\<not> finished (jsWaiter s)" "\<not> finished (jsWaiter s')"
    and "rpReader (jsRpc s') \<Longrightarrow> \<not> parked (jsWaiter s')" "csInput c \<Longrightarrow> waiting (jsWaiter s')"
    and sp: "case attempt_no (jsWaiter s') of
         Some n \<Rightarrow> spawns (csTrace c') = Suc n \<and> n \<le> restart_bound (jsChild s) \<and> (again (jsWaiter s') \<longrightarrow> n < restart_bound (jsChild s))
       | None \<Rightarrow> spawns (csTrace c') = spawns (csTrace (jsChild s))"
  shows "session_inv s'"
proof -
  obtain i where i: "c = (jsChild s)\<lparr>csInput := i\<rparr>" using c by blast
  have e: "csAlive c' = csAlive (jsChild s)" "csInput c' = csInput c" "csStopOnce c' = csStopOnce (jsChild s)"
    "csStopRequested c' = csStopRequested (jsChild s)" "csOpts c' = csOpts (jsChild s)" "csDone c' = csDone (jsChild s)"
    "csWaitOnce c' = csWaitOnce (jsChild s)" "csBootDir c' = csBootDir (jsChild s)" "csState c' = csState (jsChild s)"
    and "\<exists>t. csTrace c' = csTrace (jsChild s) @ t \<and> (\<forall>a \<in> set t. P a)"
    using assms(2) unfolding extends_def i by simp_all
  then obtain t where t: "csTrace c' = csTrace (jsChild s) @ t" "\<forall>a \<in> set t. P a" by blast
  have P: "P = quiet_act \<or> P = reader_act \<or> P = spawn_act" using assms(3) by blast
  have ne: "P \<noteq> reader_act"
  proof -
    have "reader_act (ActLog []) \<noteq> quiet_act (ActLog [])" "reader_act (ActLog []) \<noteq> spawn_act (ActLog [])" by simp_all
    then show ?thesis using assms(3) by metis
  qed
  note q = quiet_counts[OF t(2) P]
  note d = session_invD[OF assms(1)]
  have l: "logs_before_close (csTrace (jsChild s) @ t)"
    using d(8) q(1,4) ne by (intro logs_append) (auto simp: count_act_0)
  have nr: "jsWaiter s \<noteq> JwReturned" "jsWaiter s' \<noteq> JwReturned" using assms(6,7) by auto
  have b: "restart_bound c' = restart_bound (jsChild s)" using e by (simp add: restart_bound_def)
  have f: "\<not> csDone (jsChild s)" using d(3) assms(6) by simp
  show ?thesis
  proof (rule session_invI)
    show "case attempt_no (jsWaiter s') of
         Some n \<Rightarrow> spawns (csTrace (jsChild s')) = Suc n \<and> n \<le> restart_bound (jsChild s') \<and>
           (again (jsWaiter s') \<longrightarrow> n < restart_bound (jsChild s'))
       | None \<Rightarrow> 1 \<le> spawns (csTrace (jsChild s')) \<and> spawns (csTrace (jsChild s')) \<le> Suc (restart_bound (jsChild s'))"
      unfolding assms(5) b using sp d(12) by (cases "attempt_no (jsWaiter s')") simp_all
    show "logs_before_close (csTrace (jsChild s'))" unfolding assms(5) t(1) by (rule l)
    show "count_act ActCloseLog (csTrace (jsChild s')) = of_bool (csDone (jsChild s'))"
      unfolding assms(5) e t(1) using d(6) q(1) by simp
    show "count_act ActRemoveBootDir (csTrace (jsChild s')) = of_bool (jsWaiter s' = JwReturned \<and> csBootDir (jsChild s') \<noteq> [])"
      unfolding assms(5) e t(1) using d(7) q(2) nr by simp
    show "rpReader (jsRpc s') \<Longrightarrow> \<not> parked (jsWaiter s')" by (rule assms(8))
    show "csInput (jsChild s') \<Longrightarrow> waiting (jsWaiter s')" unfolding assms(5) e by (rule assms(9))
    show "csDone (jsChild s') = finished (jsWaiter s')" unfolding assms(5) e using f assms(7) by simp
    show "csWaitOnce (jsChild s') = csDone (jsChild s')" unfolding assms(5) e by (rule d(4))
    show "csDone (jsChild s') \<Longrightarrow> \<not> csAlive (jsChild s') \<and> csState (jsChild s') = LiveStateStopped"
      unfolding assms(5) e using f by simp
    show "csStopOnce (jsChild s') \<Longrightarrow> \<not> csAlive (jsChild s')" unfolding assms(5) e by (rule d(9))
    show "csStopRequested (jsChild s') = csStopOnce (jsChild s')" unfolding assms(5) e by (rule d(10))
  qed
qed

text \<open>The result is recorded: the log closes, the session is dead.\<close>

definition closes :: "child_session \<Rightarrow> child_session \<Rightarrow> bool" where
  "closes c c' \<longleftrightarrow> csTrace c' = csTrace c @ [ActCloseLog] \<and> csDone c' \<and> csWaitOnce c' \<and> \<not> csAlive c' \<and>
     csState c' = LiveStateStopped \<and> csInput c' = csInput c \<and> csStopOnce c' = csStopOnce c \<and>
     csStopRequested c' = csStopRequested c \<and> csOpts c' = csOpts c \<and> csBootDir c' = csBootDir c"

lemma closes_done:
  assumes "\<not> csWaitOnce c"
  shows "closes c (jsonrpc_legacy_done err c)" "closes c (jsonrpc_supervised_done x c)"
  using assms by (simp_all add: closes_def jsonrpc_legacy_done_def jsonrpc_supervised_done_def Let_def act_def split: option.split)

lemma session_inv_closes:
  assumes "session_inv s" "closes (jsChild s) (jsChild s')" "jsRpc s' = jsRpc s" "\<not> finished (jsWaiter s)"
    and "jsWaiter s' = JwCleanup \<or> jsWaiter s' = JsRemove" "\<not> rpReader (jsRpc s)" "\<not> waiting (jsWaiter s)"
  shows "session_inv s'"
proof -
  note d = session_invD[OF assms(1)]
  have f: "\<not> csDone (jsChild s)" "ActCloseLog \<notin> set (csTrace (jsChild s))" "\<not> csInput (jsChild s)" "jsWaiter s \<noteq> JwReturned"
    using d(2,3,6) assms(4,7) by (auto simp: count_act_0[symmetric])
  note c = assms(2)[unfolded closes_def]
  have b: "restart_bound (jsChild s') = restart_bound (jsChild s)" using c by (simp add: restart_bound_def)
  have w: "finished (jsWaiter s')" "jsWaiter s' \<noteq> JwReturned" "attempt_no (jsWaiter s') = None" using assms(5) by auto
  show ?thesis
  proof (rule session_invI)
    show "logs_before_close (csTrace (jsChild s'))" using c logs_close[OF f(2)] by simp
    show "case attempt_no (jsWaiter s') of
         Some n \<Rightarrow> spawns (csTrace (jsChild s')) = Suc n \<and> n \<le> restart_bound (jsChild s') \<and>
           (again (jsWaiter s') \<longrightarrow> n < restart_bound (jsChild s'))
       | None \<Rightarrow> 1 \<le> spawns (csTrace (jsChild s')) \<and> spawns (csTrace (jsChild s')) \<le> Suc (restart_bound (jsChild s'))"
      using c d(12) b w(3) by simp
    show "count_act ActRemoveBootDir (csTrace (jsChild s')) = of_bool (jsWaiter s' = JwReturned \<and> csBootDir (jsChild s') \<noteq> [])"
      using c d(7) w f by simp
    show "count_act ActCloseLog (csTrace (jsChild s')) = of_bool (csDone (jsChild s'))" using c d(6) f by simp
  qed (use assms(3,6) c w d(10) f in auto)
qed

text \<open>The last section of the waiter.\<close>

lemma session_inv_removed:
  assumes "session_inv s" "finished (jsWaiter s)" "jsWaiter s \<noteq> JwReturned" "extends quiet_act (jsChild s) c"
    and "jsChild s' = jsonrpc_remove_boot_dir c" "jsWaiter s' = JwReturned" "jsRpc s' = jsRpc s"
  shows "session_inv s'"
proof -
  note d = session_invD[OF assms(1)]
  obtain t where t: "csTrace c = csTrace (jsChild s) @ t" "\<forall>a \<in> set t. quiet_act a" using assms(4) by (auto simp: extends_def)
  have ne: "quiet_act \<noteq> reader_act" "quiet_act \<noteq> spawn_act"
  proof -
    have "spawn_act (ActSpawn 0 undefined) \<noteq> quiet_act (ActSpawn 0 undefined)" "reader_act (ActLog []) \<noteq> quiet_act (ActLog [])"
      by simp_all
    then show "quiet_act \<noteq> reader_act" "quiet_act \<noteq> spawn_act" by metis+
  qed
  have q: "count_act ActCloseLog t = 0" "count_act ActRemoveBootDir t = 0" "spawns t = 0" "\<forall>a \<in> set t. \<not> is_log a"
    using quiet_counts[OF t(2)] ne by blast+
  let ?u = "if csBootDir c = [] then t else t @ [ActRemoveBootDir]"
  have tr: "csTrace (jsChild s') = csTrace (jsChild s) @ ?u" using t(1) assms(5) by (simp add: jsonrpc_remove_boot_dir_def act_def)
  have e: "csAlive (jsChild s') = csAlive (jsChild s)" "csInput (jsChild s') = csInput (jsChild s)"
    "csStopOnce (jsChild s') = csStopOnce (jsChild s)" "csStopRequested (jsChild s') = csStopRequested (jsChild s)"
    "csOpts (jsChild s') = csOpts (jsChild s)" "csDone (jsChild s') = csDone (jsChild s)"
    "csWaitOnce (jsChild s') = csWaitOnce (jsChild s)" "csBootDir (jsChild s') = csBootDir (jsChild s)"
    "csState (jsChild s') = csState (jsChild s)" "csBootDir c = csBootDir (jsChild s)"
    using assms(4,5) by (simp_all add: extends_def jsonrpc_remove_boot_dir_def act_def)
  have b: "restart_bound (jsChild s') = restart_bound (jsChild s)" using e by (simp add: restart_bound_def)
  have pk: "parked (jsWaiter s)" using finished_parked[OF assms(2)] .
  have wt: "\<not> waiting (jsWaiter s)" using pk by (simp add: parked_def)
  show ?thesis
  proof (rule session_invI)
    show "logs_before_close (csTrace (jsChild s'))"
      unfolding tr using d(8) q by (intro logs_append) (auto simp: count_act_0 is_log_def)
    show "case attempt_no (jsWaiter s') of
         Some n \<Rightarrow> spawns (csTrace (jsChild s')) = Suc n \<and> n \<le> restart_bound (jsChild s') \<and>
           (again (jsWaiter s') \<longrightarrow> n < restart_bound (jsChild s'))
       | None \<Rightarrow> 1 \<le> spawns (csTrace (jsChild s')) \<and> spawns (csTrace (jsChild s')) \<le> Suc (restart_bound (jsChild s'))"
      unfolding tr b using d(12) q(3) assms(6) by simp
    show "count_act ActRemoveBootDir (csTrace (jsChild s')) = of_bool (jsWaiter s' = JwReturned \<and> csBootDir (jsChild s') \<noteq> [])"
      unfolding tr using d(7) q(2) assms(3,6) e by simp
    show "count_act ActCloseLog (csTrace (jsChild s')) = of_bool (csDone (jsChild s'))" unfolding tr using d(6) q(1) e by simp
    show "rpReader (jsRpc s') \<Longrightarrow> \<not> parked (jsWaiter s')" using d(1) assms(7) pk by simp
    show "csInput (jsChild s') \<Longrightarrow> waiting (jsWaiter s')" using d(2) e wt by simp
    show "csDone (jsChild s') = finished (jsWaiter s')" using d(3) e assms(2,6) by simp
    show "csWaitOnce (jsChild s') = csDone (jsChild s')" using d(4) e by simp
    show "csDone (jsChild s') \<Longrightarrow> \<not> csAlive (jsChild s') \<and> csState (jsChild s') = LiveStateStopped" using d(5) e by simp
    show "csStopOnce (jsChild s') \<Longrightarrow> \<not> csAlive (jsChild s')" using d(9) e by simp
    show "csStopRequested (jsChild s') = csStopOnce (jsChild s')" using d(10) e by simp
  qed
qed

lemma session_inv_waiter:
  assumes "waiter_section cfg ev s = Some s'" "session_inv s"
  shows "session_inv s'"
  using assms(1)
proof (cases rule: waiter_section_elim)
  case (waited w t err)
  note d = session_invD[OF assms(2)]
  have w: "\<not> finished w" "\<not> parked w" "\<not> finished (jsWaiter s)" "\<not> again w"
    using waited(2,3) by (cases w; cases "jsWaiter s"; simp add: parked_def)+
  obtain u where u: "csTrace (jsonrpc_waited cfg t err (jsChild s)) = csTrace (jsChild s) @ u" "\<forall>a \<in> set u. quiet_act a"
    using waited_effect[of "jsChild s" cfg t err] by (auto simp: extends_def)
  have s': "jsWaiter s' = w" "jsChild s' = jsonrpc_waited cfg t err (jsChild s)" "jsRpc s' = jsRpc s" using waited(1) by simp_all
  have sp: "case attempt_no (jsWaiter s') of
         Some n \<Rightarrow> spawns (csTrace (jsonrpc_waited cfg t err (jsChild s))) = Suc n \<and> n \<le> restart_bound (jsChild s) \<and>
           (again (jsWaiter s') \<longrightarrow> n < restart_bound (jsChild s))
       | None \<Rightarrow> spawns (csTrace (jsonrpc_waited cfg t err (jsChild s))) = spawns (csTrace (jsChild s))"
    using w(4) d(11) quiet_spawns[OF u(2)] u(1) unfolding s' waited(4) by (cases "attempt_no (jsWaiter s)") simp_all
  show ?thesis
    by (rule session_inv_move[OF assms(2) waited_effect[of "jsChild s" cfg t err] _ _ s'(2) _ _ _ _ sp]) (use s' w in auto)
next
  case (ended err)
  note d = session_invD[OF assms(2)]
  have "\<not> csWaitOnce (jsChild s)" using d(3,4) ended(1) by simp
  then show ?thesis
    using ended by (intro session_inv_closes[OF assms(2)]) (simp_all add: closes_done)
next
  case (ended_supervised x)
  note d = session_invD[OF assms(2)]
  have "\<not> csWaitOnce (jsChild s)" "\<not> rpReader (jsRpc s)" using d(1,3,4) ended_supervised(1) by (auto simp: parked_def)
  then show ?thesis
    using ended_supervised by (intro session_inv_closes[OF assms(2)]) (simp_all add: closes_done)
next
  case (removed c)
  show ?thesis by (rule session_inv_removed[OF assms(2) removed(1,2,3)]) (simp_all add: removed(4))
next
  case (moved w c)
  note d = session_invD[OF assms(2)]
  obtain t where t: "csTrace c = csTrace (jsChild s) @ t" "\<forall>a \<in> set t. quiet_act a" using moved(2) by (auto simp: extends_def)
  have r: "\<not> rpReader (jsRpc s)" using moved(6) d(1) by blast
  have i: "\<not> csInput (jsChild s)" using moved(7) d(2) by blast
  have s': "jsWaiter s' = w" "jsChild s' = c" "jsRpc s' = jsRpc s" using moved(1) by simp_all
  have sp: "case attempt_no (jsWaiter s') of
         Some n \<Rightarrow> spawns (csTrace c) = Suc n \<and> n \<le> restart_bound (jsChild s) \<and> (again (jsWaiter s') \<longrightarrow> n < restart_bound (jsChild s))
       | None \<Rightarrow> spawns (csTrace c) = spawns (csTrace (jsChild s))"
  proof (cases "attempt_no w")
    case None
    then show ?thesis using quiet_spawns[OF t(2)] t(1) by (simp add: s')
  next
    case (Some n)
    then have "attempt_no (jsWaiter s) = Some n" using moved(8) by auto
    then show ?thesis using Some moved(8) d(11)[of n] quiet_spawns[OF t(2)] t(1) by (auto simp: s')
  qed
  have c: "\<exists>i. jsChild s = (jsChild s)\<lparr>csInput := i\<rparr>" by (rule exI[of _ "csInput (jsChild s)"]) simp
  show ?thesis
    by (rule session_inv_move[OF assms(2) moved(2) _ c s'(2) _ _ _ _ sp]) (use moved(4,5) s' r i in auto)
next
  case (respawned n xe c)
  note d = session_invD[OF assms(2)]
  show ?thesis
    by (rule session_inv_move[OF assms(2) respawned(3)]) (use respawned d(11)[of n] in \<open>auto simp: parked_def\<close>)
qed

section \<open>One section of any goroutine\<close>

lemma client_effect_extends: "extends quiet_act (jsChild s) (client_effect ev s)"
proof -
  have "extends quiet_act (jsChild s) (jsonrpc_tickActivity (act (ActWrite b) (jsChild s)))" for b
    by (rule extends_trans[OF extends_act extends_tick]) simp
  then show ?thesis by (auto simp: client_effect_def ext split: rpc_event.split option.split call_pc.split)
qed

lemma session_exec_elim:
  assumes "session_exec cfg h ev s = Some (Inr s')"
  obtains (line) raw where "ev = SnLine raw" "rpReader (jsRpc s)" "jsonrpc_reader_line cfg h raw s = Some s'"
    | (exit) "rpReader (jsRpc s)" "s' = on_rpc reader_exit s"
    | (client) e r where "ev = SnClient e" "call_section e" "rpc_exec (notify_of s) (hook_of h s) e (rpc_view s) = Some (Inr r)"
      "s' = s\<lparr>jsChild := client_effect e s, jsRpc := r\<rparr>"
    | (stop) "\<not> csStopOnce (jsChild s)" "s' = jsonrpc_stop_begin s"
    | (other) "extends quiet_act (jsChild s) (jsChild s')" "jsRpc s' = jsRpc s" "jsWaiter s' = jsWaiter s"
    | (waiter) "waiter_section cfg ev s = Some s'"
proof -
  have watch: "extends quiet_act (jsChild s) (jsChild s') \<and> jsRpc s' = jsRpc s \<and> jsWaiter s' = jsWaiter s"
    if "watch_section ev s = Some s'"
    using that by (auto simp: watch_section_def on_child_def ext
        split: jsonrpc_waiter.splits jsonrpc_watcher.splits session_event.splits if_splits)
  have stopper: "extends quiet_act (jsChild s) (jsChild s') \<and> jsRpc s' = jsRpc s \<and> jsWaiter s' = jsWaiter s \<or>
      \<not> csStopOnce (jsChild s) \<and> s' = jsonrpc_stop_begin s"
    if "stop_section ev s = Some s'"
    using that by (auto simp: stop_section_def on_child_def ext split: jsonrpc_stopper.splits session_event.splits if_splits)
  show ?thesis
  proof (cases ev)
    case (SnLine raw)
    then show ?thesis using assms line by (auto simp: session_exec_def split: if_splits option.splits)
  next
    case SnReaderExit
    then show ?thesis using assms exit by (auto simp: session_exec_def split: if_splits)
  next
    case (SnClient e)
    then show ?thesis
      using assms client by (auto simp: session_exec_def client_section_def split: if_splits option.splits sum.splits)
  next
    case (SnInput w d)
    then show ?thesis using assms other by (auto simp: session_exec_def on_child_def ext)
  next
    case SnCtxDone
    then show ?thesis using assms other by (auto simp: session_exec_def ext)
  next
    case SnWatchTerm
    then show ?thesis using assms other watch by (auto simp: session_exec_def)
  next
    case SnWatchKill
    then show ?thesis using assms other watch by (auto simp: session_exec_def)
  next
    case SnProcDone
    then show ?thesis using assms other watch by (auto simp: session_exec_def)
  next
    case SnStop
    then show ?thesis using assms other stop stopper by (auto simp: session_exec_def)
  next
    case (SnStopTerm e)
    then show ?thesis using assms other stop stopper by (auto simp: session_exec_def)
  next
    case SnStopKill
    then show ?thesis using assms other stop stopper by (auto simp: session_exec_def)
  next
    case SnStopSeen
    then show ?thesis using assms other stop stopper by (auto simp: session_exec_def)
  qed (use assms waiter in \<open>auto simp: session_exec_def\<close>)
qed

lemma stop_begin_effect:
  assumes "\<not> csStopOnce (jsChild s)"
  shows "rpc_view (jsonrpc_stop_begin s) = rpc_stop (rpc_view s)" "jsWaiter (jsonrpc_stop_begin s) = jsWaiter s"
    "rpReader (jsRpc (jsonrpc_stop_begin s)) = rpReader (jsRpc s)"
    "extends quiet_act ((jsChild s)\<lparr>csStopOnce := True, csAlive := False, csState := LiveStateStopped, csStopRequested := True\<rparr>)
       (jsChild (jsonrpc_stop_begin s))"
proof -
  let ?s = "jsonrpc_stop_begin s"
  show e: "extends quiet_act ((jsChild s)\<lparr>csStopOnce := True, csAlive := False, csState := LiveStateStopped, csStopRequested := True\<rparr>)
       (jsChild ?s)"
    by (simp add: jsonrpc_stop_begin_def Let_def on_rpc_def ext)
  have r: "jsRpc ?s = rpc_stop (rpc_view s)" by (simp add: jsonrpc_stop_begin_def Let_def on_rpc_def)
  show "jsWaiter ?s = jsWaiter s" by (simp add: jsonrpc_stop_begin_def Let_def on_rpc_def)
  show "rpReader (jsRpc ?s) = rpReader (jsRpc s)" using assms by (simp add: r rpc_stop_def)
  show "rpc_view ?s = rpc_stop (rpc_view s)"
    using assms e r by (intro rpc_view_eqI[OF _ _ _ _ refl]) (simp_all add: rpc_stop_def extends_def)
qed

lemma reader_exit_effect:
  "rpc_view (on_rpc reader_exit s) = reader_exit (rpc_view s)" "\<not> rpReader (jsRpc (on_rpc reader_exit s))"
  by (rule rpc_view_eqI[OF _ _ _ _ refl]) (simp_all add: on_rpc_def reader_exit_def fail_take_def)

lemma session_inv_step:
  assumes "session_exec cfg h ev s = Some (Inr s')" "session_inv s"
  shows "session_inv s'"
  using assms(1)
proof (cases rule: session_exec_elim)
  case (line raw)
  note e = reader_line_effect[OF line(3)]
  show ?thesis
    by (rule session_inv_extends[OF assms(2) e(1)]) (use line(2) e(2) in simp_all)
next
  case exit
  have "extends quiet_act (jsChild s) (jsChild s')" "jsWaiter s' = jsWaiter s" using exit(2) by (simp_all add: on_rpc_def ext)
  then show ?thesis
    using session_inv_extends[OF assms(2), of quiet_act s'] exit reader_exit_effect(2)[of s] by blast
next
  case (client e r)
  have k: "keeps_link (rpc_view s) r" by (rule call_section_link[OF client(3,2)])
  have "jsChild s' = client_effect e s" using client(4) by simp
  then show ?thesis
    by (intro session_inv_extends[OF assms(2), of quiet_act]) (use client_effect_extends client(4) k in \<open>simp_all add: keeps_link_def\<close>)
next
  case stop
  note e = stop_begin_effect[OF stop(1)]
  let ?c = "(jsChild s)\<lparr>csStopOnce := True, csAlive := False, csState := LiveStateStopped, csStopRequested := True\<rparr>"
  let ?s = "s\<lparr>jsChild := ?c\<rparr>"
  note d = session_invD[OF assms(2)]
  have b: "restart_bound ?c = restart_bound (jsChild s)" by (simp add: restart_bound_def)
  have "session_inv ?s"
  proof (rule session_invI)
    show "case attempt_no (jsWaiter ?s) of
         Some n \<Rightarrow> spawns (csTrace (jsChild ?s)) = Suc n \<and> n \<le> restart_bound (jsChild ?s) \<and>
           (again (jsWaiter ?s) \<longrightarrow> n < restart_bound (jsChild ?s))
       | None \<Rightarrow> 1 \<le> spawns (csTrace (jsChild ?s)) \<and> spawns (csTrace (jsChild ?s)) \<le> Suc (restart_bound (jsChild ?s))"
      using d(11,12) b by (cases "attempt_no (jsWaiter s)") simp_all
  qed (use d(1-8) in simp_all)
  then show ?thesis
    by (rule session_inv_extends[of _ quiet_act]) (use e stop(2) in simp_all)
next
  case other
  then show ?thesis by (intro session_inv_extends[OF assms(2), of quiet_act]) simp_all
next
  case waiter
  then show ?thesis by (rule session_inv_waiter[OF _ assms(2)])
qed

section \<open>The client half simulates \<open>Jsonrpc\<close>\<close>

lemma rpc_run_one: "rpc_exec n h e r = Some (Inr r') \<Longrightarrow> rpc_run n h [e] r = Some (Inr r')"
  by simp

lemma waited_view:
  assumes "s' = s\<lparr>jsWaiter := w, jsChild := jsonrpc_waited cfg t err (jsChild s)\<rparr>"
  shows "rpc_view s' = (rpc_view s)\<lparr>rpStdin := False\<rparr>"
  using waited_effect[of "jsChild s" cfg t err] assms by (simp add: rpc_view_def extends_def)

lemma closes_view:
  assumes "closes (jsChild s) (jsChild s')" "jsRpc s' = jsRpc s"
  shows "rpc_view s' = (rpc_view s)\<lparr>rpAlive := False\<rparr>"
  using assms by (simp add: rpc_view_def closes_def)

lemma waiter_simulates:
  assumes "waiter_section cfg ev s = Some s'" "session_inv s"
  shows "\<exists>evs. rpc_run n h evs (rpc_view s) = Some (Inr (rpc_view s')) \<and> EvStop \<notin> set evs"
  using assms(1)
proof (cases rule: waiter_section_elim)
  case (waited w t err)
  then have "rpc_run n h [EvStdinNil] (rpc_view s) = Some (Inr (rpc_view s'))"
    using waited_view[OF waited(1)] by (simp add: rpc_exec_def)
  then show ?thesis by (intro exI[of _ "[EvStdinNil]"]) simp
next
  case (ended err)
  have "\<not> csWaitOnce (jsChild s)" using session_invD(3,4)[OF assms(2)] ended(1) by simp
  then have "rpc_view s' = (rpc_view s)\<lparr>rpAlive := False\<rparr>"
    using ended(3) closes_done by (intro closes_view) simp_all
  then have "rpc_run n h [EvDead] (rpc_view s) = Some (Inr (rpc_view s'))" using ended(2) by (simp add: rpc_exec_def)
  then show ?thesis by (intro exI[of _ "[EvDead]"]) simp
next
  case (ended_supervised x)
  have "\<not> csWaitOnce (jsChild s)" "\<not> rpReader (jsRpc s)"
    using session_invD(1,3,4)[OF assms(2)] ended_supervised(1) by (auto simp: parked_def)
  moreover then have "rpc_view s' = (rpc_view s)\<lparr>rpAlive := False\<rparr>"
    using ended_supervised(2) closes_done by (intro closes_view) simp_all
  ultimately have "rpc_run n h [EvDead] (rpc_view s) = Some (Inr (rpc_view s'))" by (simp add: rpc_exec_def)
  then show ?thesis by (intro exI[of _ "[EvDead]"]) simp
next
  case (removed c)
  have "rpc_view s' = rpc_view s"
    using removed(3,4) by (intro rpc_view_cong) (simp_all add: extends_def jsonrpc_remove_boot_dir_def act_def)
  then show ?thesis by (intro exI[of _ "[]"]) simp
next
  case (moved w c)
  have "rpc_view s' = rpc_view s" using moved(1,2) by (intro rpc_view_extends) simp_all
  then show ?thesis by (intro exI[of _ "[]"]) simp
next
  case (respawned m xe c)
  have o: "\<not> rpReader (jsRpc s)" "\<not> csInput (jsChild s)"
    using session_invD(1,2)[OF assms(2)] respawned(1) by (auto simp: parked_def)
  have "rpc_view s' = (rpc_view s)\<lparr>rpReader := True, rpStdin := True\<rparr>"
    using respawned(2,3) by (simp add: rpc_view_def extends_def)
  then have "rpc_run n h [EvReaderStart] (rpc_view s) = Some (Inr (rpc_view s'))" using o by (simp add: rpc_exec_def)
  then show ?thesis by (intro exI[of _ "[EvReaderStart]"]) simp
qed

lemma session_exec_simulates:
  assumes "session_exec cfg h ev s = Some (Inr s')" "session_inv s"
  shows "\<exists>evs. rpc_run (notify_of s) (hook_of h s) evs (rpc_view s) = Some (Inr (rpc_view s'))"
  using assms(1)
proof (cases rule: session_exec_elim)
  case (line raw)
  then have "rpc_run (notify_of s) (hook_of h s) [EvLine raw] (rpc_view s) = Some (Inr (rpc_view s'))"
    using reader_line_effect(6)[OF line(3)] by (simp add: rpc_exec_def)
  then show ?thesis by blast
next
  case exit
  then have "rpc_run (notify_of s) (hook_of h s) [EvReaderExit] (rpc_view s) = Some (Inr (rpc_view s'))"
    by (simp add: rpc_exec_def reader_exit_effect)
  then show ?thesis by blast
next
  case (client e r)
  have k: "keeps_link (rpc_view s) r" by (rule call_section_link[OF client(3,2)])
  have "rpc_view s' = r"
    using k client(4) client_effect_extends[of s e]
    by (intro rpc_view_eqI[OF _ _ _ _ refl]) (simp_all add: keeps_link_def extends_def)
  then show ?thesis using rpc_run_one[OF client(3)] by blast
next
  case stop
  then have "rpc_run (notify_of s) (hook_of h s) [EvStop] (rpc_view s) = Some (Inr (rpc_view s'))"
    by (simp add: rpc_exec_def stop_begin_effect)
  then show ?thesis by blast
next
  case other
  have "rpc_run (notify_of s) (hook_of h s) [] (rpc_view s) = Some (Inr (rpc_view s'))"
    using rpc_view_extends[OF other(1,2)] by simp
  then show ?thesis by blast
next
  case waiter
  then show ?thesis using waiter_simulates[OF waiter assms(2)] by blast
qed

text \<open>The options never change, nor does the boot directory.\<close>

lemma session_exec_opts:
  assumes "session_exec cfg h ev s = Some (Inr s')" "session_inv s"
  shows "csOpts (jsChild s') = csOpts (jsChild s) \<and> csBootDir (jsChild s') = csBootDir (jsChild s)"
  using assms(1)
proof (cases rule: session_exec_elim)
  case (line raw)
  then show ?thesis using reader_line_effect(1)[OF line(3)] by (simp add: extends_def)
next
  case (client e r)
  then show ?thesis using client_effect_extends[of s e] by (simp add: extends_def)
next
  case stop
  then show ?thesis using stop_begin_effect(4)[OF stop(1)] by (simp add: extends_def)
next
  case waiter
  then show ?thesis
  proof (cases rule: waiter_section_elim)
    case (waited w t err)
    then show ?thesis using waited_effect[of "jsChild s" cfg t err] by (simp add: extends_def)
  next
    case (removed c)
    then show ?thesis by (simp add: extends_def jsonrpc_remove_boot_dir_def act_def)
  qed (use closes_done session_invD(3,4)[OF assms(2)] in \<open>auto simp: extends_def closes_def\<close>)
qed (auto simp: on_rpc_def extends_def)

end
