(* ===== verification/Jsonrpc_Session_Props.thy ===== *)
theory Jsonrpc_Session_Props imports Jsonrpc_Session_Inv Streaming_Stdio begin

text \<open>
  The properties of a running JSON-RPC session, under every interleaving of reader,
  waiter or supervised loop, stop watcher, \<open>Stop\<close>, \<open>SendInput\<close> and any number of calls.
\<close>

section \<open>Start\<close>

lemma first_spawn_effect:
  assumes "jsonrpc_spawnAttempt cfg o' 0 c = (Inr d, c')"
  shows "extends spawn_act (c\<lparr>csInput := True\<rparr>) c' \<and> spawns (csTrace c') = Suc (spawns (csTrace c))"
proof -
  have tick: "\<exists>t. csTrace (jsonrpc_tickActivity c) = csTrace c @ t \<and> (\<forall>a \<in> set t. quiet_act a)" for c
    using extends_tick[of c] by (auto simp: extends_def)
  show ?thesis
  proof (cases "caDetect (ccAdapter cfg)")
    case None
    then show ?thesis using assms by (simp add: jsonrpc_spawnAttempt_def)
  next
    case (Some b)
    show ?thesis
      using assms Some unfolding jsonrpc_spawnAttempt_def Let_def option.case
      by (auto simp: extends_def act_def acts_def jsonrpc_tickActivity_def split: sum.splits prod.splits option.splits if_splits)
  qed
qed

lemma send_extends:
  assumes "jsonrpc_SendInput w d c = (e, c')"
  shows "extends quiet_act c c'"
proof -
  have "extends quiet_act c (jsonrpc_tickActivity (act (ActWrite b) c))" for b
    by (rule extends_trans[OF extends_act extends_tick]) simp
  then show ?thesis using assms by (auto simp: jsonrpc_SendInput_def Let_def ext split: if_splits option.splits)
qed

text \<open>A successful \<open>Start\<close> spawned one child and perhaps sent the first turn.\<close>

lemma start_elim:
  assumes "srError (jsonrpcStart cfg ad behav o' opts events fs) = None"
    and "srSession (jsonrpcStart cfg ad behav o' opts events fs) = Some c"
  obtains cfg' sp opts' bd d c1 where "jsonrpc_spawnAttempt cfg' sp 0 (new_child opts' bd events) = (Inr d, c1)"
    "c = c1 \<or> (\<exists>w p e. jsonrpc_SendInput w p c1 = (e, c))"
proof (cases "optWorkdir opts = ''''")
  case True
  then show ?thesis using assms(1) by (simp add: jsonrpcStart_def failed_start_def)
next
  case False
  obtain pr fs1 where p: "preparePlant (soFs o') opts ad (ccID cfg) fs = (pr, fs1)" by (rule prod.exhaust)
  have err: "prError pr = None" using assms(1) False p by (auto simp: jsonrpcStart_def failed_start_def split: option.splits)
  let ?cfg = "cfg\<lparr>ccAdapter := behav (prAdapter pr)\<rparr>"
  obtain r fs2 where l: "jsonrpc_LogPath (soFs o') (prOptions pr) fs1 = (r, fs2)" by (rule prod.exhaust)
  obtain log where r: "r = Inr log"
    using assms(1) False p err l by (cases r) (simp_all add: jsonrpcStart_def failed_start_def Let_def)
  have cl: "soCreateLog o' = None"
    using assms(1) False p err l r by (cases "soCreateLog o'") (simp_all add: jsonrpcStart_def failed_start_def Let_def)
  obtain x c1 where sp: "jsonrpc_spawnAttempt ?cfg (soSpawn o') 0 (new_child (prOptions pr) (prBootDir pr) events) = (x, c1)"
    by (rule prod.exhaust)
  obtain d where x: "x = Inr d"
    using assms(1) False p err l r cl sp by (cases x) (simp_all add: jsonrpcStart_def failed_start_def Let_def)
  obtain e c2 where sd: "jsonrpc_SendInput (soFirstTurn o') (optFirstTurnPayload (prOptions pr)) c1 = (e, c2)" by (rule prod.exhaust)
  have "c = c1 \<or> c = c2"
    using assms False p err l r cl sp x sd
    by (cases e) (auto simp: jsonrpcStart_def failed_start_def Let_def split: if_splits)
  then show ?thesis using that[OF sp[unfolded x]] sd by blast
qed

lemma started_inv:
  assumes "srError (jsonrpcStart cfg ad behav o' opts events fs) = None"
    and "srSession (jsonrpcStart cfg ad behav o' opts events fs) = Some c"
  shows "session_inv (jsonrpc_started c)" "rpc_view (jsonrpc_started c) = new_rpc"
proof -
  obtain cfg' sp opts' bd d c1 where c1: "jsonrpc_spawnAttempt cfg' sp 0 (new_child opts' bd events) = (Inr d, c1)"
    "c = c1 \<or> (\<exists>w p e. jsonrpc_SendInput w p c1 = (e, c))"
    using start_elim[OF assms] by blast
  let ?n = "new_child opts' bd events"
  note e = first_spawn_effect[OF c1(1)]
  have q: "extends quiet_act c1 c" using c1(2) send_extends extends_refl by blast
  obtain t where t: "csTrace c1 = t" "\<forall>a \<in> set t. spawn_act a" using e by (auto simp: extends_def new_child_def)
  obtain u where u: "csTrace c = t @ u" "\<forall>a \<in> set u. quiet_act a" using q t(1) by (auto simp: extends_def)
  have sp: "spawns (csTrace c) = 1" using e u t quiet_spawns[OF u(2)] by (simp add: new_child_def)
  have no: "ActCloseLog \<notin> set (csTrace c)" "ActRemoveBootDir \<notin> set (csTrace c)"
    using t(2) u by fastforce+
  have f: "csAlive c" "csInput c" "\<not> csStopOnce c" "\<not> csStopRequested c" "\<not> csDone c" "\<not> csWaitOnce c"
    using e q by (simp_all add: extends_def new_child_def)
  show "rpc_view (jsonrpc_started c) = new_rpc"
    using f by (simp add: rpc_view_def jsonrpc_started_def new_rpc_def)
  have "\<forall>a \<in> set (csTrace c). a \<noteq> ActCloseLog" using no(1) by blast
  then have "dropWhile (\<lambda>a. a \<noteq> ActCloseLog) (csTrace c) = []" by (rule dropWhile_eq_Nil_conv[THEN iffD2])
  then have "logs_before_close (csTrace c)" unfolding logs_before_close_def by (simp only: list.set ball_empty)
  then show "session_inv (jsonrpc_started c)"
    using f sp no by (intro session_invI) (simp_all add: jsonrpc_started_def parked_def count_act_0)
qed

lemma reach_inv: "session_reach cfg h s0 evs s \<Longrightarrow> session_inv s0 \<Longrightarrow> session_inv s"
  by (induction rule: session_reach.induct) (auto intro: session_inv_step)

lemma reach_opts:
  "session_reach cfg h s0 evs s \<Longrightarrow> session_inv s0 \<Longrightarrow>
   csOpts (jsChild s) = csOpts (jsChild s0) \<and> csBootDir (jsChild s) = csBootDir (jsChild s0)"
proof (induction rule: session_reach.induct)
  case (step evs s ev s')
  then show ?case using session_exec_opts[OF step.hyps(2) reach_inv[OF step.hyps(1) step.prems]] by simp
qed simp

lemma run_reach:
  "session_run cfg h evs s = Some (Inr s') \<Longrightarrow> session_reach cfg h s0 pre s \<Longrightarrow> session_reach cfg h s0 (pre @ evs) s'"
proof (induction evs arbitrary: s pre)
  case (Cons ev evs)
  obtain u where u: "session_exec cfg h ev s = Some (Inr u)" "session_run cfg h evs u = Some (Inr s')"
    using Cons.prems(1) by (auto split: option.splits sum.splits)
  show ?case using Cons.IH[OF u(2) session_reach.step[OF Cons.prems(2) u(1)]] by simp
qed simp

lemma reach_client:
  assumes "session_reach cfg h s0 evs s" "session_inv s0" "rpc_view s0 = new_rpc"
  shows "\<exists>cevs. rpc_reach (notify_of s) (hook_of h s) cevs (rpc_view s)"
  using assms
proof (induction rule: session_reach.induct)
  case init
  then show ?case using rpc_reach.init by metis
next
  case (step evs s ev s')
  have i: "session_inv s" by (rule reach_inv[OF step.hyps(1) step.prems(1)])
  have o: "notify_of s' = notify_of s" "hook_of h s' = hook_of h s"
    using session_exec_opts[OF step.hyps(2) i] by (simp_all add: notify_of_def hook_of_def)
  obtain cevs where c: "rpc_reach (notify_of s) (hook_of h s) cevs (rpc_view s)" using step.IH step.prems by blast
  obtain es where "rpc_run (notify_of s) (hook_of h s) es (rpc_view s) = Some (Inr (rpc_view s'))"
    using session_exec_simulates[OF step.hyps(2) i] by blast
  then show ?case unfolding o using rpc_run_reach c by blast
qed

section \<open>The client inside the session\<close>

text \<open>C24.
  The client runs inside the session as \<open>Jsonrpc\<close> has it.  Whatever the reader, the
  waiter or supervised loop, \<open>Stop\<close>, inputs and calls do after a successful \<open>Start\<close>,
  in any order and over any number of restarts, the pending table, channels and calls
  of the struct are those of a run of the client machine (so what is proved of every
  such run holds in the session), and no section sends on a closed response channel,
  blocks on a full one or closes one twice.
\<close>

theorem jsonrpc_session_runs_client:
  assumes "srError (jsonrpcStart cfg ad behav o' opts events fs) = None"
    and "srSession (jsonrpcStart cfg ad behav o' opts events fs) = Some c"
    and "session_reach cfg' h (jsonrpc_started c) evs s"
  shows "\<exists>cevs. rpc_reach (notify_of s) (hook_of h s) cevs (rpc_view s) \<and>
     (\<forall>ev f. session_exec cfg' h ev s \<noteq> Some (Inl (ClientFault f)))"
proof -
  note i = started_inv[OF assms(1,2)]
  obtain cevs where c: "rpc_reach (notify_of s) (hook_of h s) cevs (rpc_view s)" using reach_client[OF assms(3) i] by blast
  have inv: "rpc_inv (rpc_view s)" by (rule rpc_reach_inv[OF c])
  have "session_exec cfg' h ev s \<noteq> Some (Inl (ClientFault f))" for ev f
  proof
    assume "session_exec cfg' h ev s = Some (Inl (ClientFault f))"
    then obtain e where "rpc_exec (notify_of s) (hook_of h s) e (rpc_view s) = Some (Inl f)"
      by (auto simp: session_exec_def client_section_def split: session_event.splits if_splits option.splits sum.splits)
    then show False using rpc_exec_inv[OF inv] by fastforce
  qed
  then show ?thesis using c by blast
qed

section \<open>Teardown\<close>

lemma wait_recorded:
  assumes "session_exec cfg h ev s = Some (Inr s')" "session_inv s"
  shows "jsonrpc_Wait (jsChild s') = jsonrpc_Wait (jsChild s) \<or>
     jsonrpc_Wait (jsChild s) = None \<and>
     ((\<exists>err. jsWaiter s = JwReading err \<and> jsChild s' = jsonrpc_legacy_done err (jsChild s)) \<or>
      (\<exists>x. jsWaiter s = JsFinish x \<and> jsChild s' = jsonrpc_supervised_done x (jsChild s)))"
proof -
  have ext: "jsonrpc_Wait c' = jsonrpc_Wait c" if "extends P c c'" for P c c'
    using that by (simp add: extends_def jsonrpc_Wait_def)
  have inp: "jsonrpc_Wait (c\<lparr>csInput := i\<rparr>) = jsonrpc_Wait c" for c i by (simp add: jsonrpc_Wait_def)
  note d = session_invD[OF assms(2)]
  show ?thesis
    using assms(1)
  proof (cases rule: session_exec_elim)
    case (line raw)
    show ?thesis using ext[OF reader_line_effect(1)[OF line(3)]] by simp
  next
    case exit
    then show ?thesis by (simp add: on_rpc_def)
  next
    case (client e r)
    then show ?thesis using ext[OF client_effect_extends[of s e]] by simp
  next
    case stop
    then show ?thesis using ext[OF stop_begin_effect(4)[OF stop(1)]] by (simp add: jsonrpc_Wait_def)
  next
    case other
    then show ?thesis using ext[OF other(1)] by simp
  next
    case waiter
    then show ?thesis
    proof (cases rule: waiter_section_elim)
      case (waited w t err)
      then show ?thesis using ext[OF waited_effect[of "jsChild s" cfg t err]] inp by simp
    next
      case (ended err)
      then show ?thesis using d(3) by (simp add: jsonrpc_Wait_def)
    next
      case (ended_supervised x)
      then show ?thesis using d(3) by (simp add: jsonrpc_Wait_def)
    next
      case (removed c)
      have "jsonrpc_Wait (jsonrpc_remove_boot_dir c) = jsonrpc_Wait c"
        by (simp add: jsonrpc_remove_boot_dir_def jsonrpc_Wait_def act_def)
      then show ?thesis using ext[OF removed(3)] removed(4) by simp
    next
      case (moved w c)
      then show ?thesis using ext[OF moved(2)] by simp
    next
      case (respawned n xe c)
      then show ?thesis using ext[OF respawned(3)] inp by simp
    qed
  qed
qed

definition unsupervised_answer :: "go_error option \<Rightarrow> int \<times> go_error option" where
  "unsupervised_answer err =
     (case err of None \<Rightarrow> (0, None)
      | Some e \<Rightarrow> (case as_exec_exit e of Some ps \<Rightarrow> (int32 (psExitCode ps), None) | None \<Rightarrow> (-1, Some e)))"

definition supervised_answer :: "exit_error option \<Rightarrow> int \<times> go_error option" where
  "supervised_answer x = (case x of None \<Rightarrow> (0, None) | Some xe \<Rightarrow> (int32 (xeCode xe), Some (AsExitError xe)))"

lemma wait_answers:
  assumes "\<not> csWaitOnce c"
  shows "jsonrpc_Wait (jsonrpc_legacy_done err c) = Some (unsupervised_answer err)"
    "jsonrpc_Wait (jsonrpc_supervised_done x c) = Some (supervised_answer x)"
  using assms
  by (simp_all add: jsonrpc_Wait_def jsonrpc_legacy_done_def jsonrpc_supervised_done_def unsupervised_answer_def
      supervised_answer_def Let_def act_def split: option.split)

text \<open>C25.
  The end of a session, for every interleaving and any number of restarts: the log is
  closed exactly when \<open>Wait\<close> can return, and nothing is logged after it; the boot
  directory is removed exactly once, and has been when the waiter is gone; a session
  whose \<open>Wait\<close> returns is dead, stopped, without stdin and without reader; the number
  of children spawned is between one and one more than the restarts allowed; and the
  answer of \<open>Wait\<close> is recorded once, from the error of the one child or the last exit
  of the loop, and never changes.
\<close>

theorem jsonrpc_session_teardown:
  assumes "srError (jsonrpcStart cfg ad behav o' opts events fs) = None"
    and "srSession (jsonrpcStart cfg ad behav o' opts events fs) = Some c"
    and "session_reach cfg' h (jsonrpc_started c) evs s"
  shows "(count_act ActCloseLog (csTrace (jsChild s)) = of_bool (jsonrpc_Wait (jsChild s) \<noteq> None) \<and>
      logs_before_close (csTrace (jsChild s)) \<and>
      count_act ActRemoveBootDir (csTrace (jsChild s)) = of_bool (jsWaiter s = JwReturned \<and> csBootDir c \<noteq> '''')) \<and>
     (jsonrpc_Wait (jsChild s) \<noteq> None \<longrightarrow> \<not> hsAlive (jsonrpc_Health (jsChild s)) \<and>
        hsState (jsonrpc_Health (jsChild s)) = LiveStateStopped \<and> \<not> csInput (jsChild s) \<and> \<not> rpReader (jsRpc s)) \<and>
     1 \<le> spawns (csTrace (jsChild s)) \<and> spawns (csTrace (jsChild s)) \<le> Suc (restart_bound c) \<and>
     (\<forall>ev s'. session_exec cfg' h ev s = Some (Inr s') \<longrightarrow> jsonrpc_Wait (jsChild s') \<noteq> jsonrpc_Wait (jsChild s) \<longrightarrow>
        jsonrpc_Wait (jsChild s) = None \<and>
        ((\<exists>err. jsWaiter s = JwReading err \<and> jsonrpc_Wait (jsChild s') = Some (unsupervised_answer err)) \<or>
         (\<exists>x. jsWaiter s = JsFinish x \<and> jsonrpc_Wait (jsChild s') = Some (supervised_answer x))))"
proof -
  note i = started_inv[OF assms(1,2)]
  have inv: "session_inv s" by (rule reach_inv[OF assms(3) i(1)])
  note d = session_invD[OF inv]
  have o: "csOpts (jsChild s) = csOpts c" "csBootDir (jsChild s) = csBootDir c"
    using reach_opts[OF assms(3) i(1)] by (simp_all add: jsonrpc_started_def)
  have b: "restart_bound (jsChild s) = restart_bound c" using o by (simp add: restart_bound_def)
  have w: "jsonrpc_Wait (jsChild s) \<noteq> None \<longleftrightarrow> csDone (jsChild s)" by (simp add: jsonrpc_Wait_def)
  have dead: "\<not> csInput (jsChild s) \<and> \<not> rpReader (jsRpc s)" if "csDone (jsChild s)"
    using d(1,2,3) that finished_parked[of "jsWaiter s"] by (auto simp: parked_def)
  have ans: "jsonrpc_Wait (jsChild s) = None \<and>
        ((\<exists>err. jsWaiter s = JwReading err \<and> jsonrpc_Wait (jsChild s') = Some (unsupervised_answer err)) \<or>
         (\<exists>x. jsWaiter s = JsFinish x \<and> jsonrpc_Wait (jsChild s') = Some (supervised_answer x)))"
    if "session_exec cfg' h ev s = Some (Inr s')" "jsonrpc_Wait (jsChild s') \<noteq> jsonrpc_Wait (jsChild s)" for ev s'
  proof -
    have r: "jsonrpc_Wait (jsChild s) = None \<and>
     ((\<exists>err. jsWaiter s = JwReading err \<and> jsChild s' = jsonrpc_legacy_done err (jsChild s)) \<or>
      (\<exists>x. jsWaiter s = JsFinish x \<and> jsChild s' = jsonrpc_supervised_done x (jsChild s)))"
      using wait_recorded[OF that(1) inv] that(2) by blast
    then have "\<not> csWaitOnce (jsChild s)" using w d(4) by simp
    then show ?thesis using r wait_answers by auto
  qed
  have logs: "count_act ActCloseLog (csTrace (jsChild s)) = of_bool (jsonrpc_Wait (jsChild s) \<noteq> None)"
    "count_act ActRemoveBootDir (csTrace (jsChild s)) = of_bool (jsWaiter s = JwReturned \<and> csBootDir c \<noteq> '''')"
    using d(6,7) w o by simp_all
  show ?thesis
    using logs d(5,8,12) b w dead ans by (simp add: jsonrpc_Health_def Let_def)
qed

section \<open>Stop and restarts\<close>

lemma stop_ends_step:
  assumes "session_exec cfg h ev s = Some (Inr s')" "session_inv s"
    and "csStopRequested (jsChild s)" "\<not> again (jsWaiter s)"
  shows "csStopRequested (jsChild s') \<and> \<not> again (jsWaiter s') \<and> spawns (csTrace (jsChild s')) = spawns (csTrace (jsChild s))"
proof -
  have ne: "quiet_act \<noteq> spawn_act" "reader_act \<noteq> spawn_act"
  proof -
    have "spawn_act (ActSpawn 0 undefined) \<noteq> quiet_act (ActSpawn 0 undefined)"
      "spawn_act (ActSpawn 0 undefined) \<noteq> reader_act (ActSpawn 0 undefined)" by simp_all
    then show "quiet_act \<noteq> spawn_act" "reader_act \<noteq> spawn_act" by metis+
  qed
  have ext: "csStopRequested c' = csStopRequested c \<and> spawns (csTrace c') = spawns (csTrace c)"
    if e: "extends P c c'" and P: "P = quiet_act \<or> P = reader_act" for P c c'
  proof -
    obtain t where t: "csTrace c' = csTrace c @ t" "\<forall>a \<in> set t. P a" using e by (auto simp: extends_def)
    have "spawns t = 0" using quiet_counts(3)[OF t(2)] P ne by auto
    then show ?thesis using t e by (simp add: extends_def)
  qed
  show ?thesis
    using assms(1)
  proof (cases rule: session_exec_elim)
    case (line raw)
    show ?thesis using ext[OF reader_line_effect(1)[OF line(3)]] reader_line_effect(2)[OF line(3)] assms(3,4) by simp
  next
    case exit
    then show ?thesis using assms(3,4) by (simp add: on_rpc_def)
  next
    case (client e r)
    then show ?thesis using ext[OF client_effect_extends[of s e]] assms(3,4) by simp
  next
    case stop
    then show ?thesis using session_invD(10)[OF assms(2)] assms(3) by simp
  next
    case other
    then show ?thesis using ext[OF other(1)] assms(3,4) by simp
  next
    case waiter
    then show ?thesis
    proof (cases rule: waiter_section_elim)
      case (waited w t err)
      have "\<not> again w" using waited(3) by (cases w) simp_all
      then show ?thesis using ext[OF waited_effect[of "jsChild s" cfg t err]] waited(1) assms(3) by simp
    next
      case (ended err)
      have "\<not> csWaitOnce (jsChild s)" using session_invD(3,4)[OF assms(2)] ended(1) by simp
      then have "closes (jsChild s) (jsChild s')" using closes_done ended(3) by simp
      then show ?thesis using ended(3) assms(3) by (simp add: closes_def)
    next
      case (ended_supervised x)
      have "\<not> csWaitOnce (jsChild s)" using session_invD(3,4)[OF assms(2)] ended_supervised(1) by simp
      then have "closes (jsChild s) (jsChild s')" using closes_done ended_supervised(2) by simp
      then show ?thesis using ended_supervised(2) assms(3) by (simp add: closes_def)
    next
      case (removed c)
      then show ?thesis using ext[OF removed(3)] assms(3) by (simp add: jsonrpc_remove_boot_dir_def act_def)
    next
      case (moved w c)
      then show ?thesis using ext[OF moved(2)] assms(3,4) by auto
    next
      case (respawned n xe c)
      then show ?thesis using assms(4) by simp
    qed
  qed
qed

text \<open>C26.
  \<open>Stop\<close> ends the restarts.  Once a stop is requested and the supervised loop is not
  already between its decision to restart and the spawn (in the backoff, or past it),
  no later section of any goroutine spawns a child, in any continuation.
\<close>

theorem jsonrpc_stop_ends_restarts:
  assumes "srError (jsonrpcStart cfg ad behav o' opts events fs) = None"
    and "srSession (jsonrpcStart cfg ad behav o' opts events fs) = Some c"
    and "session_reach cfg' h (jsonrpc_started c) evs s" "csStopRequested (jsChild s)" "\<not> again (jsWaiter s)"
    and "session_reach cfg' h s later s'"
  shows "spawns (csTrace (jsChild s')) = spawns (csTrace (jsChild s))"
proof -
  have i: "session_inv s" by (rule reach_inv[OF assms(3) started_inv(1)[OF assms(1,2)]])
  have "csStopRequested (jsChild s') \<and> \<not> again (jsWaiter s') \<and> spawns (csTrace (jsChild s')) = spawns (csTrace (jsChild s))"
    using assms(6)
  proof (induction rule: session_reach.induct)
    case (step evs u ev u')
    have "session_inv u" by (rule reach_inv[OF step.hyps(1) i])
    then show ?case using stop_ends_step[OF step.hyps(2)] step.IH by simp
  qed (use assms(4,5) in simp)
  then show ?thesis by blast
qed

text \<open>C28.
  \<open>Wait\<close> returns before the resources are released.  In every reachable state in which
  the waiter has recorded the result and not yet cleaned up, \<open>Wait\<close> returns, the boot
  directory is still there, and the section that releases it is still to come; the
  session contract of \<open>types.go\<close> says that once \<open>Wait\<close> returns the resources are
  released.
\<close>

theorem jsonrpc_wait_before_cleanup:
  assumes "srError (jsonrpcStart cfg ad behav o' opts events fs) = None"
    and "srSession (jsonrpcStart cfg ad behav o' opts events fs) = Some c"
    and "session_reach cfg' h (jsonrpc_started c) evs s" "jsWaiter s = JwCleanup \<or> jsWaiter s = JsRemove" "csBootDir c \<noteq> ''''"
  shows "jsonrpc_Wait (jsChild s) \<noteq> None \<and> ActRemoveBootDir \<notin> set (csTrace (jsChild s)) \<and>
     (\<exists>s'. session_exec cfg' h SnCleanup s = Some (Inr s') \<and> jsWaiter s' = JwReturned \<and>
        last (csTrace (jsChild s')) = ActRemoveBootDir)"
proof -
  note i = started_inv[OF assms(1,2)]
  have inv: "session_inv s" by (rule reach_inv[OF assms(3) i(1)])
  note d = session_invD[OF inv]
  have o: "csBootDir (jsChild s) = csBootDir c" using reach_opts[OF assms(3) i(1)] by (simp add: jsonrpc_started_def)
  have "finished (jsWaiter s)" "jsWaiter s \<noteq> JwReturned" using assms(4) by auto
  then have "jsonrpc_Wait (jsChild s) \<noteq> None" "ActRemoveBootDir \<notin> set (csTrace (jsChild s))"
    using d(3,7) by (auto simp: jsonrpc_Wait_def count_act_0[symmetric])
  moreover have "\<exists>s'. session_exec cfg' h SnCleanup s = Some (Inr s') \<and> jsWaiter s' = JwReturned \<and>
        last (csTrace (jsChild s')) = ActRemoveBootDir"
    using assms(4)
  proof
    assume "jsWaiter s = JwCleanup"
    then show ?thesis using o assms(5)
      by (simp add: session_exec_def waiter_section_def Let_def jsonrpc_remove_boot_dir_def jsonrpc_attempt_cleanup_def act_def acts_def)
  next
    assume "jsWaiter s = JsRemove"
    then show ?thesis using o assms(5)
      by (simp add: session_exec_def waiter_section_def Let_def jsonrpc_remove_boot_dir_def act_def)
  qed
  ultimately show ?thesis by blast
qed

section \<open>A concrete session\<close>

definition rpc_cfg :: child_config where
  "rpc_cfg = sample_cfg\<lparr>ccKind := JsonRpcChild\<rparr>"

definition rpc_start_oracle :: start_oracle where
  "rpc_start_oracle = \<lparr>soFs = sample_io, soCreateLog = None, soSpawn = aoSpawn crash_oracle, soCtxDone = False,
     soBootWrite = None, soFirstTurn = None,
     soStop = \<lparr>stDoneInEofGrace = True, stTermErr = None, stDoneInGrace = True, stKillErr = None\<rparr>\<rparr>"

definition rpc_options :: "supervisor_options option \<Rightarrow> start_options" where
  "rpc_options so = plant_options\<lparr>optLogPath := ''/l'', optSupervisor := so\<rparr>"

definition rpc_demo :: "supervisor_options option \<Rightarrow> start_result" where
  "rpc_demo so = jsonrpcStart rpc_cfg (sample_adapter fine_render) (\<lambda>a. sample_child_adapter) rpc_start_oracle
     (rpc_options so) None empty_fs"

lemma planted_options_keep:
  "optLogPath (planted_options opts spec d env arg) = optLogPath opts"
  "optSupervisor (planted_options opts spec d env arg) = optSupervisor opts"
  "optAutoFireFirstTurn (planted_options opts spec d env arg) = optAutoFireFirstTurn opts"
  "optProfileID (planted_options opts spec d env arg) = optProfileID opts"
  "optBootMode (planted_options opts spec d env arg) = optBootMode opts"
  by (simp_all add: planted_options_def Let_def)

lemma rpc_options_sel:
  "optLogPath (rpc_options so) = ''/l''" "optSupervisor (rpc_options so) = so" "\<not> optAutoFireFirstTurn (rpc_options so)"
  "optProfileID (rpc_options so) = ''''" "optBootMode (rpc_options so) = ''''" "optAutoPlantBootDir (rpc_options so)"
  "optBootDirRoot (rpc_options so) = ''''" "optWorkspaceDir (rpc_options so) = ''''" "optWorkdir (rpc_options so) = ''/w''"
  by (simp_all add: rpc_options_def plant_options_def)

lemma rpc_demo_starts:
  "\<exists>c. srError (rpc_demo so) = None \<and> srSession (rpc_demo so) = Some c \<and> csBootDir c \<noteq> '''' \<and>
     optSupervisor (csOpts c) = so \<and> csInput c \<and> csAlive c \<and> \<not> csStopOnce c"
proof -
  obtain pr fs1 where p: "preparePlant sample_io (rpc_options so) (sample_adapter fine_render) ''r'' empty_fs = (pr, fs1)"
    by (rule prod.exhaust)
  have pr: "prError pr = None \<and> prBootDir pr \<noteq> '''' \<and> optLogPath (prOptions pr) = ''/l'' \<and> optSupervisor (prOptions pr) = so \<and>
     \<not> optAutoFireFirstTurn (prOptions pr) \<and> optProfileID (prOptions pr) = '''' \<and> optBootMode (prOptions pr) = ''''"
    using p boot_pattern_no_separator[of "''r''"]
    by (auto simp: sample_plant_defs rpc_options_sel planted_options_keep fine_render_def has_suffix_def split: prod.splits)
  have l: "jsonrpc_LogPath sample_io (prOptions pr) fs1 = (Inr ''/l'', fs1)" using pr by (simp add: jsonrpc_LogPath_def)
  show ?thesis
    using p pr l
    by (simp add: rpc_demo_def jsonrpcStart_def rpc_options_sel rpc_start_oracle_def rpc_cfg_def sample_cfg_def
        jsonrpc_spawnAttempt_def sample_child_adapter_def crash_oracle_def new_child_def Let_def)
qed

text \<open>The child exits, the reader sees the end, the waiter records the result.\<close>

definition rpc_demo_end :: "session_event list" where
  "rpc_demo_end = [SnReaderExit, SnWaited 0 None None '''', SnReaderDone]"

definition no_request :: "string \<Rightarrow> json option \<Rightarrow> (go_error + json) \<times> jsonrpc_error option" where
  "no_request m p = (Inr JNull, None)"

lemma rpc_demo_end_run:
  assumes "optSupervisor (csOpts c) = None"
  shows "\<exists>s. session_run rpc_cfg no_request rpc_demo_end (jsonrpc_started c) = Some (Inr s) \<and> jsWaiter s = JwCleanup"
  using assms
  by (simp add: rpc_demo_end_def session_exec_def waiter_section_def jsonrpc_started_def on_rpc_def reader_exit_def
      rpc_view_def Let_def new_rpc_def fail_take_def)

lemma rpc_demo_reach:
  obtains c s where "srError (rpc_demo None) = None" "srSession (rpc_demo None) = Some c" "csBootDir c \<noteq> ''''"
    "session_run rpc_cfg no_request rpc_demo_end (jsonrpc_started c) = Some (Inr s)"
    "session_reach rpc_cfg no_request (jsonrpc_started c) rpc_demo_end s" "jsWaiter s = JwCleanup"
proof -
  obtain c where c: "srError (rpc_demo None) = None" "srSession (rpc_demo None) = Some c" "csBootDir c \<noteq> ''''"
    "optSupervisor (csOpts c) = None"
    using rpc_demo_starts[of None] by blast
  obtain s where s: "session_run rpc_cfg no_request rpc_demo_end (jsonrpc_started c) = Some (Inr s)" "jsWaiter s = JwCleanup"
    using rpc_demo_end_run[OF c(4)] by blast
  have "session_reach rpc_cfg no_request (jsonrpc_started c) rpc_demo_end s"
    using run_reach[OF s(1) session_reach.init] by simp
  then show ?thesis using that c s by blast
qed

theorem jsonrpc_session_runs_client_witness:
  "\<exists>c s cevs. srSession (rpc_demo None) = Some c \<and>
     session_run rpc_cfg no_request rpc_demo_end (jsonrpc_started c) = Some (Inr s) \<and>
     rpc_reach (notify_of s) (hook_of no_request s) cevs (rpc_view s)"
proof -
  obtain c s where r: "srError (rpc_demo None) = None" "srSession (rpc_demo None) = Some c"
    "session_run rpc_cfg no_request rpc_demo_end (jsonrpc_started c) = Some (Inr s)"
    "session_reach rpc_cfg no_request (jsonrpc_started c) rpc_demo_end s"
    by (rule rpc_demo_reach)
  show ?thesis using jsonrpc_session_runs_client[OF r(1,2)[unfolded rpc_demo_def] r(4)] r(2,3) by blast
qed

theorem jsonrpc_session_teardown_witness:
  "\<exists>c s. srSession (rpc_demo None) = Some c \<and>
     session_run rpc_cfg no_request rpc_demo_end (jsonrpc_started c) = Some (Inr s) \<and>
     count_act ActCloseLog (csTrace (jsChild s)) = of_bool (jsonrpc_Wait (jsChild s) \<noteq> None)"
proof -
  obtain c s where r: "srError (rpc_demo None) = None" "srSession (rpc_demo None) = Some c"
    "session_run rpc_cfg no_request rpc_demo_end (jsonrpc_started c) = Some (Inr s)"
    "session_reach rpc_cfg no_request (jsonrpc_started c) rpc_demo_end s"
    by (rule rpc_demo_reach)
  show ?thesis using jsonrpc_session_teardown[OF r(1,2)[unfolded rpc_demo_def] r(4)] r(2,3) by blast
qed

theorem jsonrpc_wait_before_cleanup_witness:
  "\<exists>c s. srSession (rpc_demo None) = Some c \<and>
     session_run rpc_cfg no_request rpc_demo_end (jsonrpc_started c) = Some (Inr s) \<and>
     jsonrpc_Wait (jsChild s) \<noteq> None \<and> ActRemoveBootDir \<notin> set (csTrace (jsChild s))"
proof -
  obtain c s where r: "srError (rpc_demo None) = None" "srSession (rpc_demo None) = Some c" "csBootDir c \<noteq> ''''"
    "session_run rpc_cfg no_request rpc_demo_end (jsonrpc_started c) = Some (Inr s)"
    "session_reach rpc_cfg no_request (jsonrpc_started c) rpc_demo_end s" "jsWaiter s = JwCleanup"
    by (rule rpc_demo_reach)
  show ?thesis
    using jsonrpc_wait_before_cleanup[OF r(1,2)[unfolded rpc_demo_def] r(5) disjI1[OF r(6)] r(3)] r(2,4) by blast
qed

text \<open>A supervised session that is stopped while its child runs.\<close>

theorem jsonrpc_stop_ends_restarts_witness:
  "\<exists>c s s'. srSession (rpc_demo (Some (sample_sup 2))) = Some c \<and>
     session_run rpc_cfg no_request [SnStop] (jsonrpc_started c) = Some (Inr s) \<and>
     session_run rpc_cfg no_request [SnReaderExit] s = Some (Inr s') \<and>
     spawns (csTrace (jsChild s')) = spawns (csTrace (jsChild s))"
proof -
  obtain c where c: "srError (rpc_demo (Some (sample_sup 2))) = None" "srSession (rpc_demo (Some (sample_sup 2))) = Some c"
    "optSupervisor (csOpts c) = Some (sample_sup 2)" "\<not> csStopOnce c"
    using rpc_demo_starts[of "Some (sample_sup 2)"] by blast
  let ?s = "jsonrpc_stop_begin (jsonrpc_started c)"
  have j: "jsStop (jsonrpc_started c) = StopIdle" "\<not> csStopOnce (jsChild (jsonrpc_started c))"
    using c(4) by (simp_all add: jsonrpc_started_def)
  have s: "session_run rpc_cfg no_request [SnStop] (jsonrpc_started c) = Some (Inr ?s)"
    using j by (simp add: session_exec_def stop_section_def)
  note e = stop_begin_effect[OF j(2)]
  have r: "session_run rpc_cfg no_request [SnReaderExit] ?s = Some (Inr (on_rpc reader_exit ?s))"
    using e(3) by (simp add: session_exec_def jsonrpc_started_def new_rpc_def)
  have q: "csStopRequested (jsChild ?s)" using e(4) by (simp add: extends_def)
  have a: "\<not> again (jsWaiter ?s)" using e(2) by (simp add: jsonrpc_started_def)
  have r1: "session_reach rpc_cfg no_request (jsonrpc_started c) [SnStop] ?s"
    using run_reach[OF s session_reach.init] by simp
  have r2: "session_reach rpc_cfg no_request ?s [SnReaderExit] (on_rpc reader_exit ?s)"
    using run_reach[OF r session_reach.init] by simp
  show ?thesis
    using jsonrpc_stop_ends_restarts[OF c(1,2)[unfolded rpc_demo_def] r1 q a r2] c(2) s r by blast
qed

section \<open>The functions shared with the streaming runtime\<close>

text \<open>What the file copies from the streaming one is the same function.\<close>

lemma jsonrpc_copies:
  "jsonrpc_Prepare = streaming_Prepare" "jsonrpc_tickActivity = streaming_tickActivity"
  "jsonrpc_spawn_cmd = streaming_spawn_cmd"
  "jsonrpc_superviseInterval = streaming_superviseInterval" "jsonrpc_superviseIdle_tick = streaming_superviseIdle_tick"
  "jsonrpc_superviseWatchdog_tick = streaming_superviseWatchdog_tick" "jsonrpc_Wait = streaming_Wait"
  "jsonrpc_Resize = streaming_Resize" "jsonrpc_Health = streaming_Health" "jsonrpc_CheckpointHints = streaming_CheckpointHints"
  "jsonrpc_LivePID = streaming_LivePID" "jsonrpc_LastPID = streaming_LastPID"
  "jsonrpc_ProviderSessionID = streaming_ProviderSessionID"
  unfolding fun_eq_iff jsonrpc_Prepare_def streaming_Prepare_def jsonrpc_tickActivity_def streaming_tickActivity_def
      jsonrpc_spawn_cmd_def streaming_spawn_cmd_def jsonrpc_superviseInterval_def streaming_superviseInterval_def
      jsonrpc_Wait_def streaming_Wait_def jsonrpc_Resize_def streaming_Resize_def jsonrpc_Health_def streaming_Health_def
      jsonrpc_CheckpointHints_def streaming_CheckpointHints_def jsonrpc_LivePID_def streaming_LivePID_def
      jsonrpc_LastPID_def streaming_LastPID_def jsonrpc_ProviderSessionID_def streaming_ProviderSessionID_def
      jsonrpc_superviseIdle_tick_def streaming_superviseIdle_tick_def
      jsonrpc_superviseWatchdog_tick_def streaming_superviseWatchdog_tick_def by simp_all

lemma jsonrpc_spawn_copy: "jsonrpc_spawnAttempt cfg o' n c = streaming_spawnAttempt cfg o' n c"
  unfolding jsonrpc_spawnAttempt_def streaming_spawnAttempt_def jsonrpc_copies by (rule refl)

lemma jsonrpc_send_copy: "jsonrpc_SendInput w d c = streaming_SendInput w d c"
  unfolding jsonrpc_SendInput_def streaming_SendInput_def jsonrpc_copies by (rule refl)

lemma jsonrpc_done_copy: "jsonrpc_legacy_done err c = streaming_legacy_done err c"
  unfolding jsonrpc_legacy_done_def streaming_legacy_done_def by (rule refl)

lemma jsonrpc_waiter_eq:
  assumes "ccKind cfg = JsonRpcChild"
  shows "jsonrpc_remove_boot_dir (jsonrpc_attempt_cleanup (jsonrpc_legacy_done err (jsonrpc_waited cfg t err c))) =
     spawnWaiterLegacy cfg t err c"
  unfolding jsonrpc_done_copy legacy_done_eq spawnWaiterLegacy_def jsonrpc_waited_def jsonrpc_attempt_cleanup_def
    jsonrpc_remove_boot_dir_def assms kind_text.simps clear_input_def close_io.simps remove_boot_dir_def spawn_cleanup_def Let_def
  by (cases "legacy_result err") (simp only: prod.case)

lemma jsonrpc_finish_eq: "jsonrpc_remove_boot_dir (jsonrpc_supervised_done x c) = finish_supervised x c"
  by (simp add: jsonrpc_remove_boot_dir_def jsonrpc_supervised_done_def finish_supervised_def finish_def remove_boot_dir_def
      Let_def split: option.split)

lemma jsonrpc_stop_eq:
  assumes "ccKind cfg = JsonRpcChild"
  shows "fst (jsonrpcStop q s) = fst (childStop cfg q (jsChild s)) \<and> jsChild (snd (jsonrpcStop q s)) = snd (childStop cfg q (jsChild s))"
  using assms
  by (cases "csStopOnce (jsChild s)"; cases "csCmd (jsChild s)"; cases "stTermErr q")
    (simp_all add: jsonrpcStop_def childStop_def stop_kill_def stop_begin_def jsonrpc_stop_begin_def on_rpc_def on_child_def Let_def)

text \<open>The child half of a line is the shared reader, up to the answer it writes to the child.\<close>

lemma jsonrpc_line_child:
  assumes "ccKind cfg = JsonRpcChild" "jsonrpc_reader_line cfg h raw s = Some s'"
  shows "\<exists>c. reader_line cfg (\<lambda>l. decode_frame l \<noteq> None) raw (jsChild s) = Some c \<and> extends quiet_act c (jsChild s')"
proof -
  have t: "jsonrpc_tickActivity c = tickActivity c" for c unfolding jsonrpc_copies by (rule streaming_tick_eq)
  show ?thesis
  proof (cases "decode_frame raw")
    case None
    then show ?thesis using assms t by (auto simp: jsonrpc_reader_line_def reader_line_def Let_def ext)
  next
    case (Some fr)
    let ?c1 = "sink_write (raw @ [newline]) (tickActivity (jsChild s))"
    obtain c2 where c2: "(case caParseLine (ccAdapter cfg) raw of None \<Rightarrow> Some ?c1 | Some evs \<Rightarrow> handle_events evs ?c1) = Some c2"
      "s' = jsonrpc_route h fr (s\<lparr>jsChild := typed_events cfg raw c2\<rparr>)"
      using assms(2) Some t by (auto simp: jsonrpc_reader_line_def Let_def split: option.splits)
    have "reader_line cfg (\<lambda>l. decode_frame l \<noteq> None) raw (jsChild s) = Some (typed_events cfg raw c2)"
      using Some c2(1) by (simp add: reader_line_def Let_def)
    then show ?thesis using route_effect[of "s\<lparr>jsChild := typed_events cfg raw c2\<rparr>" h fr] c2(2) by simp
  qed
qed



end
