(* ===== verification/Compliance.thy ===== *)
theory Compliance imports Session_Types Go_Errors begin

text \<open>
  The contract of a session, as \<open>compliance/compliance.go\<close> checks it: the suite every
  runtime of a consumer has to pass, translated over the operations it calls.  A
  runtime is the record \<open>session_api\<close>; what runs in other goroutines while the suite
  waits is \<open>apSettle\<close>.  None of \<open>apStop\<close> and \<open>apSend\<close> is a call that does not return.
  A subtest is a conjunct, one that is skipped passes; calls whose results the suite
  discards at the end of a subtest (the deferred \<open>Stop\<close>, an input to a terminal, \<open>CheckpointHints\<close>,
  a resize to zero) leave no trace in its outcome.
\<close>

record 's session_api =
  apInfo :: runtime_info
  apPrepare :: "go_error option"
  apStart :: "start_options \<Rightarrow> go_error + 's"
  apHealth :: "'s \<Rightarrow> health_status"
  apStop :: "'s \<Rightarrow> (go_error option \<times> 's) option"
  apWait :: "'s \<Rightarrow> (int \<times> go_error option) option"
  apSend :: "bytes \<Rightarrow> 's \<Rightarrow> (go_error option \<times> 's) option"
  apResize :: "'s \<Rightarrow> go_error option"
  apSessionID :: "('s \<Rightarrow> string) option"
  apEventTypes :: "'s \<Rightarrow> string list"
  apSettle :: "'s \<Rightarrow> 's"

text \<open>The channel the suite gives as \<open>EventFanout\<close>.\<close>

definition suite_events :: "start_options \<Rightarrow> 'e chan option" where
  "suite_events opts = (if optEventFanout opts then Some (new_chan 8) else None)"

section \<open>The checks\<close>

text \<open>\<open>mustStart\<close> fails the check when \<open>Start\<close> does; \<open>must_stop\<close> when \<open>Stop\<close> does.\<close>

definition mustStart :: "'s session_api \<Rightarrow> start_options \<Rightarrow> ('s \<Rightarrow> bool) \<Rightarrow> bool" where
  "mustStart api opts body = (case apStart api opts of Inl e \<Rightarrow> False | Inr s \<Rightarrow> body s)"

definition must_stop :: "'s session_api \<Rightarrow> 's \<Rightarrow> ('s \<Rightarrow> bool) \<Rightarrow> bool" where
  "must_stop api s body = (case apStop api s of Some (None, s') \<Rightarrow> body s' | _ \<Rightarrow> False)"

definition check_names :: "'s session_api \<Rightarrow> bool" where
  "check_names api \<longleftrightarrow> rtKind (apInfo api) \<noteq> '''' \<and> rtID (apInfo api) \<noteq> ''''"

definition check_alive :: "'s session_api \<Rightarrow> start_options \<Rightarrow> bool" where
  "check_alive api opts = mustStart api opts (\<lambda>s. hsAlive (apHealth api s))"

definition check_dead :: "'s session_api \<Rightarrow> start_options \<Rightarrow> bool" where
  "check_dead api opts = mustStart api opts (\<lambda>s. must_stop api s (\<lambda>t. \<not> hsAlive (apHealth api t)))"

definition check_stopped :: "'s session_api \<Rightarrow> start_options \<Rightarrow> bool" where
  "check_stopped api opts =
     mustStart api opts (\<lambda>s. must_stop api s (\<lambda>t. hsState (apHealth api t) = LiveStateStopped))"

text \<open>A \<open>Wait\<close> that returns before \<open>Stop\<close> skips the check.\<close>

definition check_unblocks :: "'s session_api \<Rightarrow> start_options \<Rightarrow> bool" where
  "check_unblocks api opts =
     mustStart api opts (\<lambda>s.
       if apWait api s \<noteq> None then True
       else must_stop api s (\<lambda>t. apWait api (apSettle api t) \<noteq> None))"

definition check_idempotent :: "'s session_api \<Rightarrow> start_options \<Rightarrow> bool" where
  "check_idempotent api opts =
     mustStart api opts (\<lambda>s. must_stop api s (\<lambda>t. must_stop api t (\<lambda>u. True)))"

text \<open>\<open>errors.Is(err, t)\<close> for a sentinel \<open>t\<close>: somewhere on the wrap chain.\<close>

fun errors_Is :: "go_error \<Rightarrow> go_error \<Rightarrow> bool"
  and errors_Is_x :: "exit_error \<Rightarrow> go_error \<Rightarrow> bool" where
  "errors_Is (Wrapped p e) t \<longleftrightarrow> Wrapped p e = t \<or> errors_Is e t"
| "errors_Is (AsExitError xe) t \<longleftrightarrow> AsExitError xe = t \<or> errors_Is_x xe t"
| "errors_Is e t \<longleftrightarrow> e = t"
| "errors_Is_x (ExitError c s k ps cause None) t \<longleftrightarrow> False"
| "errors_Is_x (ExitError c s k ps cause (Some e)) t \<longleftrightarrow> errors_Is e t"

definition check_too_late :: "'s session_api \<Rightarrow> start_options \<Rightarrow> bool" where
  "check_too_late api opts =
     mustStart api opts (\<lambda>s. must_stop api s (\<lambda>t.
       case apSend api ''too late'' t of Some (Some e, u) \<Rightarrow> errors_Is e ErrNoInputChannel | _ \<Rightarrow> False))"

definition check_resize :: "'s session_api \<Rightarrow> start_options \<Rightarrow> bool" where
  "check_resize api opts = mustStart api opts (\<lambda>s. apResize api s = None)"

definition check_started :: "'s session_api \<Rightarrow> start_options \<Rightarrow> bool" where
  "check_started api opts = mustStart api opts (\<lambda>s. True)"

text \<open>The first event within two seconds of an input has a type.\<close>

definition check_events :: "'s session_api \<Rightarrow> start_options \<Rightarrow> bool \<Rightarrow> bool \<Rightarrow> bool" where
  "check_events api opts binarySkip skipEventFanout \<longleftrightarrow>
     skipEventFanout \<or> binarySkip \<or>
     mustStart api (opts\<lparr>optEventFanout := True\<rparr>) (\<lambda>s.
       case apSend api ''compliance event fanout'' s of
         Some (None, t) \<Rightarrow> (case apEventTypes api (apSettle api t) of [] \<Rightarrow> False | ty # tys \<Rightarrow> ty \<noteq> '''')
       | _ \<Rightarrow> False)"

definition runBaseline :: "'s session_api \<Rightarrow> start_options \<Rightarrow> bool \<Rightarrow> bool \<Rightarrow> bool" where
  "runBaseline api opts binarySkip skipEventFanout \<longleftrightarrow>
     check_names api \<and> check_alive api opts \<and> check_dead api opts \<and> check_stopped api opts \<and>
     check_unblocks api opts \<and> check_idempotent api opts \<and> check_too_late api opts \<and>
     check_resize api opts \<and> check_started api opts \<and> check_events api opts binarySkip skipEventFanout"

definition runCapsPTY :: "'s session_api \<Rightarrow> start_options \<Rightarrow> bool \<Rightarrow> bool" where
  "runCapsPTY api opts binarySkip \<longleftrightarrow> binarySkip \<or> check_started api (opts\<lparr>optFanout := Some (WCaller 0)\<rparr>)"

definition runCapsResize :: "'s session_api \<Rightarrow> start_options \<Rightarrow> bool \<Rightarrow> bool" where
  "runCapsResize api opts binarySkip \<longleftrightarrow> binarySkip \<or> check_resize api opts \<and> check_started api opts"

definition presetID :: string where "presetID = ''ses_compliance_preset''"

definition runCapsProviderSessionID :: "'s session_api \<Rightarrow> start_options \<Rightarrow> bool \<Rightarrow> bool" where
  "runCapsProviderSessionID api opts binarySkip \<longleftrightarrow>
     binarySkip \<or>
     mustStart api opts (\<lambda>s. apSessionID api \<noteq> None) \<and>
     mustStart api (opts\<lparr>optSessionIDPreset := presetID\<rparr>) (\<lambda>s.
       case apSessionID api of None \<Rightarrow> True | Some f \<Rightarrow> f s = presetID)"

definition runCapsCheckpointResume :: "'s session_api \<Rightarrow> start_options \<Rightarrow> bool \<Rightarrow> bool" where
  "runCapsCheckpointResume api opts binarySkip \<longleftrightarrow> binarySkip \<or> check_started api opts"

definition runCapsNoBinary :: "'s session_api \<Rightarrow> bool" where
  "runCapsNoBinary api \<longleftrightarrow> apPrepare api = None"

text \<open>
  What a consumer gives to \<open>Run\<close>.  Without \<open>NewStartOptions\<close> every session starts in
  a temporary directory with the other options zero.
\<close>

record 's harness =
  hRuntime :: "'s session_api option"
  hNewStartOptions :: "start_options option"
  hBinarySkip :: bool
  hSkipEventFanout :: bool

definition zero_options :: "string \<Rightarrow> start_options" where
  "zero_options workdir = \<lparr>optWorkdir = workdir, optWorkspaceDir = '''', optLogPath = '''', optBootPrompt = '''',
     optBootContent = '''', optPlantContext = \<lparr>pcSystemPrompt = '''', pcBootContent = '''',
       pcProjectDir = '''', pcBootDir = '''', pcCaller = []\<rparr>,
     optBootMode = '''', optEnv = [], optStderr = False, optExtraFiles = [], optProfileID = '''',
     optFanout = None, optEventFanout = False, optSessionIDPreset = '''', optOnSessionID = False,
     optAttachEnabled = False, optRingBytes = 0, optSubscriberDepth = 0, optAutoFireFirstTurn = False,
     optFirstTurnPayload = '''', optTypedEventCallback = False, optSupervisor = None,
     optJsonRpcNotificationHook = False, optJsonRpcRequestHook = False, optAutoPlantBootDir = False,
     optBootDirRoot = '''', optOnBootDirPlanted = False, optExtraArgs = [], optResourceLimits = None\<rparr>"

definition start_opts :: "string \<Rightarrow> 's harness \<Rightarrow> start_options" where
  "start_opts tempdir h = (case hNewStartOptions h of None \<Rightarrow> zero_options tempdir | Some o' \<Rightarrow> o')"

definition compliance_Run :: "string \<Rightarrow> 's harness \<Rightarrow> bool" where
  "compliance_Run tempdir h =
     (case hRuntime h of
        None \<Rightarrow> False
      | Some api \<Rightarrow>
          let caps = rtCaps (apInfo api); opts = start_opts tempdir h; binarySkip = hBinarySkip h in
          runBaseline api opts binarySkip (hSkipEventFanout h) \<and>
          (PTY caps \<longrightarrow> runCapsPTY api opts binarySkip) \<and>
          (CapResize caps \<longrightarrow> runCapsResize api opts binarySkip) \<and>
          (ProviderSessionID caps \<longrightarrow> runCapsProviderSessionID api opts binarySkip) \<and>
          (\<not> BinaryRequired caps \<longrightarrow> runCapsNoBinary api) \<and>
          (CheckpointResume caps \<longrightarrow> runCapsCheckpointResume api opts binarySkip))"

section \<open>The contract\<close>

text \<open>
  What a runtime promises about the sessions it starts; \<open>live\<close> are the sessions that
  were started and not yet stopped.  Whoever keeps it passes the suite on all options
  that its \<open>Start\<close> accepts.
\<close>

definition starts :: "'s session_api \<Rightarrow> start_options \<Rightarrow> bool" where
  "starts api opts \<longleftrightarrow> (\<exists>s. apStart api opts = Inr s)"

text \<open>The options the suite uses are accepted, and fire no turn on their own.\<close>

definition suite_starts :: "'s session_api \<Rightarrow> start_options \<Rightarrow> bool" where
  "suite_starts api opts \<longleftrightarrow> \<not> optAutoFireFirstTurn opts \<and> starts api opts \<and>
     starts api (opts\<lparr>optFanout := Some (WCaller 0)\<rparr>) \<and> starts api (opts\<lparr>optSessionIDPreset := presetID\<rparr>)"

locale session_contract =
  fixes api :: "'s session_api" and live :: "'s \<Rightarrow> bool"
  assumes no_binary: "\<not> BinaryRequired (rtCaps (apInfo api)) \<Longrightarrow> apPrepare api = None"
    and start_live: "apStart api opts = Inr s \<Longrightarrow> \<not> optAutoFireFirstTurn opts \<Longrightarrow> live s"
    and live_alive: "live s \<Longrightarrow> hsAlive (apHealth api s)"
    and live_resize: "live s \<Longrightarrow> apResize api s = None"
    and stop_ends: "live s \<Longrightarrow> \<exists>t. apStop api s = Some (None, t) \<and> \<not> hsAlive (apHealth api t) \<and>
       hsState (apHealth api t) = LiveStateStopped"
    and stop_waits: "live s \<Longrightarrow> apStop api s = Some (None, t) \<Longrightarrow> apWait api (apSettle api t) \<noteq> None"
    and stop_again: "live s \<Longrightarrow> apStop api s = Some (None, t) \<Longrightarrow> \<exists>u. apStop api t = Some (None, u)"
    and stop_refuses: "live s \<Longrightarrow> apStop api s = Some (None, t) \<Longrightarrow>
       \<exists>u. apSend api d t = Some (Some ErrNoInputChannel, u)"
    and preset_kept: "apStart api opts = Inr s \<Longrightarrow> \<not> optAutoFireFirstTurn opts \<Longrightarrow> apSessionID api = Some f \<Longrightarrow>
       optSessionIDPreset opts \<noteq> '''' \<Longrightarrow> f s = optSessionIDPreset opts"
begin

lemma stop_check:
  assumes "live s" "\<And>t. apStop api s = Some (None, t) \<Longrightarrow> P t"
  shows "must_stop api s P"
proof -
  obtain t where "apStop api s = Some (None, t)" using stop_ends[OF assms(1)] by blast
  then show ?thesis using assms(2) by (simp add: must_stop_def)
qed

lemma start_check:
  assumes "starts api opts" "\<not> optAutoFireFirstTurn opts" "\<And>s. apStart api opts = Inr s \<Longrightarrow> live s \<Longrightarrow> P s"
  shows "mustStart api opts P"
  using assms start_live by (auto simp: starts_def mustStart_def)

lemma baseline:
  assumes "starts api opts" "\<not> optAutoFireFirstTurn opts" "binarySkip \<or> skipEventFanout" and named: "check_names api"
  shows "runBaseline api opts binarySkip skipEventFanout"
proof -
  note st = start_check[OF assms(1,2)]
  have "check_alive api opts" unfolding check_alive_def by (rule st) (rule live_alive)
  moreover have "check_dead api opts"
    unfolding check_dead_def by (intro st stop_check) (use stop_ends in force)+
  moreover have "check_stopped api opts"
    unfolding check_stopped_def by (intro st stop_check) (use stop_ends in force)+
  moreover have "check_unblocks api opts"
    unfolding check_unblocks_def by (intro st) (auto intro!: stop_check dest: stop_waits)
  moreover have "check_idempotent api opts"
    unfolding check_idempotent_def
  proof (rule st)
    fix s
    assume l: "live s"
    have "must_stop api t (\<lambda>u. True)" if "apStop api s = Some (None, t)" for t
      using stop_again[OF l that] by (auto simp: must_stop_def)
    then show "must_stop api s (\<lambda>t. must_stop api t (\<lambda>u. True))" by (rule stop_check[OF l])
  qed
  moreover have "check_too_late api opts"
    unfolding check_too_late_def
  proof (rule st)
    fix s
    assume l: "live s"
    let ?P = "\<lambda>t. case apSend api ''too late'' t of Some (Some e, u) \<Rightarrow> errors_Is e ErrNoInputChannel | _ \<Rightarrow> False"
    have "?P t" if "apStop api s = Some (None, t)" for t using stop_refuses[OF l that, of "''too late''"] by auto
    then show "must_stop api s ?P" by (rule stop_check[OF l])
  qed
  moreover have "check_resize api opts" unfolding check_resize_def by (rule st) (rule live_resize)
  moreover have "check_started api opts" unfolding check_started_def by (rule st) simp
  ultimately show ?thesis using named assms(3) by (auto simp: runBaseline_def check_events_def)
qed

lemma complies:
  assumes rt: "hRuntime h = Some api" and suite: "suite_starts api (start_opts tempdir h)"
    and skip: "hBinarySkip h \<or> hSkipEventFanout h" and named: "check_names api"
    and ids: "ProviderSessionID (rtCaps (apInfo api)) \<Longrightarrow> \<not> hBinarySkip h \<Longrightarrow> apSessionID api \<noteq> None"
  shows "compliance_Run tempdir h"
proof -
  let ?opts = "start_opts tempdir h" and ?skip = "hBinarySkip h"
  have s: "starts api ?opts" "starts api (?opts\<lparr>optFanout := Some (WCaller 0)\<rparr>)"
    "starts api (?opts\<lparr>optSessionIDPreset := presetID\<rparr>)" "\<not> optAutoFireFirstTurn ?opts"
    using suite by (simp_all add: suite_starts_def)
  have st: "check_started api o'" if "starts api o'" "\<not> optAutoFireFirstTurn o'" for o'
    unfolding check_started_def by (rule start_check[OF that]) simp
  have rs: "check_resize api ?opts"
    unfolding check_resize_def by (rule start_check[OF s(1,4)]) (rule live_resize)
  have id: "runCapsProviderSessionID api ?opts ?skip" if p: "ProviderSessionID (rtCaps (apInfo api))"
  proof (cases ?skip)
    case True
    then show ?thesis by (simp add: runCapsProviderSessionID_def)
  next
    case False
    let ?o = "?opts\<lparr>optSessionIDPreset := presetID\<rparr>"
    have "mustStart api ?opts (\<lambda>s. apSessionID api \<noteq> None)"
      by (rule start_check[OF s(1,4)]) (use ids[OF p False] in blast)
    moreover have "mustStart api ?o (\<lambda>s. case apSessionID api of None \<Rightarrow> True | Some f \<Rightarrow> f s = presetID)"
    proof (rule start_check[OF s(3)])
      show "\<not> optAutoFireFirstTurn ?o" using s(4) by simp
      fix s
      assume "apStart api ?o = Inr s"
      then have "f s = optSessionIDPreset ?o" if "apSessionID api = Some f" for f
        using preset_kept[of ?o s f] s(4) that by (simp add: presetID_def)
      then show "case apSessionID api of None \<Rightarrow> True | Some f \<Rightarrow> f s = presetID" by (simp split: option.split)
    qed
    ultimately show ?thesis by (simp add: runCapsProviderSessionID_def)
  qed
  show ?thesis
    unfolding compliance_Run_def rt option.case Let_def runCapsPTY_def runCapsResize_def runCapsCheckpointResume_def
      runCapsNoBinary_def
    using baseline[OF s(1,4) skip named] st[OF s(1,4)] st[OF s(2)] s(4) rs id no_binary by simp
qed

end

end
