(* ===== verification/Compliance_Runtimes.thy ===== *)
theory Compliance_Runtimes imports Compliance Jsonrpc_Session_Props begin

text \<open>
  The runtimes of one long-lived child keep the session contract: pty, streaming stdio
  and JSON-RPC sessions.  A runtime here is its functions in an environment where a child
  that was told to stop exits within the time the suite gives it, and the last signal of
  \<open>Stop\<close> finds the process.
\<close>

section \<open>Child sessions\<close>

text \<open>What the suite may observe of a session that was started and not stopped.\<close>

definition child_live :: "child_session \<Rightarrow> bool" where
  "child_live s \<longleftrightarrow> csAlive s \<and> \<not> csStopOnce s \<and> \<not> csWaitOnce s \<and> \<not> csDone s"

definition child_fields :: "child_session \<Rightarrow> child_session \<Rightarrow> bool" where
  "child_fields s t \<longleftrightarrow> csAlive t = csAlive s \<and> csStopOnce t = csStopOnce s \<and> csWaitOnce t = csWaitOnce s \<and>
     csDone t = csDone s \<and> csLastSessionID t = csLastSessionID s"

lemma spawn_fields:
  assumes "spawnAttempt cfg o' n s = (r, t)"
  shows "child_fields s t"
  using assms
  by (cases "caDetect (ccAdapter cfg)")
    (auto simp: spawnAttempt_def Let_def child_fields_def tickActivity_def act_def acts_def
      split: option.splits sum.splits prod.splits if_splits)

lemma send_fields: "childSendInput w d s = (e, t) \<Longrightarrow> child_fields s t"
  by (auto simp: childSendInput_def input_write_def child_fields_def tickActivity_def act_def split: if_splits option.splits)

lemma raw_fields: "writeRawInputString w d s = (e, t) \<Longrightarrow> child_fields s t"
  by (auto simp: writeRawInputString_def input_write_def child_fields_def tickActivity_def act_def split: if_splits option.splits)

lemma plant_keeps_preset:
  "optSessionIDPreset (prOptions (fst (preparePlant io opts ad i fs))) = optSessionIDPreset opts"
  by (simp add: preparePlant_def no_plant_def planted_options_def Let_def split: option.splits sum.splits prod.splits)

lemma child_start_live:
  assumes "srError (childStart cfg ad behav o' opts events fs) = None"
    and "srSession (childStart cfg ad behav o' opts events fs) = Some c"
  shows "child_live c \<and> csLastSessionID c = optSessionIDPreset opts"
proof (cases "optWorkdir opts = ''''")
  case True
  then show ?thesis using assms(1) by (simp add: childStart_def failed_start_def)
next
  case False
  obtain pr fs1 where p: "preparePlant (soFs o') opts ad (ccID cfg) fs = (pr, fs1)" by (rule prod.exhaust)
  have err: "prError pr = None" using assms(1) False p by (auto simp: childStart_def failed_start_def Let_def split: option.splits)
  let ?cfg = "cfg\<lparr>ccAdapter := behav (prAdapter pr)\<rparr>"
  obtain r fs2 where l: "resolveLogPath (ccKind cfg) (soFs o') (prOptions pr) fs1 = (r, fs2)" by (rule prod.exhaust)
  obtain log where r: "r = Inr log"
    using assms(1) False p err l by (cases r) (simp_all add: childStart_def failed_start_def Let_def)
  have cl: "soCreateLog o' = None"
    using assms(1) False p err l r by (cases "soCreateLog o'") (simp_all add: childStart_def failed_start_def Let_def)
  obtain x c1 where sp: "spawnAttempt ?cfg (soSpawn o') 0 (new_child (prOptions pr) (prBootDir pr) events) = (x, c1)"
    by (rule prod.exhaust)
  obtain d where x: "x = Inr d"
    using assms(1) False p err l r cl sp by (cases x) (simp_all add: childStart_def failed_start_def Let_def)
  obtain e c2 where sd: "childSendInput (soFirstTurn o') (optFirstTurnPayload (prOptions pr)) c1 = (e, c2)" by (rule prod.exhaust)
  obtain f c3 where rw: "writeRawInputString (soBootWrite o') (optBootPrompt (prOptions pr)) c1 = (f, c3)" by (rule prod.exhaust)
  have "c = c1 \<or> c = c2 \<or> c = c3"
    using assms False p err l r cl sp x sd rw
    by (cases e; cases f) (auto simp: childStart_def failed_start_def Let_def split: if_splits)
  then have "child_fields c1 c" using send_fields[OF sd] raw_fields[OF rw] by (auto simp: child_fields_def)
  moreover have "child_fields (new_child (prOptions pr) (prBootDir pr) events) c1" by (rule spawn_fields[OF sp])
  moreover have "optSessionIDPreset (prOptions pr) = optSessionIDPreset opts"
    using plant_keeps_preset[of "soFs o'" opts ad "ccID cfg" fs] p by simp
  ultimately show ?thesis by (simp add: child_live_def child_fields_def new_child_def)
qed

text \<open>The environment of a runtime of child processes: what \<open>Start\<close> meets, how a child ends.\<close>

record child_world =
  cwAdapter :: adapter
  cwBehaviour :: "adapter \<Rightarrow> child_adapter"
  cwStart :: start_oracle
  cwFs :: file_system
  cwStop :: stop_oracle
  cwInput :: "go_error option"
  cwElapsed :: int
  cwState :: "process_state option"
  cwExit :: "go_error option"

definition kill_finds :: "child_world \<Rightarrow> stop_oracle" where
  "kill_finds w = (cwStop w)\<lparr>stKillErr := None\<rparr>"

definition started_session :: "start_result \<Rightarrow> go_error + child_session" where
  "started_session r =
     (case (srError r, srSession r) of (None, Some s) \<Rightarrow> Inr s | (Some e, _) \<Rightarrow> Inl e | _ \<Rightarrow> Inl ErrContext)"

lemma started_session_Inr: "started_session r = Inr s \<longleftrightarrow> srError r = None \<and> srSession r = Some s"
  by (simp add: started_session_def split: option.split)

definition event_type :: "stream_event \<Rightarrow> string" where
  "event_type ev = (if evIsSessionID ev then ''session_id'' else evPayload ev)"

definition seen_events :: "child_session \<Rightarrow> string list" where
  "seen_events s = (case csEvents s of None \<Rightarrow> [] | Some ch \<Rightarrow> map event_type (chQueue ch))"

text \<open>A stopped child exits; its waiter or supervised loop ends the session.\<close>

definition child_settle :: "child_config \<Rightarrow> child_world \<Rightarrow> child_session \<Rightarrow> child_session" where
  "child_settle cfg w s =
     (if csDone s \<or> \<not> csStopOnce s then s
      else case optSupervisor (csOpts s) of
        None \<Rightarrow> spawnWaiterLegacy cfg (cwElapsed w) (cwExit w) s
      | Some so \<Rightarrow> finish_supervised (buildExitError (cwState w) (cwExit w) '''') (acts (spawn_cleanup (csOpts s)) s))"

definition pty_api :: "child_config \<Rightarrow> string \<Rightarrow> child_world \<Rightarrow> child_session session_api" where
  "pty_api cfg0 kind w =
     (let cfg = cfg0\<lparr>ccKind := PtyChild\<rparr> in
      \<lparr>apInfo = \<lparr>rtID = ccID cfg, rtKind = kind, rtCaps = ccCaps cfg\<rparr>, apPrepare = prepare cfg,
       apStart = (\<lambda>o'. started_session (childStart cfg (cwAdapter w) (cwBehaviour w) (cwStart w) o' (suite_events o') (cwFs w))),
       apHealth = childHealth, apStop = (\<lambda>s. Some (childStop cfg (kill_finds w) s)), apWait = childWait,
       apSend = (\<lambda>d s. Some (childSendInput (cwInput w) d s)), apResize = childResize cfg None,
       apSessionID = Some childProviderSessionID, apEventTypes = seen_events, apSettle = child_settle cfg w\<rparr>)"

definition streaming_api :: "child_config \<Rightarrow> string \<Rightarrow> child_world \<Rightarrow> child_session session_api" where
  "streaming_api cfg0 kind w =
     (let cfg = cfg0\<lparr>ccKind := StreamingChild\<rparr> in
      \<lparr>apInfo = \<lparr>rtID = ccID cfg, rtKind = kind, rtCaps = ccCaps cfg\<rparr>, apPrepare = streaming_Prepare cfg,
       apStart = (\<lambda>o'. started_session (streamingStart cfg (cwAdapter w) (cwBehaviour w) (cwStart w) o' (suite_events o') (cwFs w))),
       apHealth = streaming_Health, apStop = (\<lambda>s. Some (streamingStop (kill_finds w) s)), apWait = streaming_Wait,
       apSend = (\<lambda>d s. Some (streaming_SendInput (cwInput w) d s)), apResize = streaming_Resize,
       apSessionID = Some streaming_ProviderSessionID, apEventTypes = seen_events, apSettle = child_settle cfg w\<rparr>)"

lemma stop_kill_fields:
  assumes "stop_kill cfg q u = (e, t)" "stKillErr q = None"
  shows "e = None \<and> child_fields u t \<and> csState t = csState u"
proof -
  let ?u = "if ccKind cfg \<noteq> PtyChild \<and> csInput u then act ActCloseStdin u else u"
  have f: "child_fields u ?u \<and> csState ?u = csState u" by (simp add: child_fields_def act_def)
  have a: "child_fields u (act x v) \<and> csState (act x v) = csState u" if "child_fields u v \<and> csState v = csState u" for x v
    using that by (simp add: child_fields_def act_def)
  show ?thesis
  proof (cases "csCmd ?u")
    case None
    then show ?thesis using assms f unfolding stop_kill_def Let_def by simp
  next
    case (Some c)
    then show ?thesis
      using assms f a[OF f] a[OF a[OF f]] unfolding stop_kill_def Let_def
      by (auto split: if_splits)
  qed
qed

lemma stopped_child:
  assumes "child_live s" "childStop cfg (kill_finds w) s = (e, t)"
  shows "e = None" "\<not> csAlive t" "csState t = LiveStateStopped" "csStopOnce t" "\<not> csDone t" "\<not> csWaitOnce t"
    "childStop cfg q t = (None, t)" "childSendInput v d t = (Some ErrNoInputChannel, t)"
proof -
  have k: "stop_kill cfg (kill_finds w) (stop_begin s) = (e, t)" using assms by (simp add: childStop_def child_live_def)
  have f: "e = None \<and> child_fields (stop_begin s) t \<and> csState t = csState (stop_begin s)"
    by (rule stop_kill_fields[OF k]) (simp add: kill_finds_def)
  then show "e = None" "\<not> csAlive t" "csState t = LiveStateStopped" "csStopOnce t" "\<not> csDone t" "\<not> csWaitOnce t"
    using assms(1) by (simp_all add: child_fields_def stop_begin_def child_live_def)
  then show "childStop cfg q t = (None, t)" "childSendInput v d t = (Some ErrNoInputChannel, t)"
    by (simp_all add: childStop_def childSendInput_def input_alive_def)
qed

lemma settled_child:
  assumes "csStopOnce t" "\<not> csDone t" "\<not> csWaitOnce t"
  shows "childWait (child_settle cfg w t) \<noteq> None"
proof (cases "optSupervisor (csOpts t)")
  case None
  have "csDone (finish code err u)" if "\<not> csWaitOnce u" for code err u using that by (simp add: finish_def act_def)
  then show ?thesis
    using assms None
    by (simp add: child_settle_def spawnWaiterLegacy_def childWait_def clear_input_def remove_boot_dir_def act_def acts_def Let_def
        split: prod.split)
next
  case (Some so)
  then show ?thesis
    using assms by (simp add: child_settle_def finish_supervised_def finish_def childWait_def remove_boot_dir_def act_def acts_def Let_def)
qed

lemma pty_api_sel:
  "apInfo (pty_api cfg kind w) = \<lparr>rtID = ccID cfg, rtKind = kind, rtCaps = ccCaps cfg\<rparr>"
  "apPrepare (pty_api cfg kind w) = prepare (cfg\<lparr>ccKind := PtyChild\<rparr>)"
  "apStart (pty_api cfg kind w) = (\<lambda>o'. started_session (childStart (cfg\<lparr>ccKind := PtyChild\<rparr>) (cwAdapter w) (cwBehaviour w)
     (cwStart w) o' (suite_events o') (cwFs w)))"
  "apHealth (pty_api cfg kind w) = childHealth"
  "apStop (pty_api cfg kind w) = (\<lambda>s. Some (childStop (cfg\<lparr>ccKind := PtyChild\<rparr>) (kill_finds w) s))"
  "apWait (pty_api cfg kind w) = childWait" "apSend (pty_api cfg kind w) = (\<lambda>d s. Some (childSendInput (cwInput w) d s))"
  "apResize (pty_api cfg kind w) = childResize (cfg\<lparr>ccKind := PtyChild\<rparr>) None"
  "apSessionID (pty_api cfg kind w) = Some childProviderSessionID"
  "apSettle (pty_api cfg kind w) = child_settle (cfg\<lparr>ccKind := PtyChild\<rparr>) w"
  by (simp_all add: pty_api_def Let_def)

text \<open>The laws about \<open>Stop\<close>, for any runtime whose sessions stop as \<open>childStop\<close> does.\<close>

lemma child_stop_laws:
  assumes "child_live s"
  shows "\<exists>t. Some (childStop cfg (kill_finds w) s) = Some (None, t) \<and> \<not> hsAlive (childHealth t) \<and>
       hsState (childHealth t) = LiveStateStopped"
    "Some (childStop cfg (kill_finds w) s) = Some (None, t) \<Longrightarrow> childWait (child_settle cfg w t) \<noteq> None"
    "Some (childStop cfg (kill_finds w) s) = Some (None, t) \<Longrightarrow> \<exists>u. Some (childStop cfg (kill_finds w) t) = Some (None, u)"
    "Some (childStop cfg (kill_finds w) s) = Some (None, t) \<Longrightarrow> \<exists>u. Some (childSendInput v d t) = Some (Some ErrNoInputChannel, u)"
proof -
  obtain e u where st: "childStop cfg (kill_finds w) s = (e, u)" by (rule prod.exhaust)
  note k = stopped_child[OF assms st]
  show "\<exists>t. Some (childStop cfg (kill_finds w) s) = Some (None, t) \<and> \<not> hsAlive (childHealth t) \<and>
       hsState (childHealth t) = LiveStateStopped"
    using st k(1-3) by (simp add: childHealth_def)
  assume "Some (childStop cfg (kill_finds w) s) = Some (None, t)"
  then have t: "t = u" using st by simp
  show "childWait (child_settle cfg w t) \<noteq> None" unfolding t by (rule settled_child[OF k(4-6)])
  show "\<exists>u. Some (childStop cfg (kill_finds w) t) = Some (None, u)" unfolding t k(7) by blast
  show "\<exists>u. Some (childSendInput v d t) = Some (Some ErrNoInputChannel, u)" unfolding t k(8) by blast
qed

interpretation pty: session_contract "pty_api cfg kind w" child_live for cfg kind w
proof (unfold_locales, unfold pty_api_sel)
  fix opts s
  assume "started_session (childStart (cfg\<lparr>ccKind := PtyChild\<rparr>) (cwAdapter w) (cwBehaviour w) (cwStart w) opts (suite_events opts)
     (cwFs w)) = Inr s"
  then have s: "child_live s \<and> csLastSessionID s = optSessionIDPreset opts"
    using child_start_live by (auto simp: started_session_Inr)
  then show "child_live s" by blast
  show "f s = optSessionIDPreset opts" if "Some childProviderSessionID = Some f" for f
    using s that by (auto simp: childProviderSessionID_def)
qed (use child_stop_laws in \<open>simp_all add: prepare_def child_live_def childHealth_def childResize_def\<close>)

text \<open>The streaming runtime has the functions of its own file, which are the shared ones.\<close>

lemma streaming_api_sel:
  fixes cfg :: child_config
  defines "cf \<equiv> cfg\<lparr>ccKind := StreamingChild\<rparr>"
  shows "apInfo (streaming_api cfg kind w) = \<lparr>rtID = ccID cfg, rtKind = kind, rtCaps = ccCaps cfg\<rparr>"
  "apPrepare (streaming_api cfg kind w) = prepare cf"
  "apStart (streaming_api cfg kind w) = (\<lambda>o'. started_session (childStart cf (cwAdapter w) (cwBehaviour w)
     (cwStart w) o' (suite_events o') (cwFs w)))"
  "apHealth (streaming_api cfg kind w) = childHealth"
  "apStop (streaming_api cfg kind w) = (\<lambda>s. Some (childStop cf (kill_finds w) s))"
  "apWait (streaming_api cfg kind w) = childWait" "apSend (streaming_api cfg kind w) = (\<lambda>d s. Some (childSendInput (cwInput w) d s))"
  "apResize (streaming_api cfg kind w) = (\<lambda>s. None)"
  "apSessionID (streaming_api cfg kind w) = Some childProviderSessionID"
  "apSettle (streaming_api cfg kind w) = child_settle cf w"
proof -
  have k: "ccKind cf = StreamingChild" by (simp add: cf_def)
  note q = streaming_queries_eq[OF k]
  show "apStart (streaming_api cfg kind w) = (\<lambda>o'. started_session (childStart cf (cwAdapter w) (cwBehaviour w)
     (cwStart w) o' (suite_events o') (cwFs w)))"
    unfolding streaming_api_def Let_def cf_def[symmetric] streaming_start_eq[OF k] by simp
  show "apPrepare (streaming_api cfg kind w) = prepare cf"
    unfolding streaming_api_def Let_def cf_def[symmetric] q(1) by simp
  show "apStop (streaming_api cfg kind w) = (\<lambda>s. Some (childStop cf (kill_finds w) s))"
    unfolding streaming_api_def Let_def streaming_stop_eq[OF streaming_no_pty[OF k]] by simp
  show "apSend (streaming_api cfg kind w) = (\<lambda>d s. Some (childSendInput (cwInput w) d s))"
    unfolding streaming_api_def Let_def streaming_send_eq by simp
  show "apHealth (streaming_api cfg kind w) = childHealth" "apWait (streaming_api cfg kind w) = childWait"
    "apSessionID (streaming_api cfg kind w) = Some childProviderSessionID"
    by (simp_all add: streaming_api_def Let_def fun_eq_iff q(3,5,9))
  show "apInfo (streaming_api cfg kind w) = \<lparr>rtID = ccID cfg, rtKind = kind, rtCaps = ccCaps cfg\<rparr>"
    "apResize (streaming_api cfg kind w) = (\<lambda>s. None)" "apSettle (streaming_api cfg kind w) = child_settle cf w"
    by (simp_all add: streaming_api_def Let_def fun_eq_iff streaming_Resize_def cf_def)
qed

interpretation streaming: session_contract "streaming_api cfg kind w" child_live for cfg kind w
proof (unfold_locales, unfold streaming_api_sel)
  fix opts s
  assume "started_session (childStart (cfg\<lparr>ccKind := StreamingChild\<rparr>) (cwAdapter w) (cwBehaviour w) (cwStart w) opts
     (suite_events opts) (cwFs w)) = Inr s"
  then have s: "child_live s \<and> csLastSessionID s = optSessionIDPreset opts"
    using child_start_live by (auto simp: started_session_Inr)
  then show "child_live s" by blast
  show "f s = optSessionIDPreset opts" if "Some childProviderSessionID = Some f" for f
    using s that by (auto simp: childProviderSessionID_def)
qed (use child_stop_laws in \<open>simp_all add: prepare_def child_live_def childHealth_def\<close>)

section \<open>JSON-RPC sessions\<close>

definition jsonrpc_settle :: "child_config \<Rightarrow> child_world \<Rightarrow> jsonrpc_session \<Rightarrow> jsonrpc_session" where
  "jsonrpc_settle cfg w s =
     on_child (\<lambda>c.
       if csDone c \<or> \<not> csStopOnce c then c
       else let c1 = jsonrpc_waited cfg (cwElapsed w) (cwExit w) c in
         (case optSupervisor (csOpts c) of
            None \<Rightarrow> jsonrpc_remove_boot_dir (jsonrpc_attempt_cleanup (jsonrpc_legacy_done (cwExit w) c1))
          | Some so \<Rightarrow>
              jsonrpc_remove_boot_dir (jsonrpc_supervised_done (buildExitError (cwState w) (cwExit w) '''') (jsonrpc_attempt_cleanup c1)))) s"

definition jsonrpc_api :: "child_config \<Rightarrow> string \<Rightarrow> child_world \<Rightarrow> jsonrpc_session session_api" where
  "jsonrpc_api cfg0 kind w =
     (let cfg = cfg0\<lparr>ccKind := JsonRpcChild\<rparr> in
      \<lparr>apInfo = \<lparr>rtID = ccID cfg, rtKind = kind, rtCaps = ccCaps cfg\<rparr>, apPrepare = jsonrpc_Prepare cfg,
       apStart = (\<lambda>o'. case started_session (jsonrpcStart cfg (cwAdapter w) (cwBehaviour w) (cwStart w) o' (suite_events o') (cwFs w)) of
          Inl e \<Rightarrow> Inl e | Inr c \<Rightarrow> Inr (jsonrpc_started c)),
       apHealth = (\<lambda>s. jsonrpc_Health (jsChild s)), apStop = (\<lambda>s. Some (jsonrpcStop (kill_finds w) s)),
       apWait = (\<lambda>s. jsonrpc_Wait (jsChild s)),
       apSend = (\<lambda>d s. case jsonrpc_SendInput (cwInput w) d (jsChild s) of (e, c) \<Rightarrow> Some (e, s\<lparr>jsChild := c\<rparr>)),
       apResize = (\<lambda>s. jsonrpc_Resize (jsChild s)), apSessionID = Some (\<lambda>s. jsonrpc_ProviderSessionID (jsChild s)),
       apEventTypes = (\<lambda>s. seen_events (jsChild s)), apSettle = jsonrpc_settle cfg w\<rparr>)"

lemma jsonrpc_start_eq:
  assumes "ccKind cfg = JsonRpcChild"
  shows "jsonrpcStart cfg ad behav o' opts events fs = childStart cfg ad behav o' opts events fs"
proof -
  have k: "ccKind (cfg\<lparr>ccAdapter := b\<rparr>) = JsonRpcChild" for b using assms by simp
  have np: "ccKind (cfg\<lparr>ccAdapter := b\<rparr>) \<noteq> PtyChild" for b using assms by simp
  have st: "jsChild (snd (jsonrpcStop q (jsonrpc_started u))) = snd (childStop (cfg\<lparr>ccAdapter := b\<rparr>) q u)" for q u b
    using jsonrpc_stop_eq[OF k, of q "jsonrpc_started u" b] by (simp add: jsonrpc_started_def)
  have lp: "jsonrpc_LogPath io op f = resolveLogPath JsonRpcChild io op f" for io op f
    by (simp add: jsonrpc_LogPath_def resolveLogPath_def errLogPath_def Let_def)
  have sp: "jsonrpc_spawnAttempt (cfg\<lparr>ccAdapter := b\<rparr>) p n u = spawnAttempt (cfg\<lparr>ccAdapter := b\<rparr>) p n u" for b p n u
    unfolding jsonrpc_spawn_copy by (rule streaming_spawn_eq[OF np])
  note sd = jsonrpc_send_copy[unfolded streaming_send_eq]
  have st': "snd (childStop (cfg\<lparr>ccAdapter := b\<rparr>) q u) = jsChild (snd (jsonrpcStop q (jsonrpc_started u)))" for q u b
    by (rule st[symmetric])
  show ?thesis
    unfolding jsonrpcStart_def childStart_def sp lp sd st' errWorkdir_def boot_on_stdin_def Let_def
    by (simp only: assms child_kind.distinct kind_text.simps simp_thms if_False append.simps)
qed

definition jsonrpc_live :: "jsonrpc_session \<Rightarrow> bool" where
  "jsonrpc_live s \<longleftrightarrow> child_live (jsChild s)"

lemma jsonrpc_settled:
  assumes "csStopOnce (jsChild t)" "\<not> csDone (jsChild t)" "\<not> csWaitOnce (jsChild t)"
  shows "jsonrpc_Wait (jsChild (jsonrpc_settle cfg w t)) \<noteq> None"
proof -
  have w1: "\<not> csWaitOnce (jsonrpc_waited cfg a e (jsChild t))" for a e
    using assms(3) waited_effect[of "jsChild t" cfg a e] by (simp add: extends_def)
  have d: "csDone (jsonrpc_legacy_done e u)" "csDone (jsonrpc_supervised_done x u)" if "\<not> csWaitOnce u" for e x u
    using closes_done[OF that] by (simp_all add: closes_def)
  have r: "csDone (jsonrpc_remove_boot_dir u) = csDone u" "csDone (jsonrpc_attempt_cleanup u) = csDone u"
    "csWaitOnce (jsonrpc_attempt_cleanup u) = csWaitOnce u" for u
    by (simp_all add: jsonrpc_remove_boot_dir_def jsonrpc_attempt_cleanup_def act_def acts_def)
  show ?thesis
    using assms w1 by (simp add: jsonrpc_settle_def on_child_def jsonrpc_Wait_def Let_def r d split: option.split)
qed

lemma jsonrpc_api_sel:
  fixes cfg :: child_config
  defines "cf \<equiv> cfg\<lparr>ccKind := JsonRpcChild\<rparr>"
  shows "apInfo (jsonrpc_api cfg kind w) = \<lparr>rtID = ccID cfg, rtKind = kind, rtCaps = ccCaps cfg\<rparr>"
  "apPrepare (jsonrpc_api cfg kind w) = jsonrpc_Prepare cf"
  "apStart (jsonrpc_api cfg kind w) = (\<lambda>o'. case started_session (childStart cf (cwAdapter w) (cwBehaviour w)
     (cwStart w) o' (suite_events o') (cwFs w)) of Inl e \<Rightarrow> Inl e | Inr c \<Rightarrow> Inr (jsonrpc_started c))"
  "apHealth (jsonrpc_api cfg kind w) = (\<lambda>s. childHealth (jsChild s))"
  "apStop (jsonrpc_api cfg kind w) = (\<lambda>s. Some (jsonrpcStop (kill_finds w) s))"
  "apWait (jsonrpc_api cfg kind w) = (\<lambda>s. jsonrpc_Wait (jsChild s))"
  "apSend (jsonrpc_api cfg kind w) = (\<lambda>d s. case childSendInput (cwInput w) d (jsChild s) of (e, c) \<Rightarrow> Some (e, s\<lparr>jsChild := c\<rparr>))"
  "apResize (jsonrpc_api cfg kind w) = (\<lambda>s. None)"
  "apSessionID (jsonrpc_api cfg kind w) = Some (\<lambda>s. jsonrpc_ProviderSessionID (jsChild s))"
  "apSettle (jsonrpc_api cfg kind w) = jsonrpc_settle cf w"
proof -
  have k: "ccKind cf = JsonRpcChild" by (simp add: cf_def)
  have h: "jsonrpc_Health c = childHealth c" for c by (simp add: jsonrpc_Health_def childHealth_def Let_def)
  show "apStart (jsonrpc_api cfg kind w) = (\<lambda>o'. case started_session (childStart cf (cwAdapter w) (cwBehaviour w)
     (cwStart w) o' (suite_events o') (cwFs w)) of Inl e \<Rightarrow> Inl e | Inr c \<Rightarrow> Inr (jsonrpc_started c))"
    unfolding jsonrpc_api_def Let_def cf_def[symmetric] jsonrpc_start_eq[OF k] by simp
  show "apSend (jsonrpc_api cfg kind w) = (\<lambda>d s. case childSendInput (cwInput w) d (jsChild s) of (e, c) \<Rightarrow> Some (e, s\<lparr>jsChild := c\<rparr>))"
    unfolding jsonrpc_api_def Let_def jsonrpc_send_copy streaming_send_eq by simp
  show "apInfo (jsonrpc_api cfg kind w) = \<lparr>rtID = ccID cfg, rtKind = kind, rtCaps = ccCaps cfg\<rparr>"
    "apPrepare (jsonrpc_api cfg kind w) = jsonrpc_Prepare cf" "apHealth (jsonrpc_api cfg kind w) = (\<lambda>s. childHealth (jsChild s))"
    "apStop (jsonrpc_api cfg kind w) = (\<lambda>s. Some (jsonrpcStop (kill_finds w) s))"
    "apWait (jsonrpc_api cfg kind w) = (\<lambda>s. jsonrpc_Wait (jsChild s))"
    "apResize (jsonrpc_api cfg kind w) = (\<lambda>s. None)"
    "apSessionID (jsonrpc_api cfg kind w) = Some (\<lambda>s. jsonrpc_ProviderSessionID (jsChild s))"
    "apSettle (jsonrpc_api cfg kind w) = jsonrpc_settle cf w"
    by (simp_all add: jsonrpc_api_def Let_def jsonrpc_Resize_def h cf_def)
qed

lemma jsonrpc_stop_laws:
  assumes "jsonrpc_live s"
  shows "\<exists>t. Some (jsonrpcStop (kill_finds w) s) = Some (None, t) \<and> \<not> hsAlive (childHealth (jsChild t)) \<and>
       hsState (childHealth (jsChild t)) = LiveStateStopped"
    "Some (jsonrpcStop (kill_finds w) s) = Some (None, t) \<Longrightarrow> jsonrpc_Wait (jsChild (jsonrpc_settle cfg w t)) \<noteq> None"
    "Some (jsonrpcStop (kill_finds w) s) = Some (None, t) \<Longrightarrow> \<exists>u. Some (jsonrpcStop (kill_finds w) t) = Some (None, u)"
    "Some (jsonrpcStop (kill_finds w) s) = Some (None, t) \<Longrightarrow>
       \<exists>u. (case childSendInput v d (jsChild t) of (e, c) \<Rightarrow> Some (e, t\<lparr>jsChild := c\<rparr>)) = Some (Some ErrNoInputChannel, u)"
proof -
  let ?cf = "sample_cfg\<lparr>ccKind := JsonRpcChild\<rparr>"
  have k: "ccKind ?cf = JsonRpcChild" by simp
  obtain e u where st: "jsonrpcStop (kill_finds w) s = (e, u)" by (rule prod.exhaust)
  have c: "childStop ?cf (kill_finds w) (jsChild s) = (e, jsChild u)"
    using jsonrpc_stop_eq[OF k, of "kill_finds w" s] st by (simp add: prod_eq_iff)
  note r = stopped_child[OF assms[unfolded jsonrpc_live_def] c]
  show "\<exists>t. Some (jsonrpcStop (kill_finds w) s) = Some (None, t) \<and> \<not> hsAlive (childHealth (jsChild t)) \<and>
       hsState (childHealth (jsChild t)) = LiveStateStopped"
    using st r(1-3) by (simp add: childHealth_def)
  assume "Some (jsonrpcStop (kill_finds w) s) = Some (None, t)"
  then have t: "t = u" using st by simp
  show "jsonrpc_Wait (jsChild (jsonrpc_settle cfg w t)) \<noteq> None" unfolding t by (rule jsonrpc_settled[OF r(4-6)])
  have "jsonrpcStop (kill_finds w) u = (None, u)" using r(4) by (simp add: jsonrpcStop_def)
  then show "\<exists>u. Some (jsonrpcStop (kill_finds w) t) = Some (None, u)" unfolding t by blast
  show "\<exists>u. (case childSendInput v d (jsChild t) of (e, c) \<Rightarrow> Some (e, t\<lparr>jsChild := c\<rparr>)) = Some (Some ErrNoInputChannel, u)"
    unfolding t r(8) by simp
qed

interpretation jsonrpc: session_contract "jsonrpc_api cfg kind w" jsonrpc_live for cfg kind w
proof (unfold_locales, unfold jsonrpc_api_sel)
  fix opts s
  assume "(case started_session (childStart (cfg\<lparr>ccKind := JsonRpcChild\<rparr>) (cwAdapter w) (cwBehaviour w) (cwStart w) opts
     (suite_events opts) (cwFs w)) of Inl e \<Rightarrow> Inl e | Inr c \<Rightarrow> Inr (jsonrpc_started c)) = Inr s"
  then obtain c where c: "s = jsonrpc_started c" "child_live c \<and> csLastSessionID c = optSessionIDPreset opts"
    using child_start_live by (auto simp: started_session_Inr split: sum.splits)
  then show "jsonrpc_live s" by (simp add: jsonrpc_live_def jsonrpc_started_def)
  show "f s = optSessionIDPreset opts" if "Some (\<lambda>s. jsonrpc_ProviderSessionID (jsChild s)) = Some f" for f
    using c that by (auto simp: jsonrpc_ProviderSessionID_def jsonrpc_started_def)
qed (use jsonrpc_stop_laws in \<open>simp_all add: jsonrpc_Prepare_def jsonrpc_live_def child_live_def childHealth_def\<close>)

end
