(* ===== verification/Compliance_Turns.thy ===== *)
theory Compliance_Turns imports Compliance Adapter_Session Provider_Session begin

text \<open>
  The turn-based runtimes keep the session contract: subprocess-per-turn sessions and
  provider sessions.  The suite calls one operation after the other, so an operation
  here runs the sections of its goroutine to their end; what a turn gets from the
  outside (turn id, events, result) is a list of inputs; it ignores those it does not wait for.
\<close>

fun drive :: "('i, 'p, 's) section_step \<Rightarrow> 'i list \<Rightarrow> 'p \<Rightarrow> 's \<Rightarrow> 'p \<times> 's" where
  "drive step [] pc s = (pc, s)"
| "drive step (i # is) pc s = (case step i pc s of None \<Rightarrow> drive step is pc s | Some (pc', s') \<Rightarrow> drive step is pc' s')"

lemma drive_stays: "(\<And>i. step i pc s = None) \<Longrightarrow> drive step is pc s = (pc, s)"
  by (induction "is") simp_all

lemma drive_append:
  "drive step (is @ js) pc s = (case drive step is pc s of (pc', s') \<Rightarrow> drive step js pc' s')"
  by (induction "is" arbitrary: pc s) (auto split: option.split)

fun eventTypeText :: "event_type \<Rightarrow> string" where
  "eventTypeText EventDelta = ''delta''"
| "eventTypeText EventToolUse = ''tool_use''"
| "eventTypeText EventError = ''error''"
| "eventTypeText EventDone = ''done''"
| "eventTypeText EventSessionID = ''session_id''"
| "eventTypeText (EventOther t) = t"

definition llm_events :: "llm_event chan option \<Rightarrow> string list" where
  "llm_events ch = (case ch of None \<Rightarrow> [] | Some c \<Rightarrow> map (\<lambda>ev. eventTypeText (leType ev)) (chQueue c))"

section \<open>Subprocess-per-turn sessions\<close>

record adapter_world =
  awAdapter :: adapter
  awBehaviour :: "adapter \<Rightarrow> child_adapter"
  awIo :: fs_oracle
  awFs :: file_system
  awTurnID :: string
  awRunner :: "runner_event list"
  awRunEnd :: "go_error option"

definition adapter_turn :: "adapter_world \<Rightarrow> adapter_input list" where
  "adapter_turn w = replicate 4 AinGo @ [AinID (awTurnID w), AinGo, AinGo] @
     map AinRunner (awRunner w) @ [AinRunEnd (awRunEnd w), AinGo, AinGo, AinGo]"

definition adapter_send :: "adapter_world \<Rightarrow> bytes \<Rightarrow> adapter_session \<Rightarrow> (go_error option \<times> adapter_session) option" where
  "adapter_send w d s =
     (case drive adapter_step (adapter_turn w) (AsSend d) s of (AsReturned e, t) \<Rightarrow> Some (e, t) | _ \<Rightarrow> None)"

definition adapter_stop :: "adapter_session \<Rightarrow> (go_error option \<times> adapter_session) option" where
  "adapter_stop s =
     (case drive adapter_step (replicate 7 AinGo) AsStop s of (AsStopReturned, t) \<Rightarrow> Some (None, t) | _ \<Rightarrow> None)"

definition adapter_started ::
  "adapter_world \<Rightarrow> go_error + adapter_session \<times> adapter_pc list \<Rightarrow> go_error + adapter_session" where
  "adapter_started w r =
     (case r of
        Inl e \<Rightarrow> Inl e
      | Inr (s, []) \<Rightarrow> Inr s
      | Inr (s, pc # pcs) \<Rightarrow>
          (case drive adapter_step (adapter_turn w) pc s of
             (AsReturned e, t) \<Rightarrow> (case fst (adapterStart_end e) of None \<Rightarrow> Inr t | Some e' \<Rightarrow> Inl e')
           | _ \<Rightarrow> Inl ErrContext))"

definition adapter_api :: "adapter_config \<Rightarrow> adapter_world \<Rightarrow> adapter_session session_api" where
  "adapter_api cfg w =
     \<lparr>apInfo = \<lparr>rtID = acID cfg, rtKind = acKind cfg, rtCaps = acCaps cfg\<rparr>,
      apPrepare = adapterPrepare cfg (awBehaviour w (awAdapter w)),
      apStart = (\<lambda>o'. adapter_started w
        (fst (adapterStart cfg (awAdapter w) (awBehaviour w) (awIo w) o' (suite_events o') (awFs w)))),
      apHealth = adapterHealth, apStop = adapter_stop, apWait = adapterWait, apSend = adapter_send w,
      apResize = adapterResize, apSessionID = Some adapterProviderSessionID,
      apEventTypes = (\<lambda>s. llm_events (asEvents s)), apSettle = (\<lambda>s. s)\<rparr>"

definition adapter_live :: "adapter_session \<Rightarrow> bool" where
  "adapter_live s \<longleftrightarrow> asAlive s \<and> asStopOnce s = OnceNew \<and> asDoneOnce s = OnceNew \<and>
     \<not> asStopClosed s \<and> \<not> asDoneClosed s"

lemmas adapter_steps = adapter_step_def adapter_send_step_def adapter_stop_step_def

text \<open>The first \<open>Stop\<close> runs both of its once blocks, any later one neither.\<close>

lemma adapter_stop_first:
  assumes "adapter_live s"
  shows "\<exists>t. adapter_stop s = Some (None, t) \<and> \<not> asAlive t \<and> asState t = LiveStateStopped \<and>
     asStopOnce t = OnceDone \<and> asDoneOnce t = OnceDone \<and> asDoneClosed t"
  using assms by (simp add: adapter_stop_def adapter_live_def adapter_steps numeral_eq_Suc)

lemma adapter_stop_later:
  assumes "asStopOnce t = OnceDone" "asDoneOnce t = OnceDone"
  shows "adapter_stop t = Some (None, t)"
  using assms by (simp add: adapter_stop_def adapter_steps numeral_eq_Suc)

lemma adapter_send_dead:
  assumes "\<not> asAlive t"
  shows "adapter_send w d t = Some (Some ErrNoInputChannel, t)"
proof -
  have "adapter_step i (AsReturned e) t = None" for i e by (simp add: adapter_steps)
  then show ?thesis
    using assms by (simp add: adapter_send_def adapter_turn_def adapter_steps numeral_eq_Suc drive_stays)
qed

lemma adapter_start_live:
  assumes "adapter_started w (fst (adapterStart cfg ad behav io opts events fs)) = Inr s" "\<not> optAutoFireFirstTurn opts"
  shows "adapter_live s \<and> asSessionID s = optSessionIDPreset opts"
proof -
  have keep: "optAutoFireFirstTurn (prOptions (fst (preparePlant io opts ad i fs))) = optAutoFireFirstTurn opts"
    "optSessionIDPreset (prOptions (fst (preparePlant io opts ad i fs))) = optSessionIDPreset opts" for i
    by (simp_all add: preparePlant_def no_plant_def planted_options_def Let_def split: option.splits sum.splits prod.splits)
  obtain pr fs1 where p: "preparePlant io opts ad (acID cfg) fs = (pr, fs1)" by (rule prod.exhaust)
  have k: "\<not> optAutoFireFirstTurn (prOptions pr)" "optSessionIDPreset (prOptions pr) = optSessionIDPreset opts"
    using keep[of "acID cfg"] assms(2) p by simp_all
  have "s = new_adapter_session cfg behav (prAdapter pr) (prBootDir pr) (prOptions pr) events"
    using assms(1) p k(1) by (auto simp: adapterStart_def adapter_started_def Let_def split: if_splits option.splits)
  then show ?thesis using k(2) by (simp add: new_adapter_session_def adapter_live_def)
qed

interpretation turns: session_contract "adapter_api cfg w" adapter_live for cfg w
proof (unfold_locales, unfold adapter_api_def session_api.simps)
  fix s t d
  assume l: "adapter_live s"
  obtain u where u: "adapter_stop s = Some (None, u)" "\<not> asAlive u" "asState u = LiveStateStopped"
    "asStopOnce u = OnceDone" "asDoneOnce u = OnceDone" "asDoneClosed u"
    using adapter_stop_first[OF l] by blast
  show "\<exists>t. adapter_stop s = Some (None, t) \<and> \<not> hsAlive (adapterHealth t) \<and> hsState (adapterHealth t) = LiveStateStopped"
    using u by (simp add: adapterHealth_def)
  assume "adapter_stop s = Some (None, t)"
  then have t: "t = u" using u(1) by simp
  show "adapterWait t \<noteq> None" using u(6) by (simp add: t adapterWait_def)
  show "\<exists>v. adapter_stop t = Some (None, v)" using adapter_stop_later[OF u(4,5)] by (simp add: t)
  show "\<exists>v. adapter_send w d t = Some (Some ErrNoInputChannel, v)" using adapter_send_dead[OF u(2)] by (simp add: t)
qed (use adapter_start_live in \<open>force simp: adapterPrepare_def adapter_live_def adapterHealth_def adapterResize_def
       adapterProviderSessionID_def\<close>)+

section \<open>Provider sessions\<close>

record provider_world =
  pwTurnID :: string
  pwChat :: "go_error option"
  pwEvents :: "llm_event list"

definition provider_turn :: "provider_world \<Rightarrow> provider_input list" where
  "provider_turn w = replicate 3 PinGo @ [PinID (pwTurnID w), PinGo, PinChat (pwChat w)] @
     map PinEvent (pwEvents w) @ PinClosed # replicate 3 PinGo"

definition provider_send :: "provider_world \<Rightarrow> bytes \<Rightarrow> provider_session \<Rightarrow> (go_error option \<times> provider_session) option" where
  "provider_send w d s =
     (case drive provider_step (provider_turn w) (PvSend d) s of (PvReturned e, t) \<Rightarrow> Some (e, t) | _ \<Rightarrow> None)"

definition provider_stop :: "provider_session \<Rightarrow> (go_error option \<times> provider_session) option" where
  "provider_stop s =
     (case drive provider_step (replicate 3 PinGo) PvStop s of (PvStopReturned, t) \<Rightarrow> Some (None, t) | _ \<Rightarrow> None)"

text \<open>The session type has no \<open>ProviderSessionID\<close>.\<close>

definition provider_api :: "provider_config \<Rightarrow> provider_world \<Rightarrow> provider_session session_api" where
  "provider_api cfg w =
     \<lparr>apInfo = \<lparr>rtID = pcfgID cfg, rtKind = pcfgKind cfg, rtCaps = pcfgCaps cfg\<rparr>, apPrepare = providerPrepare cfg,
      apStart = (\<lambda>o'. Inr (providerStart cfg o' (suite_events o'))), apHealth = providerHealth, apStop = provider_stop,
      apWait = providerWait, apSend = provider_send w, apResize = providerResize, apSessionID = None,
      apEventTypes = (\<lambda>s. llm_events (pvEvents s)), apSettle = (\<lambda>s. s)\<rparr>"

definition provider_live :: "provider_session \<Rightarrow> bool" where
  "provider_live s \<longleftrightarrow> pvAlive s \<and> \<not> pvDone s \<and> \<not> pvDoneOnce s"

lemma provider_stop_first:
  assumes "provider_live s"
  shows "\<exists>t. provider_stop s = Some (None, t) \<and> \<not> pvAlive t \<and> pvState t = LiveStateStopped \<and> pvDone t"
  using assms by (simp add: provider_stop_def provider_live_def provider_step_def numeral_eq_Suc)

lemma provider_stop_later: "\<not> pvAlive t \<Longrightarrow> provider_stop t = Some (None, t)"
  by (simp add: provider_stop_def provider_step_def numeral_eq_Suc)

lemma provider_send_dead:
  assumes "\<not> pvAlive t"
  shows "provider_send w d t = Some (Some ErrNoInputChannel, t)"
proof -
  have "provider_step i (PvReturned e) t = None" for i e by (simp add: provider_step_def)
  then show ?thesis
    using assms by (simp add: provider_send_def provider_turn_def provider_step_def numeral_eq_Suc drive_stays)
qed

interpretation chats: session_contract "provider_api cfg w" provider_live for cfg w
proof (unfold_locales, unfold provider_api_def session_api.simps)
  fix s t d
  assume l: "provider_live s"
  obtain u where u: "provider_stop s = Some (None, u)" "\<not> pvAlive u" "pvState u = LiveStateStopped" "pvDone u"
    using provider_stop_first[OF l] by blast
  show "\<exists>t. provider_stop s = Some (None, t) \<and> \<not> hsAlive (providerHealth t) \<and> hsState (providerHealth t) = LiveStateStopped"
    using u by (simp add: providerHealth_def)
  assume "provider_stop s = Some (None, t)"
  then have t: "t = u" using u(1) by simp
  show "providerWait t \<noteq> None" using u(4) by (simp add: t providerWait_def)
  show "\<exists>v. provider_stop t = Some (None, v)" using provider_stop_later[OF u(2)] by (simp add: t)
  show "\<exists>v. provider_send w d t = Some (Some ErrNoInputChannel, v)" using provider_send_dead[OF u(2)] by (simp add: t)
qed (auto simp: providerPrepare_def provider_live_def providerHealth_def providerResize_def providerStart_def)

end
