(* ===== verification/Compliance_Serve.thy ===== *)
theory Compliance_Serve imports Compliance_Turns Serve_Http begin

text \<open>
  The serve-http runtime keeps the session contract, where the server answers as the
  world says: the listen line, the health poll and the created session at \<open>Start\<close>, the
  answer to a prompt and the lines of the event stream, and at \<open>Stop\<close> a child that
  outlives \<open>SIGTERM\<close> and is found by \<open>SIGKILL\<close>.  The process waiter and the finisher run
  while the suite waits.
\<close>

record serve_world =
  swUrl :: url_lib
  swAdapter :: adapter
  swBehaviour :: "adapter \<Rightarrow> child_adapter"
  swOracle :: serve_oracle
  swFs :: file_system
  swListen :: string
  swSelect :: start_choice
  swPoll :: poll
  swCreated :: http_answer
  swPrompt :: http_answer
  swStream :: "serve_input list"
  swExit :: "go_error option"
  swTerm :: "go_error option"

definition serve_launch :: "serve_world \<Rightarrow> serve_input list" where
  "serve_launch w = [SinSelect (swSelect w), SinPoll (swPoll w), SinHttp (swCreated w), SinGo, SinGo] @
     [SinGo, SinGo, SinHttp (swPrompt w)] @ replicate 4 SinGo"

definition serve_started ::
  "serve_world \<Rightarrow> go_error option \<times> serve_session option \<times> serve_pc list \<Rightarrow> go_error + serve_session" where
  "serve_started w r =
     (case r of
        (None, Some s, ts) \<Rightarrow>
          (case drive (serve_start_step (swUrl w)) (serve_launch w) SvStartSelect (scan_line (swUrl w) (swListen w) s) of
             (pc, t) \<Rightarrow>
               (case svStartError t of
                  Some e \<Rightarrow> Inl e
                | None \<Rightarrow> if pc = SvStarted then Inr t else Inl ErrContext))
      | (Some e, _) \<Rightarrow> Inl e
      | _ \<Rightarrow> Inl ErrContext)"

definition serve_stop :: "serve_world \<Rightarrow> serve_session \<Rightarrow> (go_error option \<times> serve_session) option" where
  "serve_stop w s =
     (case drive (serve_stop_step (swUrl w))
             (replicate 5 SinGo @ [SinTimer False, SinSignal (swTerm w), SinTimer False, SinSignal None, SinGo]) SvStop s of
        (SvStopReturned e, t) \<Rightarrow> Some (e, t)
      | _ \<Rightarrow> None)"

definition serve_send :: "serve_world \<Rightarrow> bytes \<Rightarrow> serve_session \<Rightarrow> (go_error option \<times> serve_session) option" where
  "serve_send w d s =
     (case drive (input_step (swUrl w)) ([SinGo, SinGo, SinHttp (swPrompt w)] @ replicate 3 SinGo) (SvSend d) s of
        (SvReturned e, t) \<Rightarrow> Some (e, t)
      | _ \<Rightarrow> None)"

definition serve_settle :: "serve_world \<Rightarrow> serve_session \<Rightarrow> serve_session" where
  "serve_settle w s =
     (if svDone s then s
      else if \<not> svStopRequested s then snd (drive stream_step (swStream w) (SvStream []) s)
      else snd (drive finisher_step (replicate 4 SinGo) SvFinish
             (snd (drive waiter_step [SinExit (swExit w), SinGo, SinGo] SvWaiter s))))"

definition serve_api :: "adapter_config \<Rightarrow> serve_world \<Rightarrow> serve_session session_api" where
  "serve_api cfg w =
     \<lparr>apInfo = \<lparr>rtID = acID cfg, rtKind = acKind cfg, rtCaps = acCaps cfg\<rparr>,
      apPrepare = servePrepare cfg (swBehaviour w (swAdapter w)),
      apStart = (\<lambda>o'. serve_started w
        (fst (serveStart cfg (swAdapter w) (swBehaviour w) (swOracle w) o' (suite_events o') (swFs w)))),
      apHealth = serveHealth, apStop = serve_stop w, apWait = serveWait, apSend = serve_send w,
      apResize = serveResize, apSessionID = Some serveProviderSessionID,
      apEventTypes = (\<lambda>s. llm_events (svEvents s)), apSettle = serve_settle w\<rparr>"

definition serve_live :: "serve_session \<Rightarrow> bool" where
  "serve_live s \<longleftrightarrow> svAlive s \<and> svStopOnce s = OnceNew \<and> \<not> svStopRequested s \<and> \<not> svDone s \<and> \<not> svWaitOnce s \<and>
     svProcessDone s = new_chan 1"

text \<open>What \<open>Start\<close> keeps until it has returned: the session is live and holds its preset, or \<open>Start\<close> fails.\<close>

definition serve_starting :: "serve_pc \<Rightarrow> serve_session \<Rightarrow> bool" where
  "serve_starting pc s \<longleftrightarrow> (pc = SvStop \<and> svStartError s \<noteq> None) \<or>
     (pc \<in> {SvStartSelect, SvStartHealth, SvStartSession, SvStartLaunch, SvStarted} \<and> svStartError s = None \<and> serve_live s \<and>
      \<not> optAutoFireFirstTurn (svOpts s) \<and>
      (optSessionIDPreset (svOpts s) \<noteq> '''' \<longrightarrow> svLastSessionID s = optSessionIDPreset (svOpts s)))"

lemma created_session_keeps:
  assumes "createSession ul a s = (e, t)"
  shows "serve_live t = serve_live s \<and> svOpts t = svOpts s \<and> svStartError t = svStartError s"
  using assms
  by (cases a) (auto simp: createSession_def serve_live_def sv_act_def Let_def split: if_splits option.splits)

lemma serve_start_step_keeps:
  assumes "serve_starting pc s" "serve_start_step ul ev pc s = Some (pc', s')"
  shows "serve_starting pc' s' \<and> svOpts s' = svOpts s"
proof -
  consider "pc = SvStop" | "pc = SvStarted" | "pc = SvStartSelect" | "pc = SvStartHealth" | "pc = SvStartSession" | "pc = SvStartLaunch"
    using assms(1) by (auto simp: serve_starting_def)
  then show ?thesis
  proof cases
    case 3
    then show ?thesis
      using assms
      by (auto simp: serve_start_step_def start_select_def start_fails_def serve_starting_def serve_live_def
          split: serve_input.splits start_choice.splits list.splits if_splits)
  next
    case 4
    then show ?thesis
      using assms
      by (auto simp: serve_start_step_def start_fails_def serve_starting_def serve_live_def
          split: serve_input.splits option.splits)
  next
    case 5
    show ?thesis
    proof (cases ev)
      case (SinHttp a)
      obtain e t where c: "createSession ul a s = (e, t)" by (rule prod.exhaust)
      show ?thesis
        using assms 5 SinHttp c created_session_keeps[OF c]
        by (cases e) (auto simp: serve_start_step_def start_fails_def serve_starting_def split: if_splits)
    qed (use assms 5 in \<open>auto simp: serve_start_step_def serve_starting_def serve_live_def split: if_splits\<close>)
  next
    case 6
    then show ?thesis
      using assms
      by (auto simp: serve_start_step_def serve_starting_def serve_live_def split: serve_input.splits)
  qed (use assms in \<open>simp_all add: serve_start_step_def\<close>)
qed

lemma serve_drive_keeps:
  assumes "serve_starting pc s" "drive (serve_start_step ul) is pc s = (pc', s')"
  shows "serve_starting pc' s' \<and> svOpts s' = svOpts s"
  using assms
proof (induction "is" arbitrary: pc s)
  case (Cons i "is")
  show ?case
  proof (cases "serve_start_step ul i pc s")
    case None
    then show ?thesis using Cons by simp
  next
    case (Some r)
    then obtain pc1 s1 where r: "serve_start_step ul i pc s = Some (pc1, s1)" by (cases r) simp
    have k: "serve_starting pc1 s1 \<and> svOpts s1 = svOpts s" by (rule serve_start_step_keeps[OF Cons.prems(1) r])
    have d: "drive (serve_start_step ul) is pc1 s1 = (pc', s')" using Cons.prems(2) r by simp
    show ?thesis using Cons.IH[OF _ d] k by simp
  qed
qed simp

lemma serve_spawn_keeps:
  assumes "serve_spawn environ o' s = (e, t)"
  shows "serve_live t = serve_live s \<and> svOpts t = svOpts s \<and> svStartError t = svStartError s \<and>
     svLastSessionID t = svLastSessionID s"
  using assms
  by (auto simp: serve_spawn_def serve_live_def sv_act_def Let_def split: option.splits sum.splits prod.splits if_splits)

lemma scan_keeps:
  "serve_live (scan_line ul l s) = serve_live s \<and> svOpts (scan_line ul l s) = svOpts s \<and>
   svStartError (scan_line ul l s) = svStartError s \<and> svLastSessionID (scan_line ul l s) = svLastSessionID s"
  by (auto simp: scan_line_def writeOutput_def serve_live_def Let_def split: option.split)

lemma serve_start_live:
  assumes "serve_started w (fst (serveStart cfg ad behav o' opts events fs)) = Inr s" "\<not> optAutoFireFirstTurn opts"
  shows "serve_live s \<and> (optSessionIDPreset opts \<noteq> '''' \<longrightarrow> svLastSessionID s = optSessionIDPreset opts)"
proof -
  have keep: "optAutoFireFirstTurn (prOptions (fst (preparePlant io opts ad i fs))) = optAutoFireFirstTurn opts"
    "optSessionIDPreset (prOptions (fst (preparePlant io opts ad i fs))) = optSessionIDPreset opts" for io i
    by (simp_all add: preparePlant_def no_plant_def planted_options_def Let_def split: option.splits sum.splits prod.splits)
  obtain pr fs1 where p: "preparePlant (seoFs o') opts ad (acID cfg) fs = (pr, fs1)" by (rule prod.exhaust)
  have k: "\<not> optAutoFireFirstTurn (prOptions pr)" "optSessionIDPreset (prOptions pr) = optSessionIDPreset opts"
    using keep[of "seoFs o'" "acID cfg"] assms(2) p by simp_all
  let ?n = "new_serve cfg (behav (prAdapter pr)) (prBootDir pr) (prOptions pr) events"
  obtain e u where sp: "serve_spawn (seoEnviron o') (seoSpawn o') ?n = (e, u)" by (rule prod.exhaust)
  note u = serve_spawn_keeps[OF sp]
  let ?l = "scan_line (swUrl w) (swListen w) u"
  obtain pc t where d: "drive (serve_start_step (swUrl w)) (serve_launch w) SvStartSelect ?l = (pc, t)" by (rule prod.exhaust)
  have "serve_starting SvStartSelect ?l"
    using u scan_keeps[of "swUrl w" "swListen w" u] k by (simp add: serve_starting_def new_serve_def serve_live_def)
  then have t: "serve_starting pc t" "svOpts t = prOptions pr"
    using serve_drive_keeps[OF _ d] scan_keeps[of "swUrl w" "swListen w" u] u by (simp_all add: new_serve_def)
  have "s = t" "pc = SvStarted"
    using assms(1) p sp d
    by (auto simp: serve_started_def serveStart_def Let_def split: if_splits option.splits sum.splits prod.splits)
  then show ?thesis using t k by (simp add: serve_starting_def)
qed

text \<open>The sections of a \<open>Stop\<close> whose child outlives the grace periods.\<close>

lemma serve_stop_sections:
  "svStopOnce s = OnceNew \<Longrightarrow>
     serve_stop_step ul SinGo SvStop s = Some (SvStopState, s\<lparr>svStopOnce := OnceRunning, svAlive := False\<rparr>)"
  "serve_stop_step ul SinGo SvStopState s = Some (SvStopCancel, s\<lparr>svState := LiveStateStopped\<rparr>)"
  "\<not> svStopRequested s \<Longrightarrow> serve_stop_step ul SinGo SvStopCancel s =
     Some (SvStopDispose, let s1 = s\<lparr>svStopRequested := True\<rparr> in if svStreaming s1 then sv_act SaCancelStream s1 else s1)"
  "serve_stop_step ul SinGo SvStopDispose s = Some (SvStopAbort, postNoBody (svBaseURL s @ ''/global/dispose'') s)"
  "serve_stop_step ul SinGo SvStopAbort s =
     Some (let s1 = (if svSessionID s \<noteq> '''' then postNoBody (session_url ul ''/abort'' s) s else s) in
       (if svCmd s1 = None \<or> cmdPid (the (svCmd s1)) = None then SvStopOnceEnd None else SvStopWait, s1))"
  "serve_stop_step ul (SinTimer False) SvStopWait s = Some (SvStopTerm, s)"
  "serve_stop_step ul (SinSignal x) SvStopTerm s =
     Some (if x = None then SvStopGrace else SvStopOnceEnd None, sv_act (SaSignal SIGTERM) s)"
  "serve_stop_step ul (SinTimer False) SvStopGrace s = Some (SvStopKill, s)"
  "serve_stop_step ul (SinSignal x) SvStopKill s = Some (SvStopOnceEnd x, sv_act (SaSignal SIGKILL) s)"
  "serve_stop_step ul SinGo (SvStopOnceEnd e) s = Some (SvStopReturned e, s\<lparr>svStopOnce := OnceDone\<rparr>)"
  "serve_stop_step ul (SinTimer t) (SvStopOnceEnd e) s = None" "serve_stop_step ul (SinSignal x) (SvStopOnceEnd e) s = None"
  by (simp_all add: serve_stop_step_def Let_def split: option.split)

definition stopped_serve :: "serve_session \<Rightarrow> bool" where
  "stopped_serve t \<longleftrightarrow> \<not> svAlive t \<and> svState t = LiveStateStopped \<and> svStopRequested t \<and> \<not> svDone t \<and> \<not> svWaitOnce t \<and>
     svProcessDone t = new_chan 1"

lemma stopped_serve_act [simp]: "stopped_serve (sv_act a t) = stopped_serve t" "stopped_serve (postNoBody u t) = stopped_serve t"
  "stopped_serve (t\<lparr>svStopOnce := x\<rparr>) = stopped_serve t"
  by (simp_all add: stopped_serve_def sv_act_def postNoBody_def)

lemma serve_stop_first:
  assumes "serve_live s"
  shows "\<exists>t. serve_stop w s = Some (None, t) \<and> \<not> svAlive t \<and> svState t = LiveStateStopped \<and> svStopOnce t = OnceDone \<and>
     svStopRequested t \<and> \<not> svDone t \<and> \<not> svWaitOnce t \<and> svProcessDone t = new_chan 1"
proof -
  let ?step = "serve_stop_step (swUrl w)"
  have "svStopOnce s = OnceNew" using assms by (simp add: serve_live_def)
  note first = serve_stop_sections(1)[OF this]
  obtain s3 where s3: "drive ?step [SinGo, SinGo, SinGo] SvStop s = (SvStopDispose, s3)" "stopped_serve s3"
    using assms by (simp add: first serve_stop_sections serve_live_def stopped_serve_def Let_def sv_act_def)
  obtain pc s5 where s5: "drive ?step [SinGo, SinGo] SvStopDispose s3 = (pc, s5)" "stopped_serve s5"
    "pc = SvStopWait \<or> pc = SvStopOnceEnd None"
    using s3(2) by (simp add: serve_stop_sections Let_def)
  obtain t where t: "drive ?step [SinTimer False, SinSignal (swTerm w), SinTimer False, SinSignal None, SinGo] pc s5 =
      (SvStopReturned None, t\<lparr>svStopOnce := OnceDone\<rparr>)" "stopped_serve t"
  proof (cases "pc = SvStopWait")
    case True
    then show thesis using that s5(2) by (cases "swTerm w") (simp_all add: serve_stop_sections)
  next
    case False
    then show thesis using that s5(2,3) by (simp add: serve_stop_sections)
  qed
  have five: "replicate 5 SinGo @ is = [SinGo, SinGo, SinGo] @ [SinGo, SinGo] @ is" for "is" by (simp add: numeral_eq_Suc)
  have "serve_stop w s = Some (None, t\<lparr>svStopOnce := OnceDone\<rparr>)"
    unfolding serve_stop_def five drive_append s3(1) prod.case s5(1) t(1) by simp
  then show ?thesis using t(2) by (simp add: stopped_serve_def)
qed

lemma serve_stop_later: "svStopOnce t = OnceDone \<Longrightarrow> serve_stop w t = Some (None, t)"
  by (simp add: serve_stop_def serve_stop_step_def numeral_eq_Suc)

lemma serve_send_dead: "\<not> svAlive t \<Longrightarrow> serve_send w d t = Some (Some ErrNoInputChannel, t)"
  by (simp add: serve_send_def input_step_def numeral_eq_Suc)

lemma serve_settled:
  assumes "svStopRequested t" "\<not> svDone t" "\<not> svWaitOnce t" "svProcessDone t = new_chan 1"
  shows "serveWait (serve_settle w t) \<noteq> None"
  using assms
  by (simp add: serve_settle_def serveWait_def waiter_step_def finisher_step_def finish_once_def numeral_eq_Suc
      chan_try_send_def chan_close_def chan_recv_def new_chan_def)

interpretation served: session_contract "serve_api cfg w" serve_live for cfg w
proof (unfold_locales, unfold serve_api_def session_api.simps)
  fix s t d
  assume l: "serve_live s"
  obtain u where u: "serve_stop w s = Some (None, u)" "\<not> svAlive u" "svState u = LiveStateStopped" "svStopOnce u = OnceDone"
    "svStopRequested u" "\<not> svDone u" "\<not> svWaitOnce u" "svProcessDone u = new_chan 1"
    using serve_stop_first[OF l] by blast
  show "\<exists>t. serve_stop w s = Some (None, t) \<and> \<not> hsAlive (serveHealth t) \<and> hsState (serveHealth t) = LiveStateStopped"
    using u by (simp add: serveHealth_def)
  assume "serve_stop w s = Some (None, t)"
  then have t: "t = u" using u(1) by simp
  show "serveWait (serve_settle w t) \<noteq> None" unfolding t by (rule serve_settled[OF u(5-8)])
  show "\<exists>v. serve_stop w t = Some (None, v)" using serve_stop_later[OF u(4)] by (simp add: t)
  show "\<exists>v. serve_send w d t = Some (Some ErrNoInputChannel, v)" using serve_send_dead[OF u(2)] by (simp add: t)
qed (use serve_start_live in \<open>force simp: servePrepare_def serve_live_def serveHealth_def serveResize_def
       serveProviderSessionID_def\<close>)+

end
