(* ===== verification/Spec2Isabelle.thy ===== *)
theory Spec2Isabelle imports Attach_Spec Session_Types Manager_Props Boot_Planting Os_Support Long_Lived_Props Jsonrpc_Props
  Provider_Props Adapter_Props Serve_Races Streaming_Stdio Jsonrpc_Session_Props Compliance_Props begin

text \<open>
  A verification development for \<open>go-agent-sessions\<close>, the Go library (under
  \<open>src/agentsessions\<close>) that turns a command line agent or an API provider into a
  long-lived session, and manages sessions.

  \<^bold>\<open>The program.\<close>  A consumer builds a \<open>Runtime\<close> with \<open>NewFromAdapter\<close> or
  \<open>NewFromProvider\<close>; its capabilities select one of six kinds of session.  \<open>Start\<close> plants a
  boot directory, resolves the log file and spawns the child (sandbox, resource limits,
  process group); readers log its output, fan it out and parse events; a waiter or, with a
  supervisor, a restart loop ends the session; \<open>Stop\<close>, \<open>SendInput\<close>, \<open>Wait\<close> and the queries
  are called from any goroutine.  The \<open>Manager\<close> registers sessions under ids, reports their
  states to a sink, watches for their end, and serves attach subscribers from a broker that
  the session writes its output to.

  \<^bold>\<open>Theories and files.\<close>
  \<^item> \<open>Prelude\<close>, \<open>Go_Errors\<close>, \<open>Go_Strings\<close>, \<open>Go_Paths\<close>, \<open>Utf8\<close>, \<open>Go_Json\<close>, \<open>Go_Json_Props\<close>: what
    the code uses of Go - buffered channels whose misuse is None, error values and wrap
    chains, byte strings, paths, the rune decoder, \<open>encoding/json\<close>.
  \<^item> \<open>Session_Types\<close>: \<open>types.go\<close>.  \<open>Supervision\<close>: \<open>supervision.go\<close> and the idle and watchdog
    tickers of the session files.  \<open>Os_Support\<close>: \<open>wraparg_*.go\<close>, \<open>process_group_*.go\<close>,
    \<open>diagnostics.go\<close>, \<open>id.go\<close>, \<open>event_fanout.go\<close>.  \<open>Boot_Planting\<close>: \<open>bootdir_planting.go\<close>.
  \<^item> \<open>Attach\<close>, \<open>Attach_Spec\<close>: \<open>attach.go\<close> - the record \<open>broker\<close> with its store of channels.
  \<^item> \<open>Manager\<close> (the sections of each method), \<open>Manager_Run\<close> (goroutines and worlds),
    \<open>Manager_Inv\<close>, \<open>Manager_Life\<close>, \<open>Manager_Props\<close>: \<open>manager.go\<close>.
  \<^item> \<open>Long_Lived\<close>, \<open>Long_Lived_Run\<close>, \<open>Long_Lived_Spec\<close>, \<open>Long_Lived_Props\<close>: \<open>pty_session.go\<close>, and
    the lifecycle that the two stdio files repeat.  \<open>Streaming_Stdio\<close>:
    \<open>streaming_stdio_session.go\<close>, translated on its own and proved equal to it.
  \<^item> \<open>Jsonrpc\<close>, \<open>Jsonrpc_Inv\<close>, \<open>Jsonrpc_Wire\<close>, \<open>Jsonrpc_Props\<close>: the client of
    \<open>jsonrpc_stdio_session.go\<close> (frames, pending table, \<open>Call\<close>, requests of the child).
    \<open>Jsonrpc_Session\<close>, \<open>Jsonrpc_Session_Inv\<close>, \<open>Jsonrpc_Session_Props\<close>: the process lifecycle of the
    same file, and the session in which both run.
  \<^item> \<open>Threads\<close> (goroutines as program counters over a session), \<open>Adapter_Session\<close>,
    \<open>Adapter_Props\<close>: \<open>from_adapter.go\<close>; \<open>Provider_Session\<close>, \<open>Provider_Props\<close>: \<open>from_provider.go\<close>;
    \<open>Serve_Http\<close>, \<open>Serve_Props\<close>, \<open>Serve_Life\<close>, \<open>Serve_Races\<close>: \<open>serve_http_session.go\<close>.
  \<^item> \<open>Compliance\<close>: \<open>compliance/compliance.go\<close>; \<open>Compliance_Runtimes\<close>, \<open>Compliance_Turns\<close>,
    \<open>Compliance_Serve\<close>: each runtime as the suite sees it; \<open>Compliance_Props\<close>: the outcome.

  \<^bold>\<open>How state and effects are modelled.\<close>  A Go struct is a record of its fields; what the code
  does to the outside (process, pipe, log, callback, sink, HTTP request) is appended to a
  trace in the record; what the outside answers is an argument (an oracle record, or part of
  an event), so a theorem over all arguments is a theorem over all behaviours of the outside.
  A panic is None or a program counter of its own; an error is a value.  Widths matter where
  the code computes with them: durations, backoffs and JSON-RPC codes are 64-bit words,
  exit codes and process ids pass through \<open>int32\<close>.

  \<^bold>\<open>Concurrency.\<close>  One atomic section is a region under a lock, one atomic operation, or a call
  of the outside.  The broker's operations are single sections.  The \<open>Manager\<close>, the JSON-RPC
  client and session, the turn-based sessions and the serve-http session are step
  relations over sections with any number of goroutines, so their theorems hold for every
  interleaving.  The lifecycle of pty and streaming sessions is sequential: the reader runs to
  the end of the output before the waiter acts, as the code orders them; the supervisors of one
  attempt are the machine of \<open>Supervision\<close>, which does interleave.  In \<open>Jsonrpc_Session\<close> a write
  of \<open>SendInput\<close> is one section, and the first turn that \<open>Start\<close> sends runs before the
  goroutines it made interleave.

  \<^bold>\<open>Interfaces.\<close>  \<open>replay_log\<close> (\<open>Attach_Spec\<close>): what a reconnecting client needs of a replayed
  log; the broker is an instance.  \<open>turn_flag\<close> (\<open>Threads\<close>): a flag claimed by compare-and-swap or a
  once block admits one goroutine; instances are the turns of adapter and provider sessions,
  their once blocks, the process waiter and \<open>Stop\<close> of serve-http sessions.  \<open>session_contract\<close>
  (\<open>Compliance\<close>): the laws of a session; all six runtimes are instances.

  \<^bold>\<open>What is shown.\<close>
  \<^item> Broker: no panic in any run; the ring is the suffix of the accepted log; a resumed
    subscriber sees neither a gap nor a repetition.
  \<^item> Supervision: the backoff is bounded without overflow; the recorded cause and the signals
    sent are those of the first decision, for every interleaving.
  \<^item> Manager: no panic while no id is started twice at once; the sink sees each id through a
    fixed grammar of states; \<open>Shutdown\<close> drains; \<open>WaitSession\<close> returns the code of the one
    terminal update; and the runs in which duplicate ids panic and \<open>Start\<close> races \<open>Shutdown\<close>.
  \<^item> Boot directory: a failing planting changes no file; a succeeding one writes exactly what
    was rendered.
  \<^item> Long-lived children: spawn releases what it took on each failure; how many restarts a
    supervised session makes, with which backoff; that it ends and \<open>Wait\<close> returns; which session
    id a restart resumes.
  \<^item> JSON-RPC: a call returns the response to its own request; the end of a session releases
    the waiting calls (and the window in which one is missed); one answer for each request of
    the child; the running session refines the client; one teardown, no restart after \<open>Stop\<close>.
  \<^item> Turn-based and serve-http sessions: one turn at a time; \<open>Stop\<close> closes and removes once;
    what a turn runs, fans out and returns; a well-formed conversation; the event stream
    arrives complete; and the races the code leaves open.
  \<^item> Composition: every runtime \<open>NewFromAdapter\<close> accepts passes the compliance suite, for
    \<open>NewFromProvider\<close> exactly when it declares no provider session id.

  \<^bold>\<open>Bounds.\<close>  The JSON parser has fuel of twice the length of its input and one: each step of
  its mutual recursion consumes a byte or moves from value to element once, and the nesting
  limit is Go's 10000.  A scanned line is at most 1 MiB, where the scanner of the code
  stops.  The restart loop has no fuel: its recursion is on the restarts left.

  \<^bold>\<open>Not modelled.\<close>  The operating system, the file system calls, pty, HTTP server, sandbox,
  runner, adapters and providers are modules outside \<open>src\<close>: their answers are parameters.
  Timers are choices of the environment.  The example program \<open>examples/runner_session\<close> and
  \<open>doc.go\<close> hold no logic of the library; \<open>testing.T\<close> and the output buffer of the compliance
  suite are left out, and its event check is translated but not claimed, since whether a child
  emits an event is up to the child.  Data races below the level of a section are not
  represented: a field the code reads without its lock is read in a section of its own.
\<close>

end
